(* ===== verification/Prelude.thy ===== *)
theory Prelude
  imports Complex_Main "HOL-Library.Word" "HOL-Library.Multiset" "HOL-Library.Sublist"
begin

text \<open>
  What every component theory shares: the lemma collections, Go's error values, the values
  that go into the JSON maps of the engine, and generic lemmas on lists and maps.
\<close>

section \<open>Collections of facts\<close>

named_theorems go_defs \<open>unfolding of small Go helpers\<close>
named_theorems frame \<open>fields an operation leaves alone\<close>

section \<open>Error values\<close>

text \<open>
  A Go \<open>error\<close> as the engine builds it. \<open>ErrFmt\<close> is \<open>fmt.Errorf\<close> without \<open>%w\<close> (its
  arguments are flattened into text, so nothing can be unwrapped from it), \<open>ErrWrap\<close> is
  \<open>fmt.Errorf\<close> with a final \<open>%w\<close>, and \<open>ErrCoded\<close> is the engine's \<open>codedError\<close>.
  Formats are kept with their arguments instead of being rendered. The other constructors are
  the sentinel errors that the code tests for; \<open>ErrPanic\<close> is a run-time panic.
\<close>

datatype gerror =
    ErrText string
  | ErrFmt string "farg list"
  | ErrWrap string "farg list" gerror
  | ErrCoded string gerror
  | ErrNotExist
  | ErrPermission
  | ErrReadOnly
  | ErrSftpNoSuchFile
  | ErrSftpPermissionDenied
  | ErrSftpFailure
  | ErrSftpOpUnsupported
  | ErrEOF
  | ErrNetClosed
  | ErrCanceled
  | ErrDeadline
  | ErrPanic string
and farg =
    FStr string
  | FInt int
  | FErr gerror

text \<open>A fallible Go call \<open>(T, error)\<close>: \<open>Inl\<close> the error or \<open>Inr\<close> the value.\<close>

type_synonym 'a res = "gerror + 'a"

section \<open>JSON values and events\<close>

text \<open>
  The values the engine stores under \<open>map[string]any\<close>. \<open>JFmt\<close> is a
  formatted message.
\<close>

datatype jval =
    JStr string
  | JInt int
  | JBool bool
  | JNum rat
  | JInts "int list"
  | JStrs "string list"
  | JFmt string "farg list"

text \<open>\<open>type Event map[string]any\<close>\<close>

type_synonym event = "string \<Rightarrow> jval option"

section \<open>Generic lemmas\<close>

lemma drop_drop_append: "n \<le> length xs \<Longrightarrow> drop n xs @ ys = drop n (xs @ ys)"
  by simp

lemma subseq_drop: "subseq (drop n xs) xs"
  by (metis append_take_drop_id list_emb_append2 subseq_order.refl)

lemma subseq_append_right: "subseq xs ys \<Longrightarrow> subseq (xs @ zs) (ys @ zs)"
  by (simp add: list_emb_append_mono)

lemma subseq_same_length: "subseq xs ys \<Longrightarrow> length xs = length ys \<Longrightarrow> xs = ys"
  by (metis subseq_same_length)

lemma distinct_map_sort_key: "distinct (map f (sort_key f xs)) = distinct (map f xs)"
  by (metis mset_eq_imp_distinct_iff mset_map mset_sort)

lemma map_upd_eq_Some [simp]: "(m(k \<mapsto> v)) k = Some v"
  by simp

end
