(* ===== verification/Event_Queue.thy ===== *)
theory Event_Queue
  imports Prelude
begin

text \<open>
  The bounded event queue of \<open>core/engine/events.go\<close>: \<open>EventQueue\<close> with \<open>Push\<close>,
  \<open>Drain\<close> and \<open>Len\<close>. Every operation runs under the queue's mutex, so it is one atomic
  step; the clock reading \<open>time.Now().UnixMilli()\<close> is an argument.
\<close>

section \<open>The queue\<close>

definition maxQueuedEvents :: nat where
  "maxQueuedEvents = 5000"

record event_queue =
  qEvents :: "event list"
  qDropped :: nat

definition empty_queue :: event_queue where
  "empty_queue = \<lparr>qEvents = [], qDropped = 0\<rparr>"

text \<open>The stamping at the head of \<open>Push\<close>: \<open>ts\<close> is set only when it is absent.\<close>

definition stamp :: "int \<Rightarrow> event \<Rightarrow> event" where
  "stamp now ev = (if ev ''ts'' = None then ev(''ts'' \<mapsto> JInt now) else ev)"

definition push :: "int \<Rightarrow> event \<Rightarrow> event_queue \<Rightarrow> event_queue" where
  "push now ev q =
     (let ev = stamp now ev;
          q = (if maxQueuedEvents \<le> length (qEvents q)
               then let n = length (qEvents q) div 2
                    in q\<lparr>qDropped := qDropped q + n, qEvents := drop n (qEvents q)\<rparr>
               else q)
      in q\<lparr>qEvents := qEvents q @ [ev]\<rparr>)"

definition overflow_notice :: "int \<Rightarrow> event" where
  "overflow_notice now =
     [''type'' \<mapsto> JStr ''log'', ''ts'' \<mapsto> JInt now, ''level'' \<mapsto> JStr ''warn'',
      ''msg'' \<mapsto> JStr ''event queue overflow; some events were dropped'']"

text \<open>\<open>None\<close> is the nil slice.\<close>

definition drain :: "int \<Rightarrow> event_queue \<Rightarrow> event list option \<times> event_queue" where
  "drain now q =
     (if qEvents q = [] then (None, q)
      else let out = qEvents q; q = q\<lparr>qEvents := []\<rparr>
           in if 0 < qDropped q then (Some (overflow_notice now # out), q\<lparr>qDropped := 0\<rparr>)
              else (Some out, q))"

definition queue_len :: "event_queue \<Rightarrow> nat" where
  "queue_len q = length (qEvents q)"

section \<open>The interface other components rely on\<close>

text \<open>
  A producer only needs to know that an appended event is the newest one and that older ones
  are lost from the front, if at all.
\<close>

locale event_sink =
  fixes put :: "int \<Rightarrow> event \<Rightarrow> 'q \<Rightarrow> 'q"
    and contents :: "'q \<Rightarrow> event list"
    and mark :: "int \<Rightarrow> event \<Rightarrow> event"
  assumes put_contents:
    "\<exists>k \<le> length (contents q). contents (put now ev q) = drop k (contents q) @ [mark now ev]"
begin

fun put_all :: "(int \<times> event) list \<Rightarrow> 'q \<Rightarrow> 'q" where
  "put_all [] q = q"
| "put_all ((now, ev) # evs) q = put_all evs (put now ev q)"

lemma put_last: "last (contents (put now ev q)) = mark now ev"
  using put_contents [of q now ev] by auto

lemma put_nonempty: "contents (put now ev q) \<noteq> []"
  using put_contents [of q now ev] by auto

lemma put_all_contents:
  "\<exists>k. contents (put_all evs q) = drop k (contents q @ map (\<lambda>(now, ev). mark now ev) evs)"
proof (induction evs arbitrary: q)
  case Nil
  show ?case by (auto intro: exI [of _ 0])
next
  case (Cons e evs)
  obtain now ev where e: "e = (now, ev)" by (cases e)
  obtain k where k: "k \<le> length (contents q)"
      "contents (put now ev q) = drop k (contents q) @ [mark now ev]"
    using put_contents by blast
  obtain j where "contents (put_all evs (put now ev q)) =
      drop j (contents (put now ev q) @ map (\<lambda>(now, ev). mark now ev) evs)"
    using Cons.IH by blast
  with e k have "contents (put_all (e # evs) q) =
      drop (j + k) (contents q @ map (\<lambda>(now, ev). mark now ev) (e # evs))"
    by (simp flip: drop_drop)
  then show ?case by blast
qed

end

lemma push_contents:
  "\<exists>k \<le> length (qEvents q). qEvents (push now ev q) = drop k (qEvents q) @ [stamp now ev]"
proof (cases "maxQueuedEvents \<le> length (qEvents q)")
  case True
  then show ?thesis
    by (intro exI [of _ "length (qEvents q) div 2"]) (simp add: push_def Let_def)
next
  case False
  then show ?thesis
    by (intro exI [of _ 0]) (simp add: push_def Let_def)
qed

interpretation sink: event_sink push qEvents stamp
  by unfold_locales (rule push_contents)


section \<open>Runs of the queue\<close>

text \<open>
  Producers push and the FFI poll call drains; the mutex puts their calls in some order, a
  list of operations. The run keeps the ghost data the theorems speak about: the stamped
  events pushed so far, the events handed to the consumer (without overflow notices), and
  how many the overflow notices so far have admitted to losing.
\<close>

datatype queue_op = QPush int event | QDrain int

record queue_run =
  rQueue :: event_queue
  rPushed :: "event list"
  rDelivered :: "event list"
  rReported :: nat

definition start_run :: queue_run where
  "start_run = \<lparr>rQueue = empty_queue, rPushed = [], rDelivered = [], rReported = 0\<rparr>"

fun queue_step :: "queue_run \<Rightarrow> queue_op \<Rightarrow> queue_run" where
  "queue_step r (QPush now ev) =
     r\<lparr>rQueue := push now ev (rQueue r), rPushed := rPushed r @ [stamp now ev]\<rparr>"
| "queue_step r (QDrain now) =
     (case drain now (rQueue r) of
        (None, q) \<Rightarrow> r\<lparr>rQueue := q\<rparr>
      | (Some evs, q) \<Rightarrow>
          r\<lparr>rQueue := q,
            rDelivered := rDelivered r @ (if 0 < qDropped (rQueue r) then tl evs else evs),
            rReported := rReported r + qDropped (rQueue r)\<rparr>)"

definition queue_runs :: "queue_op list \<Rightarrow> queue_run" where
  "queue_runs ops = fold (\<lambda>x r. queue_step r x) ops start_run"

definition queue_ok :: "queue_run \<Rightarrow> bool" where
  "queue_ok r \<longleftrightarrow>
     length (qEvents (rQueue r)) \<le> maxQueuedEvents \<and>
     (0 < qDropped (rQueue r) \<longrightarrow> qEvents (rQueue r) \<noteq> []) \<and>
     subseq (rDelivered r @ qEvents (rQueue r)) (rPushed r) \<and>
     length (rPushed r) =
       length (rDelivered r) + length (qEvents (rQueue r)) + rReported r + qDropped (rQueue r)"

lemma maxQueuedEvents_pos: "0 < maxQueuedEvents" "1 < maxQueuedEvents"
  by (simp_all add: maxQueuedEvents_def)

lemma push_length:
  "length (qEvents q) \<le> maxQueuedEvents \<Longrightarrow> length (qEvents (push now ev q)) \<le> maxQueuedEvents"
  using maxQueuedEvents_pos by (auto simp: push_def Let_def)

lemma push_dropped_length:
  "length (qEvents (push now ev q)) + qDropped (push now ev q) = Suc (length (qEvents q) + qDropped q)"
  by (auto simp: push_def Let_def)

lemma subseq_drop_middle: "subseq (xs @ ys) zs \<Longrightarrow> subseq (xs @ drop n ys) zs"
  by (meson list_emb_append_mono subseq_drop subseq_order.order_refl subseq_order.order_trans)

lemma queue_step_ok:
  assumes "queue_ok r"
  shows "queue_ok (queue_step r x)"
proof (cases x)
  case (QPush now ev)
  obtain k where k: "qEvents (push now ev (rQueue r)) = drop k (qEvents (rQueue r)) @ [stamp now ev]"
    using push_contents by blast
  have "subseq (rDelivered r @ drop k (qEvents (rQueue r))) (rPushed r)"
    using assms by (simp add: queue_ok_def subseq_drop_middle)
  then have "subseq (rDelivered r @ qEvents (push now ev (rQueue r))) (rPushed r @ [stamp now ev])"
    by (simp add: k subseq_append_right flip: append_assoc)
  moreover have "length (qEvents (push now ev (rQueue r))) + qDropped (push now ev (rQueue r))
      = Suc (length (qEvents (rQueue r)) + qDropped (rQueue r))"
    by (rule push_dropped_length)
  moreover have "length (qEvents (push now ev (rQueue r))) \<le> maxQueuedEvents"
    using assms by (simp add: queue_ok_def push_length)
  moreover have "qEvents (push now ev (rQueue r)) \<noteq> []"
    by (rule sink.put_nonempty)
  ultimately show ?thesis
    using assms QPush by (simp add: queue_ok_def)
next
  case (QDrain now)
  with assms show ?thesis
    by (auto simp: queue_ok_def drain_def Let_def)
qed

lemma queue_ok_start: "queue_ok start_run"
  by (simp add: queue_ok_def start_run_def empty_queue_def)

lemma queue_runs_snoc: "queue_runs (ops @ [x]) = queue_step (queue_runs ops) x"
  by (simp add: queue_runs_def)

lemma queue_runs_ok: "queue_ok (queue_runs ops)"
  by (induction ops rule: rev_induct)
    (simp_all add: queue_runs_snoc queue_step_ok, simp add: queue_runs_def queue_ok_start)

section \<open>Properties\<close>

text \<open>
  C11. However pushes and drains interleave, the queue never holds more than 5000 events, what
  the consumer received followed by what is still queued is a subsequence (same order, no
  duplicates invented) of what was pushed, and every missing event is counted: pushed =
  delivered + queued + lost-and-announced + lost-and-not-yet-announced.
\<close>

theorem queue_bounded_and_accounted:
  "length (qEvents (rQueue (queue_runs ops))) \<le> maxQueuedEvents \<and>
   subseq (rDelivered (queue_runs ops) @ qEvents (rQueue (queue_runs ops)))
     (rPushed (queue_runs ops)) \<and>
   length (rPushed (queue_runs ops)) =
     length (rDelivered (queue_runs ops)) + length (qEvents (rQueue (queue_runs ops)))
     + rReported (queue_runs ops) + qDropped (rQueue (queue_runs ops))"
  using queue_runs_ok [of ops] by (simp add: queue_ok_def)

fun is_push :: "queue_op \<Rightarrow> bool" where
  "is_push (QPush now ev) = True"
| "is_push (QDrain now) = False"

lemma queue_no_loss:
  "length (filter is_push ops) \<le> maxQueuedEvents \<Longrightarrow>
   qDropped (rQueue (queue_runs ops)) = 0 \<and> rReported (queue_runs ops) = 0 \<and>
   length (qEvents (rQueue (queue_runs ops))) \<le> length (filter is_push ops)"
proof (induction ops rule: rev_induct)
  case Nil
  show ?case by (simp add: queue_runs_def start_run_def empty_queue_def)
next
  case (snoc x ops)
  show ?case
  proof (cases x)
    case (QPush now ev)
    with snoc show ?thesis by (auto simp: queue_runs_snoc push_def Let_def)
  next
    case (QDrain now)
    with snoc show ?thesis by (auto simp: queue_runs_snoc drain_def Let_def)
  qed
qed

text \<open>
  As long as at most 5000 events have been pushed, nothing is ever lost: what was
  delivered followed by what is queued is exactly what was pushed, in order.
\<close>

lemma queue_lossless_below_bound:
  assumes "length (filter is_push ops) \<le> maxQueuedEvents"
  shows "rDelivered (queue_runs ops) @ qEvents (rQueue (queue_runs ops)) = rPushed (queue_runs ops)"
  using queue_runs_ok [of ops] queue_no_loss [OF assms]
  by (auto simp: queue_ok_def intro: subseq_same_length)

definition ev_a :: event where
  "ev_a = [''type'' \<mapsto> JStr ''log'']"

theorem queue_lossless_below_bound_witness:
  "rDelivered (queue_runs [QPush 1 ev_a, QDrain 2, QPush 3 ev_a]) = [stamp 1 ev_a] \<and>
   rPushed (queue_runs [QPush 1 ev_a, QDrain 2, QPush 3 ev_a]) = [stamp 1 ev_a, stamp 3 ev_a] \<and>
   qEvents (rQueue (queue_runs [QPush 1 ev_a, QDrain 2, QPush 3 ev_a])) = [stamp 3 ev_a]"
  using queue_lossless_below_bound [of "[QPush 1 ev_a, QDrain 2, QPush 3 ev_a]"]
  by (simp add: queue_runs_def start_run_def empty_queue_def push_def drain_def maxQueuedEvents_def)

text \<open>
  A drain empties the queue and resets the loss counter, whatever state the queue reached:
  it returns nil only when nothing is queued (and then nothing was lost either), and it puts
  the overflow notice in front exactly when events were lost since the last drain.
\<close>

lemma drain_reports_loss:
  "drain now (rQueue (queue_runs ops)) =
     (if qEvents (rQueue (queue_runs ops)) = [] then None
      else Some ((if qDropped (rQueue (queue_runs ops)) = 0 then [] else [overflow_notice now])
                 @ qEvents (rQueue (queue_runs ops))),
      empty_queue)"
proof -
  have "qEvents (rQueue (queue_runs ops)) = [] \<longrightarrow> qDropped (rQueue (queue_runs ops)) = 0"
    using queue_runs_ok [of ops] by (auto simp: queue_ok_def)
  then show ?thesis
    by (cases "rQueue (queue_runs ops)") (auto simp: drain_def Let_def empty_queue_def)
qed

end
