(* ===== verification/Go_Paths.thy ===== *)
theory Go_Paths
  imports Go_Strings
begin

text \<open>
  Go's \<open>path\<close> package on slash-separated paths: \<open>path.Clean\<close>, \<open>path.Join\<close>,
  \<open>path.Base\<close>, \<open>path.Dir\<close> and \<open>path.Ext\<close>. On the POSIX platforms \<open>path/filepath\<close>
  agrees with them.
\<close>

section \<open>Splitting at slashes\<close>

fun split_slash :: "string \<Rightarrow> string list" where
  "split_slash [] = [[]]"
| "split_slash (c # cs) =
     (if c = CHR ''/'' then [] # split_slash cs
      else case split_slash cs of [] \<Rightarrow> [[c]] | w # ws \<Rightarrow> (c # w) # ws)"

fun join_slash :: "string list \<Rightarrow> string" where
  "join_slash [] = []"
| "join_slash [w] = w"
| "join_slash (w # ws) = w @ CHR ''/'' # join_slash ws"

abbreviation dot :: string where "dot \<equiv> ''.''"
abbreviation dotdot :: string where "dotdot \<equiv> ''..''"

text \<open>A path element that Clean keeps as it is.\<close>

definition plain_elem :: "string \<Rightarrow> bool" where
  "plain_elem w \<longleftrightarrow> w \<noteq> [] \<and> w \<noteq> dot \<and> w \<noteq> dotdot \<and> CHR ''/'' \<notin> set w"

section \<open>Clean\<close>

text \<open>
  Clean processes the elements from left to right and keeps the cleaned path, last element
  first: empty elements and \<open>.\<close> are dropped, \<open>..\<close> removes the previous element; at the
  root of a rooted path it disappears, in a relative path it is kept when there is nothing
  left to remove.
\<close>

fun clean_elems :: "bool \<Rightarrow> string list \<Rightarrow> string list \<Rightarrow> string list" where
  "clean_elems rooted acc [] = rev acc"
| "clean_elems rooted acc (w # ws) =
     (if w = [] \<or> w = dot then clean_elems rooted acc ws
      else if w = dotdot then
        (case acc of
           [] \<Rightarrow> clean_elems rooted (if rooted then [] else [dotdot]) ws
         | a # as \<Rightarrow> clean_elems rooted (if a = dotdot then dotdot # acc else as) ws)
      else clean_elems rooted (w # acc) ws)"

definition path_clean :: "string \<Rightarrow> string" where
  "path_clean p =
     (if p = [] then dot
      else let rooted = (hd p = CHR ''/'');
               ws = clean_elems rooted [] (split_slash p)
           in if rooted then CHR ''/'' # join_slash ws
              else if ws = [] then dot else join_slash ws)"

text \<open>\<open>path.Join\<close>: the non-empty elements joined by slashes and cleaned.\<close>

definition path_join :: "string list \<Rightarrow> string" where
  "path_join ws =
     (let ws = filter (\<lambda>w. w \<noteq> []) ws in if ws = [] then [] else path_clean (join_slash ws))"

definition strip_slashes :: "string \<Rightarrow> string" where
  "strip_slashes p = rev (dropWhile (\<lambda>c. c = CHR ''/'') (rev p))"

definition path_base :: "string \<Rightarrow> string" where
  "path_base p =
     (if p = [] then dot
      else let q = strip_slashes p; b = last (split_slash q)
           in if b = [] then ''/'' else b)"

text \<open>\<open>path.Dir\<close>: everything up to the last slash, cleaned.\<close>

definition path_dir :: "string \<Rightarrow> string" where
  "path_dir p = path_clean (rev (dropWhile (\<lambda>c. c \<noteq> CHR ''/'') (rev p)))"

text \<open>\<open>filepath.Ext\<close>: from the last dot of the last element on, empty if it has none.\<close>

definition path_ext :: "string \<Rightarrow> string" where
  "path_ext p =
     (let b = last (split_slash p); t = takeWhile (\<lambda>c. c \<noteq> CHR ''.'') (rev b)
      in if CHR ''.'' \<in> set b then CHR ''.'' # rev t else [])"

section \<open>Facts\<close>

lemma split_slash_nonempty [simp]: "split_slash s \<noteq> []"
  by (cases s) (auto split: list.split)

lemma join_split [simp]: "join_slash (split_slash s) = s"
proof (induction s)
  case (Cons c s)
  obtain w ws where "split_slash s = w # ws" by (meson split_slash_nonempty neq_Nil_conv)
  with Cons show ?case by (cases ws) auto
qed simp

lemma split_slash_no_slash: "w \<in> set (split_slash s) \<Longrightarrow> CHR ''/'' \<notin> set w"
  by (induction s arbitrary: w) (auto split: if_splits list.splits)

lemma split_slash_single: "CHR ''/'' \<notin> set w \<Longrightarrow> split_slash w = [w]"
  by (induction w) auto

lemma split_slash_append:
  "CHR ''/'' \<notin> set w \<Longrightarrow> split_slash (w @ CHR ''/'' # s) = w # split_slash s"
  by (induction w) auto

lemma split_join:
  "ws \<noteq> [] \<Longrightarrow> \<forall>w \<in> set ws. CHR ''/'' \<notin> set w \<Longrightarrow> split_slash (join_slash ws) = ws"
  by (induction ws rule: join_slash.induct) (auto simp: split_slash_single split_slash_append)

lemma join_slash_Nil_iff: "\<forall>w \<in> set ws. w \<noteq> [] \<Longrightarrow> join_slash ws = [] \<longleftrightarrow> ws = []"
  by (cases ws rule: join_slash.cases) auto

lemma hd_join_slash:
  "ws \<noteq> [] \<Longrightarrow> hd ws \<noteq> [] \<Longrightarrow> hd (join_slash ws) = hd (hd ws)"
  by (cases ws rule: join_slash.cases) auto

lemma clean_elems_plain:
  "\<forall>w \<in> set ws. plain_elem w \<Longrightarrow> clean_elems rooted acc ws = rev acc @ ws"
  by (induction ws arbitrary: acc) (auto simp: plain_elem_def)

lemma clean_elems_rooted:
  assumes "\<forall>w \<in> set acc. plain_elem w" "\<forall>w \<in> set ws. CHR ''/'' \<notin> set w"
  shows "\<forall>w \<in> set (clean_elems True acc ws). plain_elem w"
  using assms
proof (induction ws arbitrary: acc)
  case (Cons w ws)
  have rest: "\<forall>w \<in> set ws. CHR ''/'' \<notin> set w" using Cons.prems by simp
  consider "w = [] \<or> w = dot" | "w = dotdot" | "plain_elem w"
    using Cons.prems by (auto simp: plain_elem_def)
  then show ?case
  proof cases
    case 1
    then show ?thesis using Cons.IH [OF Cons.prems(1) rest] by simp
  next
    case 2
    have "\<forall>v \<in> set (tl acc). plain_elem v"
      using Cons.prems(1) by (cases acc) auto
    moreover have "clean_elems True acc (w # ws) = clean_elems True (tl acc) ws"
      using 2 Cons.prems(1) by (cases acc) (auto simp: plain_elem_def)
    ultimately show ?thesis using Cons.IH rest by simp
  next
    case 3
    then have "clean_elems True acc (w # ws) = clean_elems True (w # acc) ws"
      by (simp add: plain_elem_def)
    then show ?thesis using Cons.IH [of "w # acc"] Cons.prems(1) rest 3 by simp
  qed
qed simp

lemma path_clean_rooted:
  assumes "p = CHR ''/'' # q"
  shows "\<exists>ws. path_clean p = CHR ''/'' # join_slash ws \<and> (\<forall>w \<in> set ws. plain_elem w)
    \<and> ws = clean_elems True [] (split_slash q)"
  using clean_elems_rooted [of "[]" "split_slash q"] assms
  by (auto simp: path_clean_def Let_def dest: split_slash_no_slash)

end
