(* ===== verification/Share_Mode.thy ===== *)
theory Share_Mode
  imports Go_Paths
begin

text \<open>
  Share modes (\<open>core/engine/fileshare/server.go\<close>) and the mapping of SFTP paths to paths
  relative to the share root (\<open>rel\<close> of \<open>core/engine/fileshare/handlers.go\<close>).
\<close>

section \<open>Modes\<close>

datatype mode = ReadOnly | ReadWrite | WriteOnly

definition parse_mode :: "string \<Rightarrow> mode res" where
  "parse_mode s =
     (if s \<in> set ['''', ''ro'', ''RO'', ''readonly'', ''read-only''] then Inr ReadOnly
      else if s \<in> set [''rw'', ''RW'', ''readwrite'', ''read-write''] then Inr ReadWrite
      else if s \<in> set [''wo'', ''WO'', ''writeonly'', ''write-only''] then Inr WriteOnly
      else Inl (ErrFmt ''unknown file share mode %q (want ro, rw or wo)'' [FStr s]))"

fun mode_string :: "mode \<Rightarrow> string" where
  "mode_string ReadWrite = ''rw''"
| "mode_string WriteOnly = ''wo''"
| "mode_string ReadOnly = ''ro''"

text \<open>The tailcat library's own mode constants.\<close>

datatype file_serve_mode = FileServeRO | FileServeRW | FileServeWO

fun tailcat_mode :: "mode \<Rightarrow> file_serve_mode" where
  "tailcat_mode ReadWrite = FileServeRW"
| "tailcat_mode WriteOnly = FileServeWO"
| "tailcat_mode ReadOnly = FileServeRO"

text \<open>
  Printing a mode and parsing the text gives the mode back; conversely a text is accepted
  exactly when it is one of the thirteen listed spellings.
\<close>

lemma parse_mode_roundtrip:
  "parse_mode (mode_string m) = Inr m \<and>
   ((\<exists>m'. parse_mode s = Inr m') =
     (s \<in> {'''', ''ro'', ''RO'', ''readonly'', ''read-only'', ''rw'', ''RW'', ''readwrite'',
           ''read-write'', ''wo'', ''WO'', ''writeonly'', ''write-only''}))"
  by (cases m) (auto simp: parse_mode_def)

text \<open>
  Parsing is not case-insensitive, although the comment on ParseMode says so: \<open>Ro\<close> and
  \<open>ReadOnly\<close> are refused while \<open>ro\<close>, \<open>RO\<close> and \<open>readonly\<close> are accepted.
\<close>

lemma parse_mode_case_sensitive:
  "parse_mode ''ro'' = Inr ReadOnly \<and> parse_mode ''RO'' = Inr ReadOnly \<and> isl (parse_mode ''Ro'') \<and>
   parse_mode ''readonly'' = Inr ReadOnly \<and> isl (parse_mode ''ReadOnly'')"
  by (simp add: parse_mode_def)

section \<open>Paths inside the share\<close>

definition rel :: "string \<Rightarrow> string" where
  "rel p =
     (let p = path_clean (CHR ''/'' # trim_space p);
          p = trim_prefix p ''/''
      in if p = [] then dot else p)"

text \<open>A path that stays inside the root: \<open>.\<close> or plain elements joined by slashes.\<close>

definition inside :: "string \<Rightarrow> bool" where
  "inside p \<longleftrightarrow> p = dot \<or> (\<forall>w \<in> set (split_slash p). plain_elem w)"

lemma plain_elem_noslash: "plain_elem w \<Longrightarrow> CHR ''/'' \<notin> set w"
  by (simp add: plain_elem_def)

lemma plain_split:
  assumes "\<forall>w \<in> set (split_slash q). plain_elem w"
  shows "q \<noteq> [] \<and> q \<noteq> dot"
proof -
  have "\<not> (\<forall>w \<in> set (split_slash []). plain_elem w)"
    and "\<not> (\<forall>w \<in> set (split_slash dot). plain_elem w)"
    by (simp_all add: plain_elem_def)
  with assms show ?thesis by metis
qed

lemma rel_elems:
  "rel p = (let ws = clean_elems True [] (split_slash (trim_space p))
            in if ws = [] then dot else join_slash ws)"
proof -
  obtain ws where ws: "path_clean (CHR ''/'' # trim_space p) = CHR ''/'' # join_slash ws"
      "\<forall>w \<in> set ws. plain_elem w" "ws = clean_elems True [] (split_slash (trim_space p))"
    using path_clean_rooted by blast
  have "join_slash ws = [] \<longleftrightarrow> ws = []"
    by (rule join_slash_Nil_iff) (use ws(2) in \<open>auto simp: plain_elem_def\<close>)
  with ws show ?thesis by (simp add: rel_def Let_def trim_prefix_def)
qed

lemma clean_rooted_plain: "\<forall>w \<in> set (clean_elems True [] (split_slash q)). plain_elem w"
  using clean_elems_rooted [of "[]" "split_slash q"] by (auto dest: split_slash_no_slash)

lemma rel_inside: "inside (rel p)"
proof (cases "clean_elems True [] (split_slash (trim_space p)) = []")
  case True
  then show ?thesis by (simp add: rel_elems inside_def)
next
  case False
  let ?ws = "clean_elems True [] (split_slash (trim_space p))"
  have "split_slash (join_slash ?ws) = ?ws"
    by (rule split_join [OF False]) (use clean_rooted_plain in \<open>blast dest: plain_elem_noslash\<close>)
  with False show ?thesis
    using clean_rooted_plain by (simp add: rel_elems inside_def)
qed

lemma rel_join_plain:
  assumes "\<forall>w \<in> set ws. plain_elem w" "ws \<noteq> []"
    "p = join_slash ws \<or> p = CHR ''/'' # join_slash ws" "trim_space p = p"
  shows "rel p = join_slash ws"
proof -
  have "split_slash (join_slash ws) = ws"
    by (rule split_join) (use assms in \<open>auto dest: plain_elem_noslash\<close>)
  then show ?thesis
    using assms clean_elems_plain [of ws True "[]"] by (auto simp: rel_elems)
qed

text \<open>
  Whatever bytes a client sends, the path handed to the backend stays inside the share: it
  is \<open>.\<close> or a relative path whose elements are neither empty nor \<open>.\<close> nor \<open>..\<close>.
\<close>

lemma rel_never_escapes:
  "rel p = dot \<or>
   (\<exists>ws. rel p = join_slash ws \<and> ws \<noteq> [] \<and> list_all plain_elem ws)"
proof -
  have "rel p = join_slash (split_slash (rel p))" by simp
  then show ?thesis using rel_inside [of p] unfolding inside_def list_all_iff
    by (metis split_slash_nonempty)
qed

text \<open>
  A path made of plain elements, absolute or relative, is passed on unchanged when it
  neither starts nor ends with white space.
\<close>

lemma rel_keeps_clean_paths:
  assumes "\<forall>w \<in> set ws. plain_elem w" "ws \<noteq> []"
    and "p = join_slash ws \<or> p = CHR ''/'' # join_slash ws" "trim_space p = p"
  shows "rel p = join_slash ws"
  using assms by (rule rel_join_plain)

lemma trim_space_id:
  assumes "find (\<lambda>p. p \<noteq> [] \<and> has_prefix s p) space_runes = None"
    "find (\<lambda>p. p \<noteq> [] \<and> has_prefix (rev s) p) (map rev space_runes) = None"
  shows "trim_space s = s"
  using assms
  by (simp add: trim_space_def trim_left_space_def trim_right_space_def strip.simps [of space_runes s]
      strip.simps [of "map rev space_runes" "rev s"])

lemma trim_space_ab: "trim_space ''/a/b'' = ''/a/b''"
  by (rule trim_space_id) (simp_all add: space_runes_def)

theorem rel_keeps_clean_paths_witness:
  "list_all plain_elem [''a'', ''b''] \<and> trim_space ''/a/b'' = ''/a/b'' \<and> rel ''/a/b'' = ''a/b''"
  using rel_keeps_clean_paths [of "[''a'', ''b'']" "''/a/b''"]
  by (simp add: plain_elem_def trim_space_ab)

text \<open>
  Because \<open>rel\<close> trims white space, two different files can be confused: a request for
  \<open>/a \<close> (a legal file name ending in a space) is served as a request for \<open>/a\<close>.
\<close>

lemma rel_confuses_trailing_space:
  "rel ''/a '' = rel ''/a'' \<and> rel ''/a'' = ''a'' \<and> plain_elem ''a ''"
proof -
  have a: "trim_space ''/a'' = ''/a''" by (rule trim_space_id) (simp_all add: space_runes_def)
  have "trim_space ''/a '' = ''/a''"
    by (simp add: trim_space_def trim_left_space_def trim_right_space_def strip.simps space_runes_def)
  with a show ?thesis by (simp add: rel_elems plain_elem_def)
qed

end
