(* ===== verification/Share_Backend.thy ===== *)
theory Share_Backend
  imports Share_Mode
begin

text \<open>
  The file-system interface of a share (\<open>core/engine/fileshare/backend.go\<close>): the operating
  system as a parameter, the Go interface \<open>backend\<close> as a record of operations, and the
  directory share \<open>dirBackend\<close>. Every call that reaches the operating system with the power
  to change something is recorded in a trace, so that the theorems can say what a share did.
\<close>

unbundle bit_operations_syntax

section \<open>The operating system\<close>

text \<open>\<open>os.FileMode\<close> bits that the code looks at.\<close>

type_synonym filemode = "32 word"

definition ModeDir :: filemode where "ModeDir = push_bit 31 1"
definition ModeSymlink :: filemode where "ModeSymlink = push_bit 27 1"

text \<open>\<open>os.FileInfo\<close>; the modification time in Unix milliseconds.\<close>

record finfo =
  fiName :: string
  fiSize :: int
  fiMode :: filemode
  fiModMS :: int
  fiIsDir :: bool

text \<open>Open flags, with the Linux and Android values.\<close>

type_synonym oflags = "32 word"

definition O_RDONLY :: oflags where "O_RDONLY = 0"
definition O_WRONLY :: oflags where "O_WRONLY = 1"
definition O_RDWR :: oflags where "O_RDWR = 2"
definition O_CREATE :: oflags where "O_CREATE = 0x40"
definition O_EXCL :: oflags where "O_EXCL = 0x80"
definition O_TRUNC :: oflags where "O_TRUNC = 0x200"
definition O_APPEND :: oflags where "O_APPEND = 0x400"

lemmas oflag_defs = O_RDONLY_def O_WRONLY_def O_RDWR_def O_CREATE_def O_EXCL_def O_TRUNC_def O_APPEND_def

text \<open>
  The calls of package \<open>os\<close> that the shares make: plain path calls, calls on an \<open>os.Root\<close>
  (\<open>'r\<close>) and calls on an open file (\<open>'h\<close>), over an unspecified system state \<open>'o\<close>.
  \<open>root_read_dir\<close> is \<open>fs.ReadDir\<close> followed by \<open>Info\<close> on each entry, which can fail entry
  by entry. Queries do not change the system state.
\<close>

record ('o, 'h, 'r) os =
  os_stat :: "string \<Rightarrow> 'o \<Rightarrow> finfo res"
  os_open :: "string \<Rightarrow> 'o \<Rightarrow> 'h res \<times> 'o"
  os_open_root :: "string \<Rightarrow> 'o \<Rightarrow> 'r res \<times> 'o"
  root_open :: "'r \<Rightarrow> string \<Rightarrow> 'o \<Rightarrow> 'h res \<times> 'o"
  root_open_file :: "'r \<Rightarrow> string \<Rightarrow> oflags \<Rightarrow> filemode \<Rightarrow> 'o \<Rightarrow> 'h res \<times> 'o"
  root_stat :: "'r \<Rightarrow> string \<Rightarrow> 'o \<Rightarrow> finfo res"
  root_lstat :: "'r \<Rightarrow> string \<Rightarrow> 'o \<Rightarrow> finfo res"
  root_read_dir :: "'r \<Rightarrow> string \<Rightarrow> 'o \<Rightarrow> finfo res list res"
  root_readlink :: "'r \<Rightarrow> string \<Rightarrow> 'o \<Rightarrow> string res"
  root_mkdir :: "'r \<Rightarrow> string \<Rightarrow> filemode \<Rightarrow> 'o \<Rightarrow> gerror option \<times> 'o"
  root_remove :: "'r \<Rightarrow> string \<Rightarrow> 'o \<Rightarrow> gerror option \<times> 'o"
  root_rename :: "'r \<Rightarrow> string \<Rightarrow> string \<Rightarrow> 'o \<Rightarrow> gerror option \<times> 'o"
  root_symlink :: "'r \<Rightarrow> string \<Rightarrow> string \<Rightarrow> 'o \<Rightarrow> gerror option \<times> 'o"
  root_link :: "'r \<Rightarrow> string \<Rightarrow> string \<Rightarrow> 'o \<Rightarrow> gerror option \<times> 'o"
  root_chmod :: "'r \<Rightarrow> string \<Rightarrow> filemode \<Rightarrow> 'o \<Rightarrow> gerror option \<times> 'o"
  root_chtimes :: "'r \<Rightarrow> string \<Rightarrow> int \<Rightarrow> int \<Rightarrow> 'o \<Rightarrow> gerror option \<times> 'o"
  root_close :: "'r \<Rightarrow> 'o \<Rightarrow> gerror option \<times> 'o"
  file_stat :: "'h \<Rightarrow> 'o \<Rightarrow> finfo res"
  file_truncate :: "'h \<Rightarrow> int \<Rightarrow> 'o \<Rightarrow> gerror option \<times> 'o"
  file_close :: "'h \<Rightarrow> 'o \<Rightarrow> gerror option \<times> 'o"
  file_read_at :: "'h \<Rightarrow> nat \<Rightarrow> int \<Rightarrow> 'o \<Rightarrow> nat \<times> gerror option \<times> 'o"
  file_write_at :: "'h \<Rightarrow> 8 word list \<Rightarrow> int \<Rightarrow> 'o \<Rightarrow> nat \<times> gerror option \<times> 'o"

section \<open>The trace of system calls\<close>

datatype ('h, 'r) oscall =
    OpenPath string
  | OpenRootAt string
  | CloseRoot 'r
  | OpenIn 'r string
  | OpenFileIn 'r string oflags filemode
  | MkdirIn 'r string filemode
  | RemoveIn 'r string
  | RenameIn 'r string string
  | SymlinkIn 'r string string
  | LinkIn 'r string string
  | ChmodIn 'r string filemode
  | ChtimesIn 'r string int int
  | TruncateFile 'h int
  | CloseFile 'h
  | WriteFile 'h int

type_synonym ('o, 'h, 'r) world = "'o \<times> ('h, 'r) oscall list"

definition write_flags :: oflags where
  "write_flags = O_WRONLY OR O_RDWR OR O_CREATE OR O_TRUNC OR O_APPEND"

text \<open>The calls that can change a file, a directory or their metadata.\<close>

fun writes :: "('h, 'r) oscall \<Rightarrow> bool" where
  "writes (OpenPath p) = False"
| "writes (OpenRootAt p) = False"
| "writes (CloseRoot r) = False"
| "writes (OpenIn r p) = False"
| "writes (OpenFileIn r p fl perm) = (fl AND write_flags \<noteq> 0)"
| "writes (CloseFile h) = False"
| "writes _ = True"

text \<open>The calls that give access to what is stored in a file.\<close>

fun reads :: "('h, 'r) oscall \<Rightarrow> bool" where
  "reads (OpenPath p) = True"
| "reads (OpenIn r p) = True"
| "reads (OpenFileIn r p fl perm) = (fl AND O_WRONLY = 0)"
| "reads _ = False"

text \<open>Perform a call and record it.\<close>

definition traced :: "('h, 'r) oscall \<Rightarrow> ('o \<Rightarrow> 'a \<times> 'o) \<Rightarrow> ('o, 'h, 'r) world \<Rightarrow> 'a \<times> ('o, 'h, 'r) world" where
  "traced c f w = (let (x, os') = f (fst w) in (x, (os', snd w @ [c])))"

lemma snd_traced [simp]: "snd (snd (traced c f w)) = snd w @ [c]"
  by (simp add: traced_def split: prod.split)

section \<open>The interface\<close>

record ('w, 'h) backend =
  bOpen :: "string \<Rightarrow> 'w \<Rightarrow> 'h res \<times> 'w"
  bOpenFile :: "string \<Rightarrow> oflags \<Rightarrow> filemode \<Rightarrow> 'w \<Rightarrow> 'h res \<times> 'w"
  bStat :: "string \<Rightarrow> 'w \<Rightarrow> finfo res"
  bLstat :: "string \<Rightarrow> 'w \<Rightarrow> finfo res"
  bReadDir :: "string \<Rightarrow> 'w \<Rightarrow> finfo list res"
  bReadlink :: "string \<Rightarrow> 'w \<Rightarrow> string res"
  bMkdir :: "string \<Rightarrow> filemode \<Rightarrow> 'w \<Rightarrow> gerror option \<times> 'w"
  bRemove :: "string \<Rightarrow> 'w \<Rightarrow> gerror option \<times> 'w"
  bRename :: "string \<Rightarrow> string \<Rightarrow> 'w \<Rightarrow> gerror option \<times> 'w"
  bSymlink :: "string \<Rightarrow> string \<Rightarrow> 'w \<Rightarrow> gerror option \<times> 'w"
  bLink :: "string \<Rightarrow> string \<Rightarrow> 'w \<Rightarrow> gerror option \<times> 'w"
  bChmod :: "string \<Rightarrow> filemode \<Rightarrow> 'w \<Rightarrow> gerror option \<times> 'w"
  bChtimes :: "string \<Rightarrow> int \<Rightarrow> int \<Rightarrow> 'w \<Rightarrow> gerror option \<times> 'w"
  bClose :: "'w \<Rightarrow> gerror option \<times> 'w"

section \<open>One directory\<close>

text \<open>The entries whose \<open>Info\<close> succeeded.\<close>

definition good_infos :: "finfo res list \<Rightarrow> finfo list" where
  "good_infos es = concat (map (case_sum (\<lambda>_. []) (\<lambda>fi. [fi])) es)"

definition read_dir :: "('o, 'h, 'r) os \<Rightarrow> 'r \<Rightarrow> string \<Rightarrow> 'o \<Rightarrow> finfo list res" where
  "read_dir os rt p s =
     (case root_read_dir os rt p s of Inl e \<Rightarrow> Inl e | Inr es \<Rightarrow> Inr (good_infos es))"

definition dir_backend :: "('o, 'h, 'r) os \<Rightarrow> 'r \<Rightarrow> (('o, 'h, 'r) world, 'h) backend" where
  "dir_backend os rt =
     \<lparr>bOpen = (\<lambda>p. traced (OpenIn rt p) (root_open os rt p)),
      bOpenFile = (\<lambda>p fl perm. traced (OpenFileIn rt p fl perm) (root_open_file os rt p fl perm)),
      bStat = (\<lambda>p w. root_stat os rt p (fst w)),
      bLstat = (\<lambda>p w. root_lstat os rt p (fst w)),
      bReadDir = (\<lambda>p w. read_dir os rt p (fst w)),
      bReadlink = (\<lambda>p w. root_readlink os rt p (fst w)),
      bMkdir = (\<lambda>p perm. traced (MkdirIn rt p perm) (root_mkdir os rt p perm)),
      bRemove = (\<lambda>p. traced (RemoveIn rt p) (root_remove os rt p)),
      bRename = (\<lambda>a b. traced (RenameIn rt a b) (root_rename os rt a b)),
      bSymlink = (\<lambda>t p. traced (SymlinkIn rt t p) (root_symlink os rt t p)),
      bLink = (\<lambda>a p. traced (LinkIn rt a p) (root_link os rt a p)),
      bChmod = (\<lambda>p m. traced (ChmodIn rt p m) (root_chmod os rt p m)),
      bChtimes = (\<lambda>p a m. traced (ChtimesIn rt p a m) (root_chtimes os rt p a m)),
      bClose = traced (CloseRoot rt) (root_close os rt)\<rparr>"


section \<open>The contracts of a backend\<close>

text \<open>
  \<open>adds P w w'\<close>: from \<open>w\<close> to \<open>w'\<close> only calls satisfying \<open>P\<close> were made; \<open>quiet\<close>: only calls
  that change nothing.
\<close>

definition adds :: "(('h, 'r) oscall \<Rightarrow> bool) \<Rightarrow> ('o, 'h, 'r) world \<Rightarrow> ('o, 'h, 'r) world \<Rightarrow> bool" where
  "adds P w w' \<longleftrightarrow> (\<exists>cs. snd w' = snd w @ cs \<and> (\<forall>c \<in> set cs. P c))"

abbreviation quiet :: "('o, 'h, 'r) world \<Rightarrow> ('o, 'h, 'r) world \<Rightarrow> bool" where
  "quiet \<equiv> adds (\<lambda>c. \<not> writes c)"

lemma adds_refl [simp, intro]: "adds P w w"
  by (simp add: adds_def)

lemma adds_trans [trans]: "adds P u v \<Longrightarrow> adds P v w \<Longrightarrow> adds P u w"
  by (auto simp: adds_def)

lemma adds_traced [simp]: "P c \<Longrightarrow> adds P w (snd (traced c f w))"
  by (simp add: adds_def)

lemma adds_traced_eq: "P c \<Longrightarrow> traced c f w = (x, w') \<Longrightarrow> adds P w w'"
  by (metis adds_traced snd_conv)

lemma addsD: "adds P w w' \<Longrightarrow> \<exists>cs. snd w' = snd w @ cs \<and> (\<forall>c \<in> set cs. P c)"
  by (simp add: adds_def)

text \<open>
  Every backend: opening for reading, and opening without any write flag, change nothing. A
  read-only backend: no operation at all changes anything.
\<close>

locale share_backend =
  fixes B :: "(('o, 'h, 'r) world, 'h) backend"
  assumes open_quiet: "bOpen B p w = (x, w') \<Longrightarrow> quiet w w'"
    and open_file_quiet: "fl AND write_flags = 0 \<Longrightarrow> bOpenFile B p fl perm w = (x, w') \<Longrightarrow> quiet w w'"

locale readonly_backend = share_backend B
  for B :: "(('o, 'h, 'r) world, 'h) backend" +
  assumes ro_open_file: "bOpenFile B p fl perm w = (x, w') \<Longrightarrow> quiet w w'"
    and ro_no_write_handle: "fl AND write_flags \<noteq> 0 \<Longrightarrow> bOpenFile B p fl perm w = (x, w') \<Longrightarrow> isl x"
    and ro_mkdir: "bMkdir B p perm w = (e, w') \<Longrightarrow> quiet w w'"
    and ro_remove: "bRemove B p w = (e, w') \<Longrightarrow> quiet w w'"
    and ro_rename: "bRename B p q w = (e, w') \<Longrightarrow> quiet w w'"
    and ro_symlink: "bSymlink B t p w = (e, w') \<Longrightarrow> quiet w w'"
    and ro_link: "bLink B p q w = (e, w') \<Longrightarrow> quiet w w'"
    and ro_chmod: "bChmod B p m w = (e, w') \<Longrightarrow> quiet w w'"
    and ro_chtimes: "bChtimes B p ta tm w = (e, w') \<Longrightarrow> quiet w w'"

interpretation dir: share_backend "dir_backend os rt"
  by unfold_locales (auto simp: dir_backend_def elim!: adds_traced_eq [rotated])

end
