(* ===== verification/Memory_OS.thy ===== *)
theory Memory_OS
  imports Share_Backend
begin

text \<open>
  A small in-memory file system that instantiates the operating-system parameter, so that the
  theorems about shares can be applied to concrete runs. The state lists absolute paths, each a
  directory (\<open>None\<close>) or a file with its bytes. A root handle and a file handle are paths.
\<close>

type_synonym mem = "(string \<times> 8 word list option) list"

definition mem_info :: "string \<Rightarrow> 8 word list option \<Rightarrow> finfo" where
  "mem_info p v =
     \<lparr>fiName = path_base p, fiSize = (case v of None \<Rightarrow> 0 | Some c \<Rightarrow> int (length c)),
      fiMode = (case v of None \<Rightarrow> ModeDir OR 0x1ED | Some c \<Rightarrow> 0x1A4), fiModMS = 0,
      fiIsDir = (v = None)\<rparr>"

definition mem_stat :: "string \<Rightarrow> mem \<Rightarrow> finfo res" where
  "mem_stat p s = (case map_of s p of None \<Rightarrow> Inl ErrNotExist | Some v \<Rightarrow> Inr (mem_info p v))"

definition mem_open :: "string \<Rightarrow> mem \<Rightarrow> string res \<times> mem" where
  "mem_open p s = (case map_of s p of None \<Rightarrow> Inl ErrNotExist | Some v \<Rightarrow> Inr p, s)"

definition mem_open_root :: "string \<Rightarrow> mem \<Rightarrow> string res \<times> mem" where
  "mem_open_root p s =
     (case map_of s p of Some None \<Rightarrow> Inr p | _ \<Rightarrow> Inl (ErrText ''not a directory''), s)"

definition mem_at :: "string \<Rightarrow> string \<Rightarrow> string" where
  "mem_at r sub = (if sub = dot then r else r @ CHR ''/'' # sub)"

definition mem_set :: "string \<Rightarrow> 8 word list option \<Rightarrow> mem \<Rightarrow> mem" where
  "mem_set p v s = (p, v) # filter (\<lambda>e. fst e \<noteq> p) s"

definition mem_open_file :: "string \<Rightarrow> oflags \<Rightarrow> mem \<Rightarrow> string res \<times> mem" where
  "mem_open_file p fl s =
     (case map_of s p of
        None \<Rightarrow> if fl AND O_CREATE \<noteq> 0 then (Inr p, mem_set p (Some []) s) else (Inl ErrNotExist, s)
      | Some None \<Rightarrow> (Inl (ErrText ''is a directory''), s)
      | Some (Some c) \<Rightarrow>
          if fl AND O_CREATE \<noteq> 0 \<and> fl AND O_EXCL \<noteq> 0 then (Inl (ErrText ''file exists''), s)
          else (Inr p, if fl AND O_TRUNC \<noteq> 0 then mem_set p (Some []) s else s))"

definition mem_mkdir :: "string \<Rightarrow> mem \<Rightarrow> gerror option \<times> mem" where
  "mem_mkdir p s =
     (case map_of s p of None \<Rightarrow> (None, mem_set p None s) | Some v \<Rightarrow> (Some (ErrText ''file exists''), s))"

definition mem_remove :: "string \<Rightarrow> mem \<Rightarrow> gerror option \<times> mem" where
  "mem_remove p s =
     (case map_of s p of None \<Rightarrow> (Some ErrNotExist, s) | Some v \<Rightarrow> (None, filter (\<lambda>e. fst e \<noteq> p) s))"

definition mem_rename :: "string \<Rightarrow> string \<Rightarrow> mem \<Rightarrow> gerror option \<times> mem" where
  "mem_rename p q s =
     (case map_of s p of None \<Rightarrow> (Some ErrNotExist, s)
      | Some v \<Rightarrow> (None, mem_set q v (filter (\<lambda>e. fst e \<noteq> p) s)))"

definition mem_children :: "string \<Rightarrow> mem \<Rightarrow> finfo res list" where
  "mem_children p s =
     map (\<lambda>(n, v). Inr (mem_info n v))
       (filter (\<lambda>(n, v). \<exists>w \<in> set [drop (length p + 1) n]. n = p @ CHR ''/'' # w \<and> CHR ''/'' \<notin> set w) s)"

definition mem_read_dir :: "string \<Rightarrow> mem \<Rightarrow> finfo res list res" where
  "mem_read_dir p s =
     (case map_of s p of None \<Rightarrow> Inl ErrNotExist
      | Some None \<Rightarrow> Inr (mem_children p s)
      | Some (Some c) \<Rightarrow> Inl (ErrText ''not a directory''))"

definition mem_truncate :: "string \<Rightarrow> int \<Rightarrow> mem \<Rightarrow> gerror option \<times> mem" where
  "mem_truncate p n s =
     (case map_of s p of
        Some (Some c) \<Rightarrow>
          if n < 0 then (Some (ErrText ''invalid argument''), s)
          else (None, mem_set p (Some (take (nat n) (c @ replicate (nat n) 0))) s)
      | _ \<Rightarrow> (Some ErrNotExist, s))"

definition mem_read_at :: "string \<Rightarrow> nat \<Rightarrow> int \<Rightarrow> mem \<Rightarrow> nat \<times> gerror option \<times> mem" where
  "mem_read_at p n off s =
     (case map_of s p of
        Some (Some c) \<Rightarrow>
          (let k = min n (length c - nat off)
           in (k, if k < n then Some ErrEOF else None, s))
      | _ \<Rightarrow> (0, Some ErrNotExist, s))"

definition mem_write_at :: "string \<Rightarrow> 8 word list \<Rightarrow> int \<Rightarrow> mem \<Rightarrow> nat \<times> gerror option \<times> mem" where
  "mem_write_at p bs off s =
     (case map_of s p of
        Some (Some c) \<Rightarrow>
          (let o' = nat off;
               c' = take o' (c @ replicate o' 0) @ bs @ drop (o' + length bs) c
           in (length bs, None, mem_set p (Some c') s))
      | _ \<Rightarrow> (0, Some ErrNotExist, s))"

definition mem_os :: "(mem, string, string) os" where
  "mem_os =
     \<lparr>os_stat = mem_stat, os_open = mem_open, os_open_root = mem_open_root,
      root_open = (\<lambda>r p. mem_open (mem_at r p)),
      root_open_file = (\<lambda>r p fl perm. mem_open_file (mem_at r p) fl),
      root_stat = (\<lambda>r p. mem_stat (mem_at r p)), root_lstat = (\<lambda>r p. mem_stat (mem_at r p)),
      root_read_dir = (\<lambda>r p. mem_read_dir (mem_at r p)),
      root_readlink = (\<lambda>r p s. Inl (ErrText ''invalid argument'')),
      root_mkdir = (\<lambda>r p perm. mem_mkdir (mem_at r p)),
      root_remove = (\<lambda>r p. mem_remove (mem_at r p)),
      root_rename = (\<lambda>r p q. mem_rename (mem_at r p) (mem_at r q)),
      root_symlink = (\<lambda>r t p s. (Some (ErrText ''not supported''), s)),
      root_link = (\<lambda>r p q s. (Some (ErrText ''not supported''), s)),
      root_chmod = (\<lambda>r p m s. (None, s)), root_chtimes = (\<lambda>r p a m s. (None, s)),
      root_close = (\<lambda>r s. (None, s)),
      file_stat = mem_stat, file_truncate = mem_truncate, file_close = (\<lambda>h s. (None, s)),
      file_read_at = mem_read_at, file_write_at = mem_write_at\<rparr>"

lemmas mem_defs =
  mem_os_def mem_info_def mem_stat_def mem_open_def mem_open_root_def mem_at_def mem_set_def
  mem_open_file_def mem_mkdir_def mem_remove_def mem_rename_def mem_children_def mem_read_dir_def
  mem_truncate_def mem_read_at_def mem_write_at_def

end
