(* ===== verification/Go_Numbers.thy ===== *)
theory Go_Numbers
  imports Prelude
begin

text \<open>
  Decimal conversion as in \<open>strconv.Itoa\<close>, \<open>strconv.Atoi\<close> and the \<open>%d\<close> verb, for Go's
  64-bit \<open>int\<close>.
\<close>

section \<open>Printing\<close>

definition digit_char :: "nat \<Rightarrow> char" where
  "digit_char d = char_of (48 + d)"

definition is_digit :: "char \<Rightarrow> bool" where
  "is_digit c \<longleftrightarrow> 48 \<le> (of_char c :: nat) \<and> (of_char c :: nat) \<le> 57"

definition digit_val :: "char \<Rightarrow> nat" where
  "digit_val c = of_char c - 48"

fun nat_str :: "nat \<Rightarrow> string" where
  "nat_str n = (if n < 10 then [digit_char n] else nat_str (n div 10) @ [digit_char (n mod 10)])"

declare nat_str.simps [simp del]

definition itoa :: "int \<Rightarrow> string" where
  "itoa i = (if i < 0 then CHR ''-'' # nat_str (nat (- i)) else nat_str (nat i))"

section \<open>Parsing\<close>

definition digits_val :: "string \<Rightarrow> nat" where
  "digits_val = foldl (\<lambda>n c. 10 * n + digit_val c) 0"

definition max_int :: int where
  "max_int = 2 ^ 63 - 1"

definition min_int :: int where
  "min_int = - (2 ^ 63)"

text \<open>An optional sign, at least one digit, nothing else, and a value that fits an int64.\<close>

definition atoi :: "string \<Rightarrow> int option" where
  "atoi s =
     (let (neg, ds) = (case s of
            c # r \<Rightarrow> if c = CHR ''-'' then (True, r) else if c = CHR ''+'' then (False, r) else (False, s)
          | [] \<Rightarrow> (False, s));
          v = (if neg then - int (digits_val ds) else int (digits_val ds))
      in if ds = [] \<or> \<not> list_all is_digit ds then None
         else if v < min_int \<or> max_int < v then None
         else Some v)"

section \<open>Facts\<close>

lemma digit_char_numeral [simp]:
  "digit_char 0 = CHR ''0''"
  "digit_char (Suc 0) = CHR ''1''"
  "digit_char 2 = CHR ''2''"
  "digit_char 3 = CHR ''3''"
  "digit_char 4 = CHR ''4''"
  "digit_char 5 = CHR ''5''"
  "digit_char 6 = CHR ''6''"
  "digit_char 7 = CHR ''7''"
  "digit_char 8 = CHR ''8''"
  "digit_char 9 = CHR ''9''"
  "digit_char 1 = CHR ''1''"
  by code_simp+

lemma is_digit_char [simp]: "d < 10 \<Longrightarrow> is_digit (digit_char d)"
  by (simp add: is_digit_def digit_char_def)

lemma digit_val_char [simp]: "d < 10 \<Longrightarrow> digit_val (digit_char d) = d"
  by (simp add: digit_val_def digit_char_def)

lemma is_digit_not [simp]:
  "\<not> is_digit CHR ''-''" "\<not> is_digit CHR ''+''" "\<not> is_digit CHR '':''" "\<not> is_digit CHR ''[''"
  "\<not> is_digit CHR '']''" "\<not> is_digit CHR ''/''" "\<not> is_digit CHR '')''" "\<not> is_digit CHR ''.''"
  by (simp_all add: is_digit_def)

lemma nat_str_digits: "list_all is_digit (nat_str n)"
proof (induction n rule: nat_str.induct)
  case (1 n)
  then show ?case by (simp add: nat_str.simps [of n])
qed

lemma nat_str_nonempty [simp]: "nat_str n \<noteq> []"
  by (simp add: nat_str.simps [of n])

lemma digits_val_nat_str [simp]: "digits_val (nat_str n) = n"
proof (induction n rule: nat_str.induct)
  case (1 n)
  then show ?case
    by (simp add: nat_str.simps [of n] digits_val_def)
qed

lemma nat_str_inj [simp]: "nat_str m = nat_str n \<longleftrightarrow> m = n"
  by (metis digits_val_nat_str)

lemma nat_str_set: "c \<in> set (nat_str n) \<Longrightarrow> is_digit c"
  using nat_str_digits [of n] by (simp add: list_all_iff)

lemma nat_str_hd: "is_digit (hd (nat_str n))"
  by (rule nat_str_set [of _ n]) simp

lemma itoa_inj [simp]: "itoa i = itoa j \<longleftrightarrow> i = j"
proof -
  have "nat_str n \<noteq> CHR ''-'' # xs" for n xs
    using nat_str_hd [of n] by (metis is_digit_not(1) list.sel(1))
  then show ?thesis
    unfolding itoa_def by (metis list.inject nat_str_inj nat_eq_iff2 neg_equal_iff_equal
        neg_le_0_iff_le int_nat_eq linorder_not_le order_less_imp_le)
qed

lemma itoa_set: "c \<in> set (itoa i) \<Longrightarrow> is_digit c \<or> c = CHR ''-''"
  by (auto simp: itoa_def dest: nat_str_set split: if_splits)

lemma itoa_nonneg_set: "0 \<le> i \<Longrightarrow> c \<in> set (itoa i) \<Longrightarrow> is_digit c"
  by (auto simp: itoa_def dest: nat_str_set split: if_splits)

lemma itoa_nonempty [simp]: "itoa i \<noteq> []"
  by (simp add: itoa_def)

lemma atoi_itoa:
  assumes "min_int \<le> i" "i \<le> max_int"
  shows "atoi (itoa i) = Some i"
proof (cases "i < 0")
  case True
  then show ?thesis
    using assms by (simp add: itoa_def atoi_def nat_str_digits)
next
  case False
  obtain c r where cr: "nat_str (nat i) = c # r"
    by (meson nat_str_nonempty neq_Nil_conv)
  have "is_digit c" using nat_str_hd [of "nat i"] cr by simp
  then have "c \<noteq> CHR ''-''" "c \<noteq> CHR ''+''" by auto
  with cr have "atoi (nat_str (nat i)) =
      (if int (digits_val (nat_str (nat i))) < min_int \<or> max_int < int (digits_val (nat_str (nat i)))
       then None else Some (int (digits_val (nat_str (nat i)))))"
    using nat_str_digits [of "nat i"] by (simp add: atoi_def)
  with False assms show ?thesis
    by (simp add: itoa_def)
qed

lemma atoi_range: "atoi s = Some v \<Longrightarrow> min_int \<le> v \<and> v \<le> max_int"
  by (auto simp: atoi_def Let_def split: if_splits list.splits prod.splits)

lemma atoi_chars:
  "atoi s = Some v \<Longrightarrow> c \<in> set s \<Longrightarrow> is_digit c \<or> c = CHR ''-'' \<or> c = CHR ''+''"
  by (auto simp: atoi_def Let_def list_all_iff split: if_splits list.splits prod.splits)

end
