(* ===== verification/Share_Paths.thy ===== *)
theory Share_Paths
  imports Memory_OS Go_Numbers "HOL-Library.List_Lexorder" "HOL-Library.Char_ord"
begin

text \<open>
  The read-only share of a picked set of files and folders (\<open>pathsBackend\<close> of
  \<open>core/engine/fileshare/backend.go\<close>): construction with name de-duplication, path
  resolution, and the \<open>backend\<close> operations. Go maps are association lists with distinct keys.
\<close>

section \<open>State\<close>

record share_item =
  siName :: string
  siSize :: int
  siIsDir :: bool
  siPath :: string

record 'r paths_backend =
  pbEntries :: "share_item list"
  pbByName :: "(string \<times> share_item) list"
  pbRoots :: "(string \<times> 'r) list"

definition empty_paths :: "'r paths_backend" where
  "empty_paths = \<lparr>pbEntries = [], pbByName = [], pbRoots = []\<rparr>"

section \<open>Unique names\<close>

definition numbered :: "string \<Rightarrow> string \<Rightarrow> nat \<Rightarrow> string" where
  "numbered base ext i = base @ '' ('' @ itoa (int i) @ '')'' @ ext"

lemma numbered_inj [simp]: "numbered base ext i = numbered base ext j \<longleftrightarrow> i = j"
  by (simp add: numbered_def)

text \<open>The candidates are tried without bound; only finitely many names are taken.\<close>

function free_name :: "string list \<Rightarrow> string \<Rightarrow> string \<Rightarrow> nat \<Rightarrow> string" where
  "free_name taken base ext i =
     (if numbered base ext i \<in> set taken then free_name taken base ext (i + 1)
      else numbered base ext i)"
  by pat_completeness auto
termination
proof (relation "measure (\<lambda>(taken, base, ext, i).
    card {c \<in> set taken. \<exists>j \<ge> i. c = numbered base ext j})")
  fix taken base ext i
  assume t: "numbered base ext i \<in> set taken"
  let ?S = "\<lambda>i. {c \<in> set taken. \<exists>j \<ge> i. c = numbered base ext j}"
  have "numbered base ext i \<in> ?S i" "numbered base ext i \<notin> ?S (i + 1)"
    using t by auto
  moreover have "?S (i + 1) \<subseteq> ?S i" by (auto intro: Suc_leD)
  ultimately have "?S (i + 1) \<subset> ?S i" by blast
  then have "card (?S (i + 1)) < card (?S i)"
    by (intro psubset_card_mono) auto
  then show "((taken, base, ext, i + 1), (taken, base, ext, i)) \<in> measure (\<lambda>(taken, base, ext, i).
      card {c \<in> set taken. \<exists>j \<ge> i. c = numbered base ext j})"
    by simp
qed simp

declare free_name.simps [simp del]

definition unique_name :: "string list \<Rightarrow> string \<Rightarrow> string" where
  "unique_name taken name =
     (if name \<notin> set taken then name
      else let ext = path_ext name; base = trim_suffix name ext
           in free_name taken base ext 2)"

lemma free_name_spec:
  "free_name taken base ext i \<notin> set taken \<and>
   (\<exists>j \<ge> i. free_name taken base ext i = numbered base ext j \<and>
      (\<forall>k. i \<le> k \<and> k < j \<longrightarrow> numbered base ext k \<in> set taken))"
proof (induction taken base ext i rule: free_name.induct)
  case (1 taken base ext i)
  show ?case
  proof (cases "numbered base ext i \<in> set taken")
    case True
    obtain j where j: "i + 1 \<le> j" "free_name taken base ext (i + 1) = numbered base ext j"
        "\<forall>k. i + 1 \<le> k \<and> k < j \<longrightarrow> numbered base ext k \<in> set taken"
      using 1 [OF True] by blast
    have "\<forall>k. i \<le> k \<and> k < j \<longrightarrow> numbered base ext k \<in> set taken"
    proof (intro allI impI)
      fix k
      assume "i \<le> k \<and> k < j"
      then show "numbered base ext k \<in> set taken"
        using j(3) True by (cases "k = i") auto
    qed
    with 1 [OF True] True j show ?thesis
      by (simp add: free_name.simps [of taken base ext i])
  next
    case False
    then show ?thesis
      by (auto simp: free_name.simps [of taken base ext i])
  qed
qed

lemma unique_name_fresh: "unique_name taken name \<notin> set taken"
  using free_name_spec by (simp add: unique_name_def Let_def)

section \<open>Construction\<close>

text \<open>\<open>Close\<close> closes every root.\<close>

fun close_roots :: "('o, 'h, 'r) os \<Rightarrow> (string \<times> 'r) list \<Rightarrow> ('o, 'h, 'r) world \<Rightarrow> ('o, 'h, 'r) world" where
  "close_roots os [] w = w"
| "close_roots os ((n, r) # rs) w = close_roots os rs (snd (traced (CloseRoot r) (root_close os r) w))"

fun add_paths ::
  "('o, 'h, 'r) os \<Rightarrow> string list \<Rightarrow> 'r paths_backend \<Rightarrow> ('o, 'h, 'r) world \<Rightarrow>
     'r paths_backend res \<times> ('o, 'h, 'r) world"
where
  "add_paths os [] b w = (Inr b, w)"
| "add_paths os (p # ps) b w =
     (case os_stat os p (fst w) of
        Inl e \<Rightarrow> (Inl e, close_roots os (pbRoots b) w)
      | Inr st \<Rightarrow>
          (let name = unique_name (map fst (pbByName b)) (path_base p);
               e = \<lparr>siName = name, siSize = (if fiIsDir st then 0 else fiSize st),
                    siIsDir = fiIsDir st, siPath = p\<rparr>
           in if fiIsDir st then
                (case traced (OpenRootAt p) (os_open_root os p) w of
                   (Inl err, w) \<Rightarrow> (Inl err, close_roots os (pbRoots b) w)
                 | (Inr r, w) \<Rightarrow>
                     add_paths os ps (b\<lparr>pbRoots := (name, r) # pbRoots b,
                       pbEntries := pbEntries b @ [e], pbByName := (name, e) # pbByName b\<rparr>) w)
              else add_paths os ps (b\<lparr>pbEntries := pbEntries b @ [e],
                     pbByName := (name, e) # pbByName b\<rparr>) w))"

definition new_paths_backend ::
  "('o, 'h, 'r) os \<Rightarrow> string list \<Rightarrow> ('o, 'h, 'r) world \<Rightarrow> 'r paths_backend res \<times> ('o, 'h, 'r) world"
where
  "new_paths_backend os ps w =
     (case add_paths os ps empty_paths w of
        (Inl e, w) \<Rightarrow> (Inl e, w)
      | (Inr b, w) \<Rightarrow> (Inr (b\<lparr>pbEntries := sort_key siName (pbEntries b)\<rparr>), w))"

section \<open>Resolution\<close>

definition pb_split :: "'r paths_backend \<Rightarrow> string \<Rightarrow> (share_item \<times> string) option" where
  "pb_split b p =
     (if p = dot \<or> p = [] then None
      else let (name, sub, found) = cut_byte CHR ''/'' p
           in case map_of (pbByName b) name of
                None \<Rightarrow> None
              | Some e \<Rightarrow> Some (e, if sub = [] then dot else sub))"

text \<open>
  \<open>b.roots[e.Name].f(sub)\<close>: a missing key gives a nil \<open>*os.Root\<close>, whose methods panic.
\<close>

definition with_root :: "'r paths_backend \<Rightarrow> share_item \<Rightarrow> 'a \<Rightarrow> ('r \<Rightarrow> 'a) \<Rightarrow> 'a" where
  "with_root b e panic f = (case map_of (pbRoots b) (siName e) of None \<Rightarrow> panic | Some r \<Rightarrow> f r)"

definition nil_root :: gerror where
  "nil_root = ErrPanic ''nil os.Root''"

definition pb_open ::
  "('o, 'h, 'r) os \<Rightarrow> 'r paths_backend \<Rightarrow> string \<Rightarrow> ('o, 'h, 'r) world \<Rightarrow> 'h res \<times> ('o, 'h, 'r) world"
where
  "pb_open os b p w =
     (case pb_split b p of
        None \<Rightarrow> (Inl ErrNotExist, w)
      | Some (e, sub) \<Rightarrow>
          if \<not> siIsDir e then
            (if sub \<noteq> dot then (Inl ErrNotExist, w)
             else traced (OpenPath (siPath e)) (os_open os (siPath e)) w)
          else with_root b e (Inl nil_root, w) (\<lambda>r. traced (OpenIn r sub) (root_open os r sub) w))"

definition pb_open_file ::
  "('o, 'h, 'r) os \<Rightarrow> 'r paths_backend \<Rightarrow> string \<Rightarrow> oflags \<Rightarrow> filemode \<Rightarrow>
     ('o, 'h, 'r) world \<Rightarrow> 'h res \<times> ('o, 'h, 'r) world"
where
  "pb_open_file os b p fl perm w =
     (if fl AND write_flags \<noteq> 0 then (Inl ErrReadOnly, w) else pb_open os b p w)"

definition virtual_dir :: "string \<Rightarrow> finfo" where
  "virtual_dir n = \<lparr>fiName = n, fiSize = 0, fiMode = ModeDir OR 0x1ED, fiModMS = - 62135596800000, fiIsDir = True\<rparr>"

definition pb_stat ::
  "('o, 'h, 'r) os \<Rightarrow> 'r paths_backend \<Rightarrow> string \<Rightarrow> ('o, 'h, 'r) world \<Rightarrow> finfo res"
where
  "pb_stat os b p w =
     (if p = dot \<or> p = [] then Inr (virtual_dir dot)
      else case pb_split b p of
        None \<Rightarrow> Inl ErrNotExist
      | Some (e, sub) \<Rightarrow>
          if \<not> siIsDir e then
            (if sub \<noteq> dot then Inl ErrNotExist else os_stat os (siPath e) (fst w))
          else with_root b e (Inl nil_root) (\<lambda>r. root_stat os r sub (fst w)))"

text \<open>\<open>renamedInfo\<close>.\<close>

definition renamed_info :: "finfo \<Rightarrow> string \<Rightarrow> finfo" where
  [simp]: "renamed_info fi n = fi\<lparr>fiName := n\<rparr>"

fun list_items :: "('o, 'h, 'r) os \<Rightarrow> share_item list \<Rightarrow> 'o \<Rightarrow> finfo list" where
  "list_items os [] s = []"
| "list_items os (e # es) s =
     (if siIsDir e then renamed_info (virtual_dir (siName e)) (siName e) # list_items os es s
      else case os_stat os (siPath e) s of
             Inl err \<Rightarrow> list_items os es s
           | Inr fi \<Rightarrow> renamed_info fi (siName e) # list_items os es s)"

definition pb_read_dir ::
  "('o, 'h, 'r) os \<Rightarrow> 'r paths_backend \<Rightarrow> string \<Rightarrow> ('o, 'h, 'r) world \<Rightarrow> finfo list res"
where
  "pb_read_dir os b p w =
     (if p = dot \<or> p = [] then Inr (list_items os (pbEntries b) (fst w))
      else case pb_split b p of
        None \<Rightarrow> Inl ErrNotExist
      | Some (e, sub) \<Rightarrow>
          if \<not> siIsDir e then Inl ErrNotExist
          else with_root b e (Inl nil_root) (\<lambda>r. read_dir os r sub (fst w)))"

definition refuse :: "('o, 'h, 'r) world \<Rightarrow> gerror option \<times> ('o, 'h, 'r) world" where
  "refuse w = (Some ErrReadOnly, w)"

definition paths_share :: "('o, 'h, 'r) os \<Rightarrow> 'r paths_backend \<Rightarrow> (('o, 'h, 'r) world, 'h) backend" where
  "paths_share os b =
     \<lparr>bOpen = pb_open os b, bOpenFile = pb_open_file os b, bStat = pb_stat os b, bLstat = pb_stat os b,
      bReadDir = pb_read_dir os b, bReadlink = (\<lambda>p w. Inl ErrNotExist),
      bMkdir = (\<lambda>p perm. refuse), bRemove = (\<lambda>p. refuse), bRename = (\<lambda>a b. refuse),
      bSymlink = (\<lambda>t p. refuse), bLink = (\<lambda>a p. refuse), bChmod = (\<lambda>p m. refuse),
      bChtimes = (\<lambda>p a m. refuse), bClose = (\<lambda>w. (None, close_roots os (pbRoots b) w))\<rparr>"


section \<open>Well-formed shares\<close>

definition pb_ok :: "'r paths_backend \<Rightarrow> bool" where
  "pb_ok b \<longleftrightarrow>
     distinct (map siName (pbEntries b)) \<and> distinct (map fst (pbByName b)) \<and>
     set (pbByName b) = (\<lambda>e. (siName e, e)) ` set (pbEntries b) \<and>
     fst ` set (pbRoots b) = siName ` {e \<in> set (pbEntries b). siIsDir e}"

lemma pb_ok_byName: "pb_ok b \<Longrightarrow> set (pbByName b) = (\<lambda>e. (siName e, e)) ` set (pbEntries b)"
  and pb_ok_distinct: "pb_ok b \<Longrightarrow> distinct (map fst (pbByName b))"
  and pb_ok_roots: "pb_ok b \<Longrightarrow> fst ` set (pbRoots b) = siName ` {e \<in> set (pbEntries b). siIsDir e}"
  unfolding pb_ok_def by blast+

lemma pb_ok_keys: "pb_ok b \<Longrightarrow> set (map fst (pbByName b)) = siName ` set (pbEntries b)"
  by (simp add: pb_ok_byName image_image)

lemma pb_ok_empty: "pb_ok empty_paths"
  by (simp add: pb_ok_def empty_paths_def)

lemma pb_ok_add:
  assumes ok: "pb_ok b" and fresh: "siName e \<notin> set (map fst (pbByName b))"
    and roots: "fst ` set rs = fst ` set (pbRoots b) \<union> (if siIsDir e then {siName e} else {})"
  shows "pb_ok (b\<lparr>pbRoots := rs, pbEntries := pbEntries b @ [e], pbByName := (siName e, e) # pbByName b\<rparr>)"
proof -
  have new: "siName e \<notin> siName ` set (pbEntries b)"
    using fresh pb_ok_keys [OF ok] by simp
  show ?thesis
    using ok fresh roots new by (auto simp: pb_ok_def)
qed

lemma pb_ok_sort: "pb_ok b \<Longrightarrow> pb_ok (b\<lparr>pbEntries := sort_key siName (pbEntries b)\<rparr>)"
  by (simp add: pb_ok_def distinct_map_sort_key)

lemma add_paths_ok:
  assumes "pb_ok b" "add_paths os ps b w = (Inr b', w')"
  shows "pb_ok b' \<and> map siPath (pbEntries b') = map siPath (pbEntries b) @ ps"
  using assms
proof (induction os ps b w rule: add_paths.induct)
  case (1 os b w)
  then show ?case by simp
next
  case (2 os p ps b w)
  let ?name = "unique_name (map fst (pbByName b)) (path_base p)"
  have fresh: "?name \<notin> set (map fst (pbByName b))" by (rule unique_name_fresh)
  obtain st where st: "os_stat os p (fst w) = Inr st"
    using "2.prems"(2) by (auto split: sum.splits)
  let ?e = "\<lparr>siName = ?name, siSize = (if fiIsDir st then 0 else fiSize st),
    siIsDir = fiIsDir st, siPath = p\<rparr>"
  show ?case
  proof (cases "fiIsDir st")
    case True
    obtain x w1 where tr: "traced (OpenRootAt p) (os_open_root os p) w = (x, w1)"
      by (metis surj_pair)
    obtain r where r: "x = Inr r"
      using "2.prems"(2) st True tr by (auto simp: Let_def split: sum.splits)
    have ok: "pb_ok (b\<lparr>pbRoots := (?name, r) # pbRoots b, pbEntries := pbEntries b @ [?e],
        pbByName := (?name, ?e) # pbByName b\<rparr>)"
      using pb_ok_add [OF "2.prems"(1), of ?e "(?name, r) # pbRoots b"] fresh True by simp
    show ?thesis
      using "2.IH"(1) [OF st refl refl True tr [symmetric] r] ok "2.prems"(2) st True tr r
      by (simp add: Let_def)
  next
    case False
    have ok: "pb_ok (b\<lparr>pbEntries := pbEntries b @ [?e], pbByName := (?name, ?e) # pbByName b\<rparr>)"
      using pb_ok_add [OF "2.prems"(1), of ?e "pbRoots b"] fresh False by simp
    show ?thesis
      using "2.IH"(2) [OF st refl refl False] ok "2.prems"(2) st False by (simp add: Let_def)
  qed
qed

lemma new_paths_backend_ok:
  assumes "new_paths_backend os ps w = (Inr b, w')"
  shows "pb_ok b \<and> mset (map siPath (pbEntries b)) = mset ps \<and> sorted (map siName (pbEntries b))"
proof -
  obtain b0 where b0: "add_paths os ps empty_paths w = (Inr b0, w')"
      "b = b0\<lparr>pbEntries := sort_key siName (pbEntries b0)\<rparr>"
    using assms by (auto simp: new_paths_backend_def split: prod.splits sum.splits)
  then show ?thesis
    using add_paths_ok [OF pb_ok_empty b0(1)] pb_ok_sort [of b0]
    by (simp add: empty_paths_def) (metis mset_map mset_sort)
qed

section \<open>Resolution is sound\<close>

lemma cut_byte_here: "c \<notin> set a \<Longrightarrow> cut_byte c (a @ c # b) = (a, b, True)"
  by (induction a) (auto simp: cut_byte_def)

lemma cut_byte_absent: "c \<notin> set a \<Longrightarrow> cut_byte c a = (a, [], False)"
  by (induction a) (auto simp: cut_byte_def)

lemma cut_byte_cases:
  obtains "c \<notin> set s" "cut_byte c s = (s, [], False)"
  | a b where "s = a @ c # b" "c \<notin> set a" "cut_byte c s = (a, b, True)"
  by (metis cut_byte_absent cut_byte_here split_list_first)

lemma map_of_byName:
  assumes "pb_ok b"
  shows "map_of (pbByName b) n = Some e \<longleftrightarrow> e \<in> set (pbEntries b) \<and> siName e = n"
  using map_of_eq_Some_iff [OF pb_ok_distinct [OF assms]] pb_ok_byName [OF assms] by auto

lemma map_of_roots:
  assumes "pb_ok b" "e \<in> set (pbEntries b)" "siIsDir e"
  shows "\<exists>r. map_of (pbRoots b) (siName e) = Some r"
proof -
  have "siName e \<in> fst ` set (pbRoots b)" using pb_ok_roots [OF assms(1)] assms(2,3) by blast
  then show ?thesis by (metis map_of_eq_None_iff not_None_eq)
qed

lemma pb_split_sound:
  assumes ok: "pb_ok b" and inside: "inside p" and split: "pb_split b p = Some (e, sub)"
  shows "e \<in> set (pbEntries b) \<and> inside sub \<and>
    (if sub = dot then p = siName e else p = siName e @ CHR ''/'' # sub)"
proof -
  obtain name rest found where cut: "cut_byte CHR ''/'' p = (name, rest, found)"
    by (rule prod_cases3)
  have p: "p \<noteq> dot" and m: "map_of (pbByName b) name = Some e"
    and sub: "sub = (if rest = [] then dot else rest)"
    using split cut by (auto simp: pb_split_def split: option.splits if_splits)
  have e: "e \<in> set (pbEntries b)" "siName e = name"
    using map_of_byName [OF ok] m by blast+
  have elems: "\<forall>w \<in> set (split_slash p). plain_elem w"
    using inside p by (simp add: inside_def)
  show ?thesis
  proof (cases rule: cut_byte_cases [of "CHR ''/''" p])
    case 1
    with cut have "name = p" "sub = dot" using sub by simp_all
    with e show ?thesis by (simp add: inside_def)
  next
    case (2 a q)
    with cut have aq: "name = a" "rest = q" by simp_all
    have "split_slash p = a # split_slash q" using 2 by (simp add: split_slash_append)
    then have q: "\<forall>w \<in> set (split_slash q). plain_elem w" using elems by simp
    then have "q \<noteq> []" "q \<noteq> dot" using plain_split by blast+
    then show ?thesis using e 2 q aq sub by (simp add: inside_def)
  qed
qed

lemma pb_split_complete:
  assumes ok: "pb_ok b" and e: "e \<in> set (pbEntries b)" and name: "plain_elem (siName e)"
  shows "pb_split b (siName e) = Some (e, dot)"
    and "sub \<noteq> [] \<Longrightarrow> pb_split b (siName e @ CHR ''/'' # sub) = Some (e, sub)"
proof -
  have m: "map_of (pbByName b) (siName e) = Some e" using ok e by (simp add: map_of_byName)
  have n: "CHR ''/'' \<notin> set (siName e)" "siName e \<noteq> []" "siName e \<noteq> dot"
    using name by (auto simp: plain_elem_def)
  show "pb_split b (siName e) = Some (e, dot)"
    using m n by (simp add: pb_split_def cut_byte_absent)
  have "siName e @ CHR ''/'' # sub \<noteq> dot" using n by (cases "siName e") auto
  then show "sub \<noteq> [] \<Longrightarrow> pb_split b (siName e @ CHR ''/'' # sub) = Some (e, sub)"
    using m n by (simp add: pb_split_def cut_byte_here)
qed

text \<open>Opening resolves to one shared file or to a path inside one shared folder.\<close>

lemma pb_open_cases:
  assumes ok: "pb_ok b" and inside: "inside p"
  obtains "pb_open os b p w = (Inl ErrNotExist, w)"
  | e where "e \<in> set (pbEntries b)" "\<not> siIsDir e" "p = siName e"
      "pb_open os b p w = traced (OpenPath (siPath e)) (os_open os (siPath e)) w"
  | e r sub where "e \<in> set (pbEntries b)" "siIsDir e" "map_of (pbRoots b) (siName e) = Some r"
      "inside sub" "if sub = dot then p = siName e else p = siName e @ CHR ''/'' # sub"
      "pb_open os b p w = traced (OpenIn r sub) (root_open os r sub) w"
proof (cases "pb_split b p")
  case None
  then show thesis using that(1) by (simp add: pb_open_def)
next
  case (Some es)
  obtain e sub where es: "es = (e, sub)" by (cases es)
  note s = pb_split_sound [OF ok inside Some [unfolded es]]
  show thesis
  proof (cases "siIsDir e")
    case True
    obtain r where "map_of (pbRoots b) (siName e) = Some r"
      using map_of_roots [OF ok _ True] s by blast
    with Some es s True show thesis by (intro that(3)) (auto simp: pb_open_def with_root_def)
  next
    case False
    with Some es s that show thesis by (cases "sub = dot") (auto simp: pb_open_def)
  qed
qed

section \<open>The share is read-only\<close>

lemma pb_open_quiet: "pb_open os b p w = (x, w') \<Longrightarrow> quiet w w'"
  by (auto simp: pb_open_def with_root_def split: option.splits if_splits elim!: adds_traced_eq [rotated])

interpretation picked: readonly_backend "paths_share os b"
  by unfold_locales
    (auto simp: paths_share_def refuse_def pb_open_file_def dest: pb_open_quiet split: if_splits)

section \<open>Properties\<close>

text \<open>
  C36. The name given to a new item is not taken; an untaken name is kept as it is, and a taken
  one becomes \<open>base (j).ext\<close> for the least \<open>j\<close> from 2 on that is free. The search always ends.
\<close>

theorem unique_name_is_least_free:
  "unique_name taken name \<notin> set taken \<and>
   (if name \<notin> set taken then unique_name taken name = name
    else \<exists>j \<ge> 2. unique_name taken name = numbered (trim_suffix name (path_ext name)) (path_ext name) j \<and>
           (\<forall>k \<in> {2..<j}. numbered (trim_suffix name (path_ext name)) (path_ext name) k \<in> set taken))"
proof -
  let ?b = "trim_suffix name (path_ext name)" and ?e = "path_ext name"
  obtain j where "2 \<le> j" "free_name taken ?b ?e 2 = numbered ?b ?e j"
      "\<forall>k. 2 \<le> k \<and> k < j \<longrightarrow> numbered ?b ?e k \<in> set taken"
    using free_name_spec [of taken ?b ?e 2] by blast
  moreover have "unique_name taken name \<notin> set taken" by (rule unique_name_fresh)
  ultimately show ?thesis by (auto simp: unique_name_def Let_def)
qed

lemma unique_name_demo: "unique_name [''a.txt'', ''f''] ''a.txt'' = ''a (2).txt''"
  by (simp add: unique_name_def Let_def path_ext_def trim_suffix_def has_suffix_def free_name.simps
      numbered_def itoa_def nat_str.simps)

theorem unique_name_is_least_free_witness:
  "unique_name [''a.txt'', ''f''] ''a.txt'' \<notin> {''a.txt'', ''f''} \<and>
   unique_name [''a.txt'', ''f''] ''a.txt'' = ''a (2).txt''"
  using unique_name_is_least_free [of "[''a.txt'', ''f'']" "''a.txt''"] unique_name_demo by simp

text \<open>
  C35. A share built from a list of paths offers exactly those paths, one entry each, under
  pairwise different names, in name order, with an open root for exactly the folders.
\<close>

theorem new_paths_share_entries:
  assumes "new_paths_backend os ps w = (Inr b, w')"
  shows "mset (map siPath (pbEntries b)) = mset ps \<and> distinct (map siName (pbEntries b)) \<and>
    sorted (map siName (pbEntries b)) \<and>
    fst ` set (pbRoots b) = siName ` {e \<in> set (pbEntries b). siIsDir e}"
  using new_paths_backend_ok [OF assms] by (simp add: pb_ok_def)

definition demo_mem :: mem where
  "demo_mem = [(''/s/a'', Some [1, 2, 3]), (''/o/a'', Some []), (''/s/f'', None), (''/s/f/x'', Some [7])]"

definition demo_share :: "string paths_backend" where
  "demo_share =
     (let a = \<lparr>siName = ''a'', siSize = 3, siIsDir = False, siPath = ''/s/a''\<rparr>;
          a2 = \<lparr>siName = ''a (2)'', siSize = 0, siIsDir = False, siPath = ''/o/a''\<rparr>;
          f = \<lparr>siName = ''f'', siSize = 0, siIsDir = True, siPath = ''/s/f''\<rparr>
      in \<lparr>pbEntries = [a, a2, f], pbByName = [(''f'', f), (''a (2)'', a2), (''a'', a)],
          pbRoots = [(''f'', ''/s/f'')]\<rparr>)"

lemma demo_base:
  "path_base ''/s/a'' = ''a''" "path_base ''/o/a'' = ''a''" "path_base ''/s/f'' = ''f''"
  by (simp_all add: path_base_def strip_slashes_def)

lemma demo_names:
  "unique_name [] ''a'' = ''a''" "unique_name [''a''] ''a'' = ''a (2)''"
  "unique_name [''a (2)'', ''a''] ''f'' = ''f''"
  by (simp_all add: unique_name_def Let_def path_ext_def trim_suffix_def has_suffix_def
      free_name.simps numbered_def itoa_def nat_str.simps)

lemma demo_new:
  "new_paths_backend mem_os [''/s/a'', ''/o/a'', ''/s/f''] (demo_mem, []) =
     (Inr demo_share, (demo_mem, [OpenRootAt ''/s/f'']))"
  by (simp add: new_paths_backend_def empty_paths_def mem_os_def mem_stat_def mem_info_def
      mem_open_root_def demo_mem_def demo_base demo_names traced_def demo_share_def Let_def)

theorem new_paths_share_entries_witness:
  "new_paths_backend mem_os [''/s/a'', ''/o/a'', ''/s/f''] (demo_mem, []) =
     (Inr demo_share, (demo_mem, [OpenRootAt ''/s/f''])) \<and>
   mset (map siPath (pbEntries demo_share)) = {#''/s/a'', ''/o/a'', ''/s/f''#}"
  using new_paths_share_entries [OF demo_new] demo_new by simp



text \<open>
  Every picked item can be reached by its name: a request for \<open>/name\<close> resolves to it and a
  request for \<open>/name/sub\<close> to \<open>sub\<close> inside it, provided the name is a proper file name and the
  request has no white space at its ends.
\<close>

lemma paths_items_reachable:
  assumes "new_paths_backend os ps w0 = (Inr b, w1)" "e \<in> set (pbEntries b)"
    and "\<forall>v \<in> set (siName e # vs). plain_elem v"
    and "trim_space (CHR ''/'' # join_slash (siName e # vs)) = CHR ''/'' # join_slash (siName e # vs)"
  shows "pb_split b (rel (CHR ''/'' # join_slash (siName e # vs))) =
    Some (e, if vs = [] then dot else join_slash vs)"
proof -
  note ok = conjunct1 [OF new_paths_backend_ok [OF assms(1)]]
  have r: "rel (CHR ''/'' # join_slash (siName e # vs)) = join_slash (siName e # vs)"
    using rel_join_plain [of "siName e # vs"] assms(3,4) by simp
  have n: "plain_elem (siName e)" using assms(3) by simp
  show ?thesis
  proof (cases vs)
    case Nil
    then show ?thesis using r pb_split_complete(1) [OF ok assms(2) n] by simp
  next
    case (Cons v us)
    have "join_slash vs \<noteq> []"
      using join_slash_Nil_iff [of vs] assms(3) Cons by (auto simp: plain_elem_def)
    then show ?thesis
      using r pb_split_complete(2) [OF ok assms(2) n, of "join_slash vs"] Cons by simp
  qed
qed

theorem paths_items_reachable_witness:
  "pb_split demo_share (rel ''/f/x'') = Some (pbEntries demo_share ! 2, ''x'')"
proof -
  have t: "trim_space ''/f/x'' = ''/f/x''"
    by (rule trim_space_id) (simp_all add: space_runes_def)
  show ?thesis
    using paths_items_reachable [OF demo_new, of "pbEntries demo_share ! 2" "[''x'']"] t
    by (simp add: demo_share_def Let_def plain_elem_def)
qed

end
