(* ===== verification/Share_Handlers.thy ===== *)
theory Share_Handlers
  imports Share_Paths
begin

text \<open>
  The SFTP request handlers of a share (\<open>core/engine/fileshare/handlers.go\<close>): \<open>Fileread\<close>,
  \<open>Filewrite\<close>, \<open>OpenFile\<close>, \<open>Filecmd\<close> and \<open>Filelist\<close>, over an arbitrary backend, with the
  access rules of the three share modes.
\<close>

section \<open>Requests\<close>

text \<open>\<open>sftp.Request\<close>, as far as the handlers look at it.\<close>

record pflags =
  pfRead :: bool
  pfWrite :: bool
  pfAppend :: bool
  pfCreat :: bool
  pfTrunc :: bool
  pfExcl :: bool

record attr_flags =
  afSize :: bool
  afPermissions :: bool
  afAcmodtime :: bool

record attrs =
  aSize :: "64 word"
  aPerm :: filemode
  aAtime :: "32 word"
  aMtime :: "32 word"

record sftp_request =
  rMethod :: string
  rFilepath :: string
  rTarget :: string
  rPflags :: pflags
  rAttrFlags :: attr_flags
  rAttrs :: "attrs option"

section \<open>Errors\<close>

text \<open>\<open>errors.Is\<close>: the error itself or something it wraps.\<close>

fun errors_is :: "gerror \<Rightarrow> gerror \<Rightarrow> bool" where
  "errors_is (ErrWrap f as e) t = (ErrWrap f as e = t \<or> errors_is e t)"
| "errors_is (ErrCoded c e) t = (ErrCoded c e = t \<or> errors_is e t)"
| "errors_is e t = (e = t)"

definition map_err :: "gerror \<Rightarrow> gerror" where
  "map_err e =
     (if e = ErrNotExist then ErrSftpNoSuchFile
      else if e = ErrPermission \<or> errors_is e ErrReadOnly then ErrSftpPermissionDenied
      else e)"

text \<open>The same on a possibly nil error, as the metadata operations use it.\<close>

definition map_err_opt :: "gerror option \<times> 'w \<Rightarrow> gerror option \<times> 'w" where
  "map_err_opt x = (map_option map_err (fst x), snd x)"

section \<open>Access\<close>

definition can_read :: "mode \<Rightarrow> bool" where
  "can_read m \<longleftrightarrow> m \<noteq> WriteOnly"

definition can_write :: "mode \<Rightarrow> bool" where
  "can_write m \<longleftrightarrow> m \<noteq> ReadOnly"

text \<open>The \<open>countingFile\<close> that a transfer works on; its operations are in \<open>Share_Progress\<close>.\<close>

record 'h counting_file =
  cfFile :: 'h
  cfPath :: string
  cfTotal :: int
  cfDir :: string
  cfBytes :: int

definition DirUpload :: string where "DirUpload = ''up''"
definition DirDownload :: string where "DirDownload = ''down''"

definition new_counting :: "'h \<Rightarrow> string \<Rightarrow> int \<Rightarrow> string \<Rightarrow> 'h counting_file" where
  "new_counting f p tot dir = \<lparr>cfFile = f, cfPath = p, cfTotal = tot, cfDir = dir, cfBytes = 0\<rparr>"

definition fileread ::
  "('o, 'h, 'r) os \<Rightarrow> (('o, 'h, 'r) world, 'h) backend \<Rightarrow> mode \<Rightarrow> sftp_request \<Rightarrow>
     ('o, 'h, 'r) world \<Rightarrow> 'h counting_file res \<times> ('o, 'h, 'r) world"
where
  "fileread os B m r w =
     (if \<not> can_read m then (Inl ErrSftpPermissionDenied, w)
      else case bOpen B (rel (rFilepath r)) w of
             (Inl e, w) \<Rightarrow> (Inl (map_err e), w)
           | (Inr f, w) \<Rightarrow>
               (case file_stat os f (fst w) of
                  Inl e \<Rightarrow> (Inr (new_counting f (rFilepath r) (- 1) DirUpload), w)
                | Inr st \<Rightarrow>
                    if fiIsDir st
                    then (Inl ErrSftpFailure, snd (traced (CloseFile f) (file_close os f) w))
                    else (Inr (new_counting f (rFilepath r) (fiSize st) DirUpload), w)))"

text \<open>The flag word of \<open>Filewrite\<close>.\<close>

definition write_oflag :: "pflags \<Rightarrow> oflags" where
  "write_oflag fl =
     (let o0 = (if pfRead fl then O_RDWR else O_WRONLY);
          o1 = (if pfCreat fl then o0 OR O_CREATE else o0);
          o2 = (if pfTrunc fl then o1 OR O_TRUNC else o1);
          o3 = (if pfExcl fl then o2 OR O_EXCL else o2)
      in if pfAppend fl then o3 OR O_APPEND else o3)"

definition filewrite ::
  "(('o, 'h, 'r) world, 'h) backend \<Rightarrow> mode \<Rightarrow> sftp_request \<Rightarrow>
     ('o, 'h, 'r) world \<Rightarrow> 'h counting_file res \<times> ('o, 'h, 'r) world"
where
  "filewrite B m r w =
     (if \<not> can_write m then (Inl ErrSftpPermissionDenied, w)
      else case bOpenFile B (rel (rFilepath r)) (write_oflag (rPflags r)) 0x1A4 w of
             (Inl e, w) \<Rightarrow> (Inl (map_err e), w)
           | (Inr f, w) \<Rightarrow> (Inr (new_counting f (rFilepath r) (- 1) DirDownload), w))"

definition rdwr_oflag :: "pflags \<Rightarrow> oflags" where
  "rdwr_oflag fl =
     (let o1 = (if pfCreat fl then O_RDWR OR O_CREATE else O_RDWR)
      in if pfTrunc fl then o1 OR O_TRUNC else o1)"

definition open_file ::
  "(('o, 'h, 'r) world, 'h) backend \<Rightarrow> mode \<Rightarrow> sftp_request \<Rightarrow>
     ('o, 'h, 'r) world \<Rightarrow> 'h res \<times> ('o, 'h, 'r) world"
where
  "open_file B m r w =
     (if \<not> can_write m \<or> \<not> can_read m then (Inl ErrSftpPermissionDenied, w)
      else case bOpenFile B (rel (rFilepath r)) (rdwr_oflag (rPflags r)) 0x1A4 w of
             (Inl e, w) \<Rightarrow> (Inl (map_err e), w)
           | (Inr f, w) \<Rightarrow> (Inr f, w))"

section \<open>Metadata\<close>

text \<open>
  \<open>Setstat\<close>: best effort; the errors of the three calls are dropped. The Unix times are
  \<open>int64\<close> conversions of unsigned 32-bit values, the size of an unsigned 64-bit one.
\<close>

definition setstat_attrs ::
  "(('o, 'h, 'r) world, 'h) backend \<Rightarrow> sftp_request \<Rightarrow> attrs \<Rightarrow> ('o, 'h, 'r) world \<Rightarrow> ('o, 'h, 'r) world"
where
  "setstat_attrs B r a w =
     (let p = rel (rFilepath r);
          w = (if afPermissions (rAttrFlags r) then snd (bChmod B p (aPerm a) w) else w)
      in if afAcmodtime (rAttrFlags r)
         then snd (bChtimes B p (uint (aAtime a)) (uint (aMtime a)) w) else w)"

definition setstat_size ::
  "('o, 'h, 'r) os \<Rightarrow> (('o, 'h, 'r) world, 'h) backend \<Rightarrow> sftp_request \<Rightarrow> attrs \<Rightarrow>
     ('o, 'h, 'r) world \<Rightarrow> ('o, 'h, 'r) world"
where
  "setstat_size os B r a w =
     (case bOpenFile B (rel (rFilepath r)) O_WRONLY 0 w of
        (Inl e, w) \<Rightarrow> w
      | (Inr f, w) \<Rightarrow>
          snd (traced (CloseFile f) (file_close os f)
            (snd (traced (TruncateFile f (sint (aSize a))) (file_truncate os f (sint (aSize a))) w))))"

definition setstat ::
  "('o, 'h, 'r) os \<Rightarrow> (('o, 'h, 'r) world, 'h) backend \<Rightarrow> mode \<Rightarrow> sftp_request \<Rightarrow>
     ('o, 'h, 'r) world \<Rightarrow> gerror option \<times> ('o, 'h, 'r) world"
where
  "setstat os B m r w =
     (case rAttrs r of
        None \<Rightarrow> (None, w)
      | Some a \<Rightarrow>
          (let w = setstat_attrs B r a w
           in (None, if afSize (rAttrFlags r) \<and> m \<noteq> WriteOnly then setstat_size os B r a w else w)))"

definition filecmd ::
  "('o, 'h, 'r) os \<Rightarrow> (('o, 'h, 'r) world, 'h) backend \<Rightarrow> mode \<Rightarrow> sftp_request \<Rightarrow>
     ('o, 'h, 'r) world \<Rightarrow> gerror option \<times> ('o, 'h, 'r) world"
where
  "filecmd os B m r w =
     (if \<not> can_write m then (Some ErrSftpPermissionDenied, w)
      else if rMethod r = ''Mkdir'' then map_err_opt (bMkdir B (rel (rFilepath r)) 0x1ED w)
      else if rMethod r = ''Setstat'' then setstat os B m r w
      else if m = WriteOnly then (Some ErrSftpPermissionDenied, w)
      else if rMethod r = ''Rename'' \<or> rMethod r = ''PosixRename''
        then map_err_opt (bRename B (rel (rFilepath r)) (rel (rTarget r)) w)
      else if rMethod r = ''Rmdir'' then map_err_opt (bRemove B (rel (rFilepath r)) w)
      else if rMethod r = ''Remove'' then map_err_opt (bRemove B (rel (rFilepath r)) w)
      else if rMethod r = ''Symlink'' then map_err_opt (bSymlink B (rTarget r) (rel (rFilepath r)) w)
      else if rMethod r = ''Link'' then map_err_opt (bLink B (rel (rTarget r)) (rel (rFilepath r)) w)
      else (Some ErrSftpOpUnsupported, w))"

section \<open>Listings\<close>

text \<open>The fake \<open>FileInfo\<close> whose name carries a symlink target.\<close>

definition link_info :: "string \<Rightarrow> finfo" where
  "link_info t = \<lparr>fiName = t, fiSize = 0, fiMode = ModeSymlink, fiModMS = - 62135596800000, fiIsDir = False\<rparr>"

definition map_err_res :: "'a res \<Rightarrow> 'a res" where
  "map_err_res = map_sum map_err id"

definition filelist ::
  "(('o, 'h, 'r) world, 'h) backend \<Rightarrow> mode \<Rightarrow> sftp_request \<Rightarrow> ('o, 'h, 'r) world \<Rightarrow> finfo list res"
where
  "filelist B m r w =
     (let p = rel (rFilepath r) in
      if rMethod r = ''List'' then
        (if \<not> can_read m then Inl ErrSftpPermissionDenied else map_err_res (bReadDir B p w))
      else if rMethod r = ''Stat'' \<or> rMethod r = ''Lstat'' then
        map_err_res (map_sum id (\<lambda>fi. [fi]) (if rMethod r = ''Lstat'' then bLstat B p w else bStat B p w))
      else if rMethod r = ''Readlink'' then
        (if \<not> can_read m then Inl ErrSftpPermissionDenied
         else map_err_res (map_sum id (\<lambda>t. [link_info t]) (bReadlink B p w)))
      else Inl ErrSftpOpUnsupported)"

text \<open>
  \<open>listerAt.ListAt\<close>: the entries copied into a buffer of \<open>n\<close> and whether EOF is reported; a
  negative offset panics in the slice expression.
\<close>

definition list_at :: "'a list \<Rightarrow> nat \<Rightarrow> int \<Rightarrow> ('a list \<times> gerror option) res" where
  "list_at l n off =
     (if int (length l) \<le> off then Inr ([], Some ErrEOF)
      else if off < 0 then Inl (ErrPanic ''slice bounds out of range'')
      else let c = take n (drop (nat off) l)
           in Inr (c, if length c < n then Some ErrEOF else None))"

section \<open>One request\<close>

text \<open>
  A client is a list of requests, each dispatched to the handler that \<open>handlers()\<close> registers
  for it; what the theorems look at is the world afterwards.
\<close>

datatype sftp_op =
    OpGet sftp_request
  | OpPut sftp_request
  | OpOpen sftp_request
  | OpCmd sftp_request
  | OpList sftp_request

fun serve_op ::
  "('o, 'h, 'r) os \<Rightarrow> (('o, 'h, 'r) world, 'h) backend \<Rightarrow> mode \<Rightarrow> sftp_op \<Rightarrow>
     ('o, 'h, 'r) world \<Rightarrow> ('o, 'h, 'r) world"
where
  "serve_op os B m (OpGet r) w = snd (fileread os B m r w)"
| "serve_op os B m (OpPut r) w = snd (filewrite B m r w)"
| "serve_op os B m (OpOpen r) w = snd (open_file B m r w)"
| "serve_op os B m (OpCmd r) w = snd (filecmd os B m r w)"
| "serve_op os B m (OpList r) w = w"

definition serve_ops ::
  "('o, 'h, 'r) os \<Rightarrow> (('o, 'h, 'r) world, 'h) backend \<Rightarrow> mode \<Rightarrow> sftp_op list \<Rightarrow>
     ('o, 'h, 'r) world \<Rightarrow> ('o, 'h, 'r) world"
where
  "serve_ops os B m ops w = fold (serve_op os B m) ops w"

lemma adds_serve_ops:
  assumes "\<And>x w. x \<in> set ops \<Longrightarrow> adds P w (serve_op os B m x w)"
  shows "adds P w (serve_ops os B m ops w)"
  using assms
proof (induction ops arbitrary: w)
  case Nil
  show ?case by (simp add: serve_ops_def)
next
  case (Cons x ops)
  have "adds P w (serve_op os B m x w)" using Cons.prems by simp
  also have "adds P \<dots> (serve_ops os B m ops (serve_op os B m x w))"
    using Cons by simp
  finally show ?case by (simp add: serve_ops_def)
qed

lemma can_mode [simp]:
  "can_read ReadOnly" "can_read ReadWrite" "\<not> can_read WriteOnly"
  "\<not> can_write ReadOnly" "can_write ReadWrite" "can_write WriteOnly"
  by (simp_all add: can_read_def can_write_def)

section \<open>What any backend gives\<close>

context share_backend
begin

lemma fileread_quiet: "quiet w (snd (fileread os B m r w))"
proof (cases "can_read m")
  case True
  obtain x w1 where o: "bOpen B (rel (rFilepath r)) w = (x, w1)" by (metis surj_pair)
  have q: "quiet w w1" using open_quiet [OF o] .
  have "quiet w (snd (traced (CloseFile f) (file_close os f) w1))" for f
    using q by (rule adds_trans) simp
  then show ?thesis
    using True o q by (simp add: fileread_def split: sum.split)
qed (simp add: fileread_def)

lemma readonly_mode_quiet: "quiet w (serve_op os B ReadOnly x w)"
  by (cases x) (simp_all add: fileread_quiet filewrite_def open_file_def filecmd_def)

lemma readonly_mode_serves_quietly: "quiet w (serve_ops os B ReadOnly ops w)"
  by (rule adds_serve_ops) (rule readonly_mode_quiet)

end

section \<open>What a read-only backend gives\<close>

context readonly_backend
begin

lemma filewrite_quiet: "quiet w (snd (filewrite B m r w))"
  by (auto simp: filewrite_def split: prod.split sum.split dest: ro_open_file)

lemma open_file_quiet_any: "quiet w (snd (open_file B m r w))"
  by (auto simp: open_file_def split: prod.split sum.split dest: ro_open_file)

lemma map_err_opt_snd [simp]: "snd (map_err_opt x) = snd x"
  by (simp add: map_err_opt_def)

lemma ro_snd:
  "quiet w (snd (bMkdir B p perm w))" "quiet w (snd (bRemove B p w))" "quiet w (snd (bRename B p q w))"
  "quiet w (snd (bSymlink B t p w))" "quiet w (snd (bLink B p q w))" "quiet w (snd (bChmod B p md w))"
  "quiet w (snd (bChtimes B p ta tm w))"
  using ro_mkdir ro_remove ro_rename ro_symlink ro_link ro_chmod ro_chtimes
  by (metis prod.collapse)+

lemma wronly_writes: "O_WRONLY AND write_flags \<noteq> 0"
  by (simp add: write_flags_def oflag_defs)

lemma setstat_attrs_quiet: "quiet w (setstat_attrs B r a w)"
  by (auto simp: setstat_attrs_def Let_def ro_snd intro: adds_trans [OF ro_snd(6) ro_snd(7)])

lemma setstat_size_quiet: "quiet w (setstat_size os B r a w)"
proof -
  obtain x w1 where o: "bOpenFile B (rel (rFilepath r)) O_WRONLY 0 w = (x, w1)" by (metis surj_pair)
  have "isl x" using ro_no_write_handle [OF wronly_writes o] .
  moreover have "quiet w w1" using ro_open_file [OF o] .
  ultimately show ?thesis using o by (cases x) (simp_all add: setstat_size_def)
qed

lemma setstat_quiet: "quiet w (snd (setstat os B m r w))"
  using setstat_attrs_quiet adds_trans [OF setstat_attrs_quiet setstat_size_quiet]
  by (simp add: setstat_def Let_def split: option.split)

lemma filecmd_quiet: "quiet w (snd (filecmd os B m r w))"
  by (simp add: filecmd_def ro_snd setstat_quiet)

lemma serve_quiet: "quiet w (serve_op os B m x w)"
  by (cases x) (simp_all add: fileread_quiet filewrite_quiet open_file_quiet_any filecmd_quiet)

lemma serves_quietly: "quiet w (serve_ops os B m ops w)"
  by (rule adds_serve_ops) (rule serve_quiet)

end

end
