(* ===== verification/Share_Access.thy ===== *)
theory Share_Access
  imports Share_Handlers
begin

text \<open>
  What the three share modes guarantee: the access properties of the SFTP handlers of
  \<open>core/engine/fileshare/handlers.go\<close> on the two backends of \<open>backend.go\<close>.
\<close>

section \<open>Every call of a directory share stays in its root\<close>

text \<open>
  The call is made on the given root with paths inside it; the target text of a symlink is not
  a path the share opens. Truncation and closing act on a file opened before.
\<close>

fun in_root :: "'r \<Rightarrow> ('h, 'r) oscall \<Rightarrow> bool" where
  "in_root rt (OpenIn r p) = (r = rt \<and> inside p)"
| "in_root rt (OpenFileIn r p fl perm) = (r = rt \<and> inside p)"
| "in_root rt (MkdirIn r p perm) = (r = rt \<and> inside p)"
| "in_root rt (RemoveIn r p) = (r = rt \<and> inside p)"
| "in_root rt (RenameIn r p q) = (r = rt \<and> inside p \<and> inside q)"
| "in_root rt (SymlinkIn r t p) = (r = rt \<and> inside p)"
| "in_root rt (LinkIn r p q) = (r = rt \<and> inside p \<and> inside q)"
| "in_root rt (ChmodIn r p md) = (r = rt \<and> inside p)"
| "in_root rt (ChtimesIn r p a t) = (r = rt \<and> inside p)"
| "in_root rt (TruncateFile h n) = True"
| "in_root rt (CloseFile h) = True"
| "in_root rt _ = False"

text \<open>What a drop box may ask the system for.\<close>

fun drop_call :: "'r \<Rightarrow> ('h, 'r) oscall \<Rightarrow> bool" where
  "drop_call rt (OpenFileIn r p fl perm) = (r = rt \<and> inside p \<and> fl AND O_WRONLY \<noteq> 0 \<and> fl AND O_RDWR = 0)"
| "drop_call rt (MkdirIn r p perm) = (r = rt \<and> inside p)"
| "drop_call rt (ChmodIn r p md) = (r = rt \<and> inside p)"
| "drop_call rt (ChtimesIn r p a t) = (r = rt \<and> inside p)"
| "drop_call rt _ = False"

lemma fileread_adds:
  assumes "\<And>x w'. bOpen B (rel (rFilepath r)) w = (x, w') \<Longrightarrow> adds P w w'" and "\<And>f. P (CloseFile f)"
  shows "adds P w (snd (fileread os B m r w))"
proof (cases "can_read m")
  case True
  obtain x w1 where o: "bOpen B (rel (rFilepath r)) w = (x, w1)" by (metis surj_pair)
  have q: "adds P w w1" using assms(1) [OF o] .
  have "adds P w (snd (traced (CloseFile f) (file_close os f) w1))" for f
    using q by (rule adds_trans) (simp add: assms(2))
  then show ?thesis
    using True o q by (simp add: fileread_def split: sum.split)
qed (simp add: fileread_def)

lemma case_snd_adds:
  "adds P w (snd x) \<Longrightarrow> adds P w (snd (case x of (Inl e, w) \<Rightarrow> (Inl (F e), w) | (Inr f, w) \<Rightarrow> (Inr (G f), w)))"
  by (auto split: prod.split sum.split)

lemma case_snd_adds_id:
  "adds P w (snd x) \<Longrightarrow> adds P w (snd (case x of (Inl e, w) \<Rightarrow> (Inl (F e), w) | (Inr f, w) \<Rightarrow> (Inr f, w)))"
  by (auto split: prod.split sum.split)

lemma write_oflag_bits:
  "write_oflag fl AND O_CREATE \<noteq> 0 \<longleftrightarrow> pfCreat fl" "write_oflag fl AND O_TRUNC \<noteq> 0 \<longleftrightarrow> pfTrunc fl"
  "write_oflag fl AND O_EXCL \<noteq> 0 \<longleftrightarrow> pfExcl fl" "write_oflag fl AND O_APPEND \<noteq> 0 \<longleftrightarrow> pfAppend fl"
  "write_oflag fl AND O_RDWR \<noteq> 0 \<longleftrightarrow> pfRead fl" "write_oflag fl AND O_WRONLY \<noteq> 0 \<longleftrightarrow> \<not> pfRead fl"
  by (simp_all add: write_oflag_def oflag_defs bit.conj_disj_distrib2 Let_def)

lemma setstat_attrs_adds:
  assumes "\<And>w md. adds P w (snd (bChmod B (rel (rFilepath r)) md w))"
    and "\<And>w a t. adds P w (snd (bChtimes B (rel (rFilepath r)) a t w))"
  shows "adds P w (setstat_attrs B r a w)"
  using assms adds_trans [OF assms] by (simp add: setstat_attrs_def Let_def)

lemma setstat_size_adds:
  assumes "\<And>w x w'. bOpenFile B (rel (rFilepath r)) O_WRONLY 0 w = (x, w') \<Longrightarrow> adds P w w'"
    and t: "\<And>f n. P (TruncateFile f n)" "\<And>f. P (CloseFile f)"
  shows "adds P w (setstat_size os B r a w)"
proof -
  obtain x w1 where o: "bOpenFile B (rel (rFilepath r)) O_WRONLY 0 w = (x, w1)" by (metis surj_pair)
  have 1: "adds P w w1" using assms(1) [OF o] .
  let ?n = "sint (aSize a)"
  have 2: "adds P w (snd (traced (TruncateFile f ?n) (file_truncate os f ?n) w1))" for f
    by (rule adds_trans [OF 1]) (simp add: t)
  have "adds P w (snd (traced (CloseFile f) (file_close os f)
      (snd (traced (TruncateFile f ?n) (file_truncate os f ?n) w1))))" for f
    by (rule adds_trans [OF 2 [of f]]) (simp add: t)
  then show ?thesis using o 1 by (simp add: setstat_size_def split: sum.split)
qed

lemma setstat_adds:
  assumes "\<And>w. adds P w (setstat_attrs B r a w)"
    and "\<And>w. m \<noteq> WriteOnly \<Longrightarrow> adds P w (setstat_size os B r a w)"
    and "rAttrs r = Some a"
  shows "adds P w (snd (setstat os B m r w))"
  using assms adds_trans [OF assms(1) assms(2)] by (simp add: setstat_def Let_def)

lemma setstat_none: "rAttrs r = None \<Longrightarrow> adds P w (snd (setstat os B m r w))"
  by (simp add: setstat_def)

lemma dir_serve_in_root: "adds (in_root rt) w (serve_op os (dir_backend os rt) m x w)"
proof (cases x)
  case (OpGet r)
  then show ?thesis
    by (simp, intro fileread_adds) (auto simp: dir_backend_def rel_inside elim!: adds_traced_eq [rotated])
next
  case (OpPut r)
  then show ?thesis
    by (auto simp: filewrite_def dir_backend_def rel_inside intro!: case_snd_adds)
next
  case (OpOpen r)
  then show ?thesis
    by (auto simp: open_file_def dir_backend_def rel_inside intro!: case_snd_adds_id)
next
  case (OpCmd r)
  have "adds (in_root rt) w (snd (setstat os (dir_backend os rt) m r w))"
  proof (cases "rAttrs r")
    case (Some a)
    show ?thesis
      by (rule setstat_adds [OF setstat_attrs_adds setstat_size_adds Some])
        (auto simp: dir_backend_def rel_inside elim!: adds_traced_eq [rotated])
  qed (rule setstat_none)
  with OpCmd show ?thesis
    by (simp add: filecmd_def map_err_opt_def dir_backend_def rel_inside)
next
  case (OpList r)
  then show ?thesis by simp
qed

fun put_without_read :: "sftp_op \<Rightarrow> bool" where
  "put_without_read (OpPut r) = (\<not> pfRead (rPflags r))"
| "put_without_read _ = True"

lemma dir_serve_drop:
  assumes "put_without_read x"
  shows "adds (drop_call rt) w (serve_op os (dir_backend os rt) WriteOnly x w)"
proof (cases x)
  case (OpPut r)
  with assms show ?thesis
    using write_oflag_bits(5,6) [of "rPflags r"]
    by (auto simp: filewrite_def dir_backend_def rel_inside intro!: case_snd_adds)
next
  case (OpCmd r)
  have "adds (drop_call rt) w (snd (setstat os (dir_backend os rt) WriteOnly r w))"
  proof (cases "rAttrs r")
    case (Some a)
    show ?thesis
      by (rule setstat_adds [OF setstat_attrs_adds _ Some]) (simp_all add: dir_backend_def rel_inside)
  qed (rule setstat_none)
  with OpCmd show ?thesis
    by (simp add: filecmd_def map_err_opt_def dir_backend_def rel_inside)
qed (simp_all add: fileread_def open_file_def)

section \<open>Properties\<close>

text \<open>
  C3. A directory shared read-only is never changed: whatever requests a client sends, in any
  order, the only system calls made are opens for reading and closes.
\<close>

theorem readonly_share_never_writes:
  "\<exists>cs. snd (serve_ops os (dir_backend os rt) ReadOnly ops w) = snd w @ cs \<and>
     list_all (\<lambda>c. \<not> writes c) cs"
  using dir.readonly_mode_serves_quietly [of w os os rt ops]
  by (auto simp: list_all_iff dest: addsD)

text \<open>
  A picked set of files and folders is never changed, in whatever mode the server runs:
  none of its operations makes a system call that could write.
\<close>

lemma picked_share_never_writes:
  "\<exists>cs. snd (serve_ops os (paths_share os b) m ops w) = snd w @ cs \<and> list_all (\<lambda>c. \<not> writes c) cs"
  using picked.serves_quietly [of w os os b m ops] by (auto simp: list_all_iff dest: addsD)


text \<open>
  C7. A drop box (write-only share) gives nothing back and removes nothing: as long as uploads
  do not ask for reading (the SFTP server hands such opens to \<open>OpenFile\<close>), its calls only open
  files for writing only, make directories and set modes and times; and reading, opening for
  both, listing, reading links, removing, renaming and linking are all refused.
\<close>

theorem drop_box_gives_nothing_back:
  assumes "\<forall>x \<in> set ops. put_without_read x"
  shows "(\<exists>cs. snd (serve_ops os (dir_backend os rt) WriteOnly ops w) = snd w @ cs \<and> list_all (drop_call rt) cs) \<and>
    fileread os B WriteOnly r v = (Inl ErrSftpPermissionDenied, v) \<and>
    open_file B WriteOnly r v = (Inl ErrSftpPermissionDenied, v) \<and>
    (rMethod r \<in> {''List'', ''Readlink''} \<longrightarrow> filelist B WriteOnly r v = Inl ErrSftpPermissionDenied) \<and>
    (rMethod r \<in> {''Rename'', ''PosixRename'', ''Rmdir'', ''Remove'', ''Symlink'', ''Link''} \<longrightarrow>
       filecmd os B WriteOnly r v = (Some ErrSftpPermissionDenied, v))"
proof -
  have "adds (drop_call rt) w (serve_ops os (dir_backend os rt) WriteOnly ops w)"
    by (rule adds_serve_ops, rule dir_serve_drop) (rule assms [rule_format])
  then have t: "\<exists>cs. snd (serve_ops os (dir_backend os rt) WriteOnly ops w) = snd w @ cs \<and> list_all (drop_call rt) cs"
    by (simp add: list_all_iff adds_def)
  have l: "rMethod r \<in> {''List'', ''Readlink''} \<Longrightarrow> filelist B WriteOnly r v = Inl ErrSftpPermissionDenied"
    by (elim insertE emptyE) (simp_all add: filelist_def)
  have c: "rMethod r \<in> {''Rename'', ''PosixRename'', ''Rmdir'', ''Remove'', ''Symlink'', ''Link''} \<Longrightarrow>
      filecmd os B WriteOnly r v = (Some ErrSftpPermissionDenied, v)"
    by (elim insertE emptyE) (simp_all add: filecmd_def)
  show ?thesis
    by (intro conjI impI t l c) (simp_all add: fileread_def open_file_def)
qed

definition plain_request :: "string \<Rightarrow> string \<Rightarrow> sftp_request" where
  "plain_request meth p =
     \<lparr>rMethod = meth, rFilepath = p, rTarget = [],
      rPflags = \<lparr>pfRead = False, pfWrite = True, pfAppend = False, pfCreat = True, pfTrunc = True, pfExcl = False\<rparr>,
      rAttrFlags = \<lparr>afSize = False, afPermissions = False, afAcmodtime = False\<rparr>, rAttrs = None\<rparr>"

theorem drop_box_gives_nothing_back_witness:
  "put_without_read (OpPut (plain_request ''Put'' ''/a'')) \<and>
   filecmd mem_os (dir_backend mem_os ''/s'') WriteOnly (plain_request ''Remove'' ''/a'') (demo_mem, []) =
     (Some ErrSftpPermissionDenied, (demo_mem, []))"
  using drop_box_gives_nothing_back [of "[OpPut (plain_request ''Put'' ''/a'')]" mem_os "''/s''" "(demo_mem, [])"
      "dir_backend mem_os ''/s''" "plain_request ''Remove'' ''/a''" "(demo_mem, [])"]
  by (simp add: plain_request_def)

lemma rel_a: "rel ''/a'' = ''a''"
proof -
  have "trim_space ''/a'' = ''/a''" by (rule trim_space_id) (simp_all add: space_runes_def)
  then show ?thesis by (simp add: rel_elems)
qed

text \<open>
  A drop box does let a client empty a file that is already there: an upload to the name of
  an existing file truncates it, even in write-only mode.
\<close>

lemma drop_box_overwrites:
  "map_of demo_mem ''/s/a'' = Some (Some [1, 2, 3]) \<and>
   map_of (fst (snd (filewrite (dir_backend mem_os ''/s'') WriteOnly (plain_request ''Put'' ''/a'') (demo_mem, []))))
     ''/s/a'' = Some (Some [])"
proof -
  have o: "write_oflag (rPflags (plain_request ''Put'' ''/a'')) AND O_CREATE \<noteq> 0"
    "write_oflag (rPflags (plain_request ''Put'' ''/a'')) AND O_EXCL = 0"
    "write_oflag (rPflags (plain_request ''Put'' ''/a'')) AND O_TRUNC \<noteq> 0"
    using write_oflag_bits [of "rPflags (plain_request ''Put'' ''/a'')"]
    by (simp_all add: plain_request_def)
  have m: "map_of demo_mem ''/s/a'' = Some (Some [1, 2, 3])" by (simp add: demo_mem_def)
  show ?thesis
    using o m
    by (simp add: filewrite_def dir_backend_def mem_os_def traced_def mem_open_file_def mem_at_def
        mem_set_def rel_a plain_request_def)
qed

text \<open>
  An upload opens the file with exactly the requested options: create, truncate, exclusive
  and append bits are set just when the client asked for them, read access only with \<open>Read\<close>.
\<close>

lemma write_flags_exact:
  "(write_oflag fl AND O_CREATE \<noteq> 0) = pfCreat fl \<and> (write_oflag fl AND O_TRUNC \<noteq> 0) = pfTrunc fl \<and>
   (write_oflag fl AND O_EXCL \<noteq> 0) = pfExcl fl \<and> (write_oflag fl AND O_APPEND \<noteq> 0) = pfAppend fl \<and>
   write_oflag fl AND (O_WRONLY OR O_RDWR) = (if pfRead fl then O_RDWR else O_WRONLY)"
  by (cases "pfRead fl"; cases "pfCreat fl"; cases "pfTrunc fl"; cases "pfExcl fl"; cases "pfAppend fl")
    (simp_all add: write_oflag_def oflag_defs)

text \<open>
  Setting attributes never fails an upload: wherever writing is allowed, \<open>Setstat\<close> answers
  success whatever the system calls return; where it is not, nothing is called at all.
\<close>

lemma setstat_never_fails:
  "filecmd os B m (r\<lparr>rMethod := ''Setstat''\<rparr>) w =
     (if m = ReadOnly then (Some ErrSftpPermissionDenied, w)
      else (None, snd (setstat os B m (r\<lparr>rMethod := ''Setstat''\<rparr>) w)))"
proof -
  have "fst (setstat os B m r' w) = None" for r'
    by (simp add: setstat_def Let_def split: option.split)
  then show ?thesis
    by (cases m) (simp_all add: filecmd_def prod_eq_iff)
qed

text \<open>
  A \<open>Symlink\<close> request makes a link at its \<open>Filepath\<close> that points to its \<open>Target\<close>, and a
  \<open>Link\<close> request makes \<open>Filepath\<close> a second name of \<open>Target\<close>.
\<close>

lemma symlink_argument_order:
  "snd (snd (filecmd os (dir_backend os rt) ReadWrite (r\<lparr>rMethod := ''Symlink''\<rparr>) w)) =
     snd w @ [SymlinkIn rt (rTarget r) (rel (rFilepath r))] \<and>
   snd (snd (filecmd os (dir_backend os rt) ReadWrite (r\<lparr>rMethod := ''Link''\<rparr>) w)) =
     snd w @ [LinkIn rt (rel (rTarget r)) (rel (rFilepath r))]"
  by (simp add: filecmd_def map_err_opt_def dir_backend_def)

section \<open>Listing in pages\<close>

text \<open>The SFTP server's loop over \<open>ListAt\<close>: pages of \<open>n\<close> until EOF.\<close>

fun list_pages :: "nat \<Rightarrow> 'a list \<Rightarrow> nat \<Rightarrow> int \<Rightarrow> 'a list option" where
  "list_pages 0 l n off = None"
| "list_pages (Suc fuel) l n off =
     (case list_at l n off of
        Inl e \<Rightarrow> None
      | Inr (c, Some e) \<Rightarrow> Some c
      | Inr (c, None) \<Rightarrow> map_option ((@) c) (list_pages fuel l n (off + int (length c))))"

lemma list_pages_from:
  assumes "0 < n" "k \<le> length l" "length l - k < fuel"
  shows "list_pages fuel l n (int k) = Some (drop k l)"
  using assms
proof (induction fuel arbitrary: k)
  case (Suc fuel)
  show ?case
  proof (cases "k + n \<le> length l")
    case True
    have "list_pages fuel l n (int (k + n)) = Some (drop (k + n) l)"
      by (rule Suc.IH) (use Suc.prems True in auto)
    moreover have "drop k l = take n (drop k l) @ drop (k + n) l"
      by (metis add.commute append_take_drop_id drop_drop)
    ultimately show ?thesis
      using True Suc.prems by (simp add: list_at_def add.commute)
  next
    case False
    then have "length l - k < n" using Suc.prems by arith
    then show ?thesis using Suc.prems by (simp add: list_at_def)
  qed
qed simp

text \<open>
  Reading a listing page by page with any buffer size terminates and returns every entry
  exactly once, in order.
\<close>

lemma listing_pages_complete:
  assumes "0 < n"
  shows "list_pages (length l + 1) l n 0 = Some l"
  using list_pages_from [OF assms, of 0 l "length l + 1"] by simp

theorem listing_pages_complete_witness:
  "list_pages (length [10, 20, 30::nat] + 1) [10, 20, 30::nat] 2 0 = Some [10, 20, 30]"
  by (rule listing_pages_complete) simp

end
