(* ===== verification/Share_Server.thy ===== *)
theory Share_Server
  imports Share_Handlers
begin

text \<open>
  The SSH front of a share (\<open>core/engine/fileshare/server.go\<close>): the name in a subsystem request,
  the requests of one session, and the connections that \<open>Server\<close> keeps track of. The SSH
  transport itself (golang.org/x/crypto/ssh) is outside; requests and connections are what it
  delivers.
\<close>

section \<open>Subsystem names\<close>

text \<open>Go's conversion to an \<open>int\<close> of \<open>w\<close> bits, 32 or 64.\<close>

definition go_int :: "nat \<Rightarrow> nat \<Rightarrow> int" where
  "go_int w n = (let m = n mod 2 ^ w in if m < 2 ^ (w - 1) then int m else int m - 2 ^ w)"

text \<open>\<open>binary.BigEndian.Uint32\<close> of the first four bytes.\<close>

definition be_uint32 :: "8 word list \<Rightarrow> 32 word" where
  "be_uint32 bs = foldl (\<lambda>n b. 256 * n + ucast b) 0 (take 4 bs)"

text \<open>
  \<open>spare\<close> is what follows the payload in its buffer: slicing is bounded by the capacity, not the
  length. \<open>4 + n\<close> is computed in 32 bits.
\<close>

definition subsystem_name :: "nat \<Rightarrow> 8 word list \<Rightarrow> 8 word list \<Rightarrow> 8 word list res" where
  "subsystem_name w payload spare =
     (if length payload < 4 then Inr []
      else let n = be_uint32 payload; hi = unat (4 + n)
           in if int (length payload) - 4 < go_int w (unat n) then Inr []
              else if hi < 4 \<or> length (payload @ spare) < hi
              then Inl (ErrPanic ''slice bounds out of range'')
              else Inr (take (hi - 4) (drop 4 (payload @ spare))))"

text \<open>The wire format of an SSH string.\<close>

definition be_bytes :: "nat \<Rightarrow> 8 word list" where
  "be_bytes n = [of_nat (n div 2 ^ 24), of_nat (n div 2 ^ 16), of_nat (n div 2 ^ 8), of_nat n]"

definition ssh_string :: "8 word list \<Rightarrow> 8 word list" where
  "ssh_string s = be_bytes (length s) @ s"

section \<open>The requests of a session\<close>

definition sftp_name :: "8 word list" where
  "sftp_name = [0x73, 0x66, 0x74, 0x70]"

text \<open>
  \<open>serveSession\<close>: the replies to the requests, and whether an SFTP server was run. It returns
  after that, however the SFTP session ends.
\<close>

fun serve_session :: "nat \<Rightarrow> 8 word list \<Rightarrow> (string \<times> 8 word list) list \<Rightarrow> (bool list \<times> bool) res" where
  "serve_session w spare [] = Inr ([], False)"
| "serve_session w spare ((t, payload) # reqs) =
     (let continue_with = (\<lambda>ok. case serve_session w spare reqs of
            Inl err \<Rightarrow> Inl err
          | Inr (replies, served) \<Rightarrow> Inr (ok # replies, served))
      in if t = ''subsystem''
         then case subsystem_name w payload spare of
                Inl err \<Rightarrow> Inl err
              | Inr name \<Rightarrow> if name \<noteq> sftp_name then continue_with False else Inr ([True], True)
         else if t = ''env'' \<or> t = ''pty-req'' \<or> t = ''window-change'' then continue_with True
         else continue_with False)"

section \<open>The channels of a connection\<close>

text \<open>A channel that the client opens: its type, the error of accepting it, its requests.\<close>

record ssh_channel =
  chType :: string
  chAccept :: "gerror option"
  chRequests :: "(string \<times> 8 word list) list"

datatype channel_end = ChRejected | ChNotAccepted | ChSession "(bool list \<times> bool) res"

definition serve_channel :: "nat \<Rightarrow> 8 word list \<Rightarrow> ssh_channel \<Rightarrow> channel_end" where
  "serve_channel w spare ch =
     (if chType ch \<noteq> ''session'' then ChRejected
      else if chAccept ch \<noteq> None then ChNotAccepted
      else ChSession (serve_session w spare (chRequests ch)))"

text \<open>The body of \<open>Handler\<close>'s function: the handshake, then the channels as they come.\<close>

definition serve_conn :: "nat \<Rightarrow> 8 word list \<Rightarrow> gerror option \<Rightarrow> ssh_channel list \<Rightarrow> channel_end list" where
  "serve_conn w spare handshake chans =
     (case handshake of Some err \<Rightarrow> [] | None \<Rightarrow> map (serve_channel w spare) chans)"

section \<open>Connections\<close>

text \<open>\<open>shClosed\<close> are the connections that have been closed, \<open>shBackend\<close> counts \<open>s.fs.Close()\<close>.\<close>

record 'c share_server =
  shConns :: "'c set"
  shDone :: bool
  shClosed :: "'c set"
  shBackend :: nat

definition new_share_server :: "'c share_server" where
  "new_share_server = \<lparr>shConns = {}, shDone = False, shClosed = {}, shBackend = 0\<rparr>"

definition track :: "'c \<Rightarrow> 'c share_server \<Rightarrow> bool \<times> 'c share_server" where
  "track c s = (if shDone s then (False, s) else (True, s\<lparr>shConns := insert c (shConns s)\<rparr>))"

definition untrack :: "'c \<Rightarrow> 'c share_server \<Rightarrow> 'c share_server" where
  "untrack c s = s\<lparr>shConns := shConns s - {c}\<rparr>"

definition close_conn :: "'c \<Rightarrow> 'c share_server \<Rightarrow> 'c share_server" where
  "close_conn c s = s\<lparr>shClosed := insert c (shClosed s)\<rparr>"

text \<open>The beginning and the deferred end of \<open>Handler\<close>'s function for one connection.\<close>

definition handler_begin :: "'c \<Rightarrow> 'c share_server \<Rightarrow> 'c share_server" where
  "handler_begin c s = (case track c s of (True, s) \<Rightarrow> s | (False, s) \<Rightarrow> close_conn c s)"

definition handler_end :: "'c \<Rightarrow> 'c share_server \<Rightarrow> 'c share_server" where
  "handler_end c s = untrack c (close_conn c s)"

definition close_share :: "'c share_server \<Rightarrow> 'c share_server" where
  "close_share s =
     (if shDone s then s
      else s\<lparr>shDone := True, shClosed := shClosed s \<union> shConns s, shBackend := shBackend s + 1\<rparr>)"

datatype 'c share_op = HandlerBegin 'c | HandlerEnd 'c | CloseShare

fun share_do :: "'c share_op \<Rightarrow> 'c share_server \<Rightarrow> 'c share_server" where
  "share_do (HandlerBegin c) = handler_begin c"
| "share_do (HandlerEnd c) = handler_end c"
| "share_do CloseShare = close_share"

definition share_run :: "'c share_op list \<Rightarrow> 'c share_server" where
  "share_run ops = fold share_do ops new_share_server"

section \<open>Lemmas\<close>

lemma go_int_64 [simp]: "n < 2 ^ 32 \<Longrightarrow> go_int 64 n = int n"
  by (simp add: go_int_def)

lemma unat_lt_32 [simp]: "unat (n :: 32 word) < 2 ^ 32"
  using unsigned_less [where ?'a = nat, of n] by simp

lemma be_split:
  fixes n :: nat
  assumes "n < 2 ^ 32"
  shows "256 * (256 * (256 * (n div 2 ^ 24 mod 256) + n div 2 ^ 16 mod 256) + n div 2 ^ 8 mod 256)
      + n mod 256 = n"
proof -
  have d: "n div 2 ^ 8 = n div 256" "n div 2 ^ 16 = n div 256 div 256"
    "n div 2 ^ 24 = n div 256 div 256 div 256"
    by (simp_all flip: div_mult2_eq)
  have "n div 256 div 256 div 256 < 256"
    using assms by (simp flip: div_mult2_eq add: less_mult_imp_div_less)
  then show ?thesis by (simp only: d mod_less mult_div_mod_eq)
qed

lemma be_uint32_bytes: 
  assumes "n < 2 ^ 32"
  shows "be_uint32 (be_bytes n @ s) = of_nat n"
proof -
  have byte: "(ucast (of_nat x :: 8 word) :: 32 word) = of_nat (x mod 256)" for x
    by (simp add: unsigned_of_nat take_bit_eq_mod)
  have "of_nat n = (of_nat (256 * (256 * (256 * (n div 2 ^ 24 mod 256) + n div 2 ^ 16 mod 256)
      + n div 2 ^ 8 mod 256) + n mod 256) :: 32 word)"
    by (simp only: be_split [OF assms])
  also have "\<dots> = be_uint32 (be_bytes n @ s)"
    unfolding be_uint32_def be_bytes_def by (simp add: byte)
  finally show ?thesis by simp
qed


lemma unat_4_plus: "unat (4 + n :: 32 word) = (4 + unat n) mod 2 ^ 32"
  by (simp add: unat_word_ariths)

lemma unat_int_32: "int (unat (n :: 32 word)) < 2 ^ 32"
  using unat_lt_32 [of n] by (metis of_nat_less_iff of_nat_numeral of_nat_power)

lemma length_check:
  "int len - 4 < go_int 64 (unat (n :: 32 word)) \<longleftrightarrow> len < 4 + unat n"
proof -
  have "go_int 64 (unat n) = int (unat n)" by (rule go_int_64) (rule unat_lt_32)
  then show ?thesis by linarith
qed

lemma subsystem_name_in_range:
  assumes "length payload < 2 ^ 32"
  shows "subsystem_name 64 payload spare =
    Inr (if length payload < 4 + unat (be_uint32 payload) then []
         else take (unat (be_uint32 payload)) (drop 4 payload))"
proof (cases "length payload < 4 + unat (be_uint32 payload)")
  case True
  then show ?thesis by (simp add: subsystem_name_def Let_def length_check)
next
  case False
  then have "unat (4 + be_uint32 payload) = 4 + unat (be_uint32 payload)"
    using assms by (simp add: unat_4_plus)
  with False show ?thesis by (simp add: subsystem_name_def Let_def length_check)
qed

lemma be_bytes_length [simp]: "length (be_bytes n) = 4"
  by (simp add: be_bytes_def)

lemma share_run_snoc: "share_run (ops @ [x]) = share_do x (share_run ops)"
  by (simp add: share_run_def)

text \<open>Every connection that a handler got is tracked or closed, and all are closed after \<open>Close\<close>.\<close>

lemma share_run_inv:
  "(shDone (share_run ops) \<longleftrightarrow> CloseShare \<in> set ops) \<and>
   {c. HandlerBegin c \<in> set ops} \<subseteq> shConns (share_run ops) \<union> shClosed (share_run ops) \<and>
   (shDone (share_run ops) \<longrightarrow> shConns (share_run ops) \<subseteq> shClosed (share_run ops)) \<and>
   shBackend (share_run ops) = (if CloseShare \<in> set ops then 1 else 0)"
proof (induction ops rule: rev_induct)
  case Nil
  show ?case by (simp add: share_run_def new_share_server_def)
next
  case (snoc x ops)
  then show ?case
    by (cases x) (auto simp: share_run_snoc handler_begin_def handler_end_def track_def untrack_def
        close_conn_def close_share_def)
qed

section \<open>Properties\<close>

text \<open>
  C21. On a 64-bit platform the length field of a subsystem request cannot make the server read
  past the request or panic: for every payload of less than 4 GiB the name is the announced
  number of bytes after the length, or empty when there are not that many, whatever lies behind
  the payload in its buffer. A well-formed name is read back exactly.
\<close>

theorem subsystem_name_safe:
  assumes "length payload < 2 ^ 32" "length name < 2 ^ 32 - 4"
  shows "subsystem_name 64 payload spare =
      Inr (if length payload < 4 + unat (be_uint32 payload) then []
           else take (unat (be_uint32 payload)) (drop 4 payload)) \<and>
    subsystem_name 64 (ssh_string name) spare = Inr name"
proof -
  have "length (ssh_string name) < 2 ^ 32" using assms(2) by (simp add: ssh_string_def)
  moreover have "unat (be_uint32 (ssh_string name)) = length name"
    using assms(2) be_uint32_bytes [of "length name" name]
    by (simp add: ssh_string_def unat_of_nat)
  ultimately show ?thesis
    using subsystem_name_in_range [OF assms(1)] subsystem_name_in_range [of "ssh_string name" spare]
    by (simp add: ssh_string_def)
qed

theorem subsystem_name_safe_witness:
  "subsystem_name 64 [0xFF, 0xFF, 0xFF, 0xFF, 1] [2, 3] = Inr [] \<and>
   subsystem_name 64 (ssh_string sftp_name) [2, 3] = Inr sftp_name"
  using subsystem_name_safe [of "[0xFF, 0xFF, 0xFF, 0xFF, 1]" sftp_name "[2, 3]"]
  by (simp add: sftp_name_def be_uint32_def)

text \<open>
  On a 32-bit platform (the Android build script has an armeabi-v7a target) the same check is
  defeated: a length field of 2^31 or more becomes a negative \<open>int\<close>, passes the comparison, and the
  slice expression panics, whatever the buffer holds. The panic is in the goroutine of the
  session, where nothing recovers it.
\<close>

lemma subsystem_name_32bit_panics:
  assumes "4 \<le> length payload" "length (payload @ spare) < 2 ^ 31"
    and "2 ^ 31 \<le> unat (be_uint32 payload)"
  shows "subsystem_name 32 payload spare = Inl (ErrPanic ''slice bounds out of range'')"
proof -
  let ?n = "unat (be_uint32 payload)"
  have n: "?n < 2 ^ 32" by (rule unat_lt_32)
  have "int ?n < 2 ^ 32" by (rule unat_int_32)
  then have "go_int 32 ?n < 0"
    using n assms(3) by (simp add: go_int_def Let_def)
  moreover have "unat (4 + be_uint32 payload) < 4 \<or> length (payload @ spare) < unat (4 + be_uint32 payload)"
  proof (cases "4 + ?n < 2 ^ 32")
    case True
    with assms(2,3) show ?thesis by (simp add: unat_4_plus)
  next
    case False
    with n have "(4 + ?n) mod 2 ^ 32 = 4 + ?n - 2 ^ 32" by (simp add: mod_if)
    also have "\<dots> < 4" using n by linarith
    finally show ?thesis by (simp only: unat_4_plus simp_thms)
  qed
  ultimately show ?thesis using assms(1) by (simp add: subsystem_name_def Let_def)
qed

theorem subsystem_name_32bit_panics_witness:
  "subsystem_name 32 [0x80, 0, 0, 0] [] = Inl (ErrPanic ''slice bounds out of range'')"
  using subsystem_name_32bit_panics [of "[0x80, 0, 0, 0]" "[]"] by (simp add: be_uint32_def)

lemma serve_session_spec:
  "list_all (\<lambda>(t, p). length p < 2 ^ 32) reqs \<Longrightarrow>
   \<exists>n replies served. serve_session 64 spare reqs = Inr (replies, served) \<and>
     replies = map (\<lambda>(t, p). t = ''env'' \<or> t = ''pty-req'' \<or> t = ''window-change'') (take n reqs)
       @ (if served then [True] else []) \<and>
     (if served then n < length reqs \<and> fst (reqs ! n) = ''subsystem'' \<and>
          subsystem_name 64 (snd (reqs ! n)) spare = Inr sftp_name
      else n = length reqs)"
proof (induction reqs)
  case Nil
  show ?case by auto
next
  case (Cons r reqs)
  obtain t p where r: "r = (t, p)" by (cases r)
  obtain n replies served where IH: "serve_session 64 spare reqs = Inr (replies, served)"
     "replies = map (\<lambda>(t, p). t = ''env'' \<or> t = ''pty-req'' \<or> t = ''window-change'') (take n reqs)
       @ (if served then [True] else [])"
     "if served then n < length reqs \<and> fst (reqs ! n) = ''subsystem'' \<and>
          subsystem_name 64 (snd (reqs ! n)) spare = Inr sftp_name
      else n = length reqs"
    using Cons by auto
  obtain name where name: "subsystem_name 64 p spare = Inr name"
    using subsystem_name_in_range [of p spare] Cons.prems r by auto
  show ?case
  proof (cases "t = ''subsystem'' \<and> name = sftp_name")
    case True
    then show ?thesis using name r by (intro exI [of _ 0]) auto
  next
    case False
    then show ?thesis using name r IH by (intro exI [of _ "Suc n"]) auto
  qed
qed

text \<open>
  C32. The share's SSH server offers SFTP and nothing else. For a connection whose requests stay
  below 4 GiB, on a 64-bit platform: without a handshake there is nothing; a channel that is not a
  session is rejected; a session never panics, its requests are answered in order up to the one that
  starts SFTP, and the answer is yes exactly for \<open>env\<close>, \<open>pty-req\<close> and \<open>window-change\<close> and for that last
  one, so every shell, exec or other subsystem request is refused.
\<close>

theorem connection_offers_only_sftp:
  assumes "list_all (\<lambda>ch. list_all (\<lambda>(t, p). length p < 2 ^ 32) (chRequests ch)) chans"
  shows "list_all2 (\<lambda>ch out.
      case out of
        ChRejected \<Rightarrow> chType ch \<noteq> ''session''
      | ChNotAccepted \<Rightarrow> chAccept ch \<noteq> None
      | ChSession res \<Rightarrow> chType ch = ''session'' \<and>
          (\<exists>n replies served. res = Inr (replies, served) \<and>
             replies = map (\<lambda>(t, p). t = ''env'' \<or> t = ''pty-req'' \<or> t = ''window-change'') (take n (chRequests ch))
               @ (if served then [True] else []) \<and>
             (if served then n < length (chRequests ch) \<and> fst (chRequests ch ! n) = ''subsystem'' \<and>
                  subsystem_name 64 (snd (chRequests ch ! n)) spare = Inr sftp_name
              else n = length (chRequests ch))))
    (if handshake = None then chans else []) (serve_conn 64 spare handshake chans)"
proof -
  have "list_all2 (\<lambda>ch out. P ch out) chans (map (serve_channel 64 spare) chans)"
    if "\<And>ch. ch \<in> set chans \<Longrightarrow> P ch (serve_channel 64 spare ch)" for P
    using that by (simp add: list_all2_map2 list_all2_same)
  then show ?thesis
    using assms serve_session_spec [where spare = spare]
    by (cases handshake) (auto simp: serve_conn_def serve_channel_def list_all_iff)
qed

theorem connection_offers_only_sftp_witness:
  "serve_conn 64 [] None
     [\<lparr>chType = ''session'', chAccept = None,
       chRequests = [(''pty-req'', []), (''shell'', []), (''subsystem'', ssh_string sftp_name)]\<rparr>,
      \<lparr>chType = ''direct-tcpip'', chAccept = None, chRequests = []\<rparr>] =
     [ChSession (Inr ([True, False, True], True)), ChRejected]"
  using connection_offers_only_sftp
    [of "[\<lparr>chType = ''session'', chAccept = None,
       chRequests = [(''pty-req'', []), (''shell'', []), (''subsystem'', ssh_string sftp_name)]\<rparr>,
      \<lparr>chType = ''direct-tcpip'', chAccept = None, chRequests = []\<rparr>]" "[]" None]
  by (simp add: serve_conn_def serve_channel_def subsystem_name_def ssh_string_def be_bytes_def
      be_uint32_def sftp_name_def go_int_def)

text \<open>
  C31. Closing a share: in every order of connections coming, ending and calls of \<open>Close\<close>, once
  \<open>Close\<close> has run every connection ever handed to the share, also afterwards, is closed, and the
  backend is closed exactly once however often \<open>Close\<close> is called.
\<close>

theorem share_close_complete:
  "if CloseShare \<in> set ops
   then {c. HandlerBegin c \<in> set ops} \<subseteq> shClosed (share_run ops) \<and> shBackend (share_run ops) = 1
   else shBackend (share_run ops) = 0"
  using share_run_inv [of ops] by auto

end
