(* ===== verification/Share_Front.thy ===== *)
theory Share_Front
  imports Share_Access Share_Server
begin

text \<open>
  The constructors of a share's server (\<open>NewServer\<close>, \<open>NewPathsServer\<close> and \<open>newServer\<close> in
  \<open>core/engine/fileshare/server.go\<close>) and the whole life of a share, from its construction through any
  requests to its end. Making the host key is outside; its two errors are arguments.
\<close>

section \<open>Construction\<close>

text \<open>A server is its backend and its mode here.\<close>

type_synonym ('w, 'h) front = "('w, 'h) backend \<times> mode"

definition new_server ::
  "gerror option \<Rightarrow> gerror option \<Rightarrow> ('w, 'h) backend \<Rightarrow> mode \<Rightarrow> 'w \<Rightarrow> ('w, 'h) front res \<times> 'w"
where
  "new_server key signer B m w =
     (case key of
        Some err \<Rightarrow> (Inl err, snd (bClose B w))
      | None \<Rightarrow>
          (case signer of
             Some err \<Rightarrow> (Inl err, snd (bClose B w))
           | None \<Rightarrow> (Inr (B, m), w)))"

definition new_dir_server ::
  "('o, 'h, 'r) os \<Rightarrow> gerror option \<Rightarrow> gerror option \<Rightarrow> string \<Rightarrow> mode \<Rightarrow> ('o, 'h, 'r) world \<Rightarrow>
     (('o, 'h, 'r) world, 'h) front res \<times> ('o, 'h, 'r) world"
where
  "new_dir_server os key signer dir m w =
     (case traced (OpenRootAt dir) (os_open_root os dir) w of
        (Inl err, w) \<Rightarrow> (Inl err, w)
      | (Inr r, w) \<Rightarrow> new_server key signer (dir_backend os r) m w)"

text \<open>The entries are what \<open>Entries\<close> reports.\<close>

definition new_paths_server ::
  "('o, 'h, 'r) os \<Rightarrow> gerror option \<Rightarrow> gerror option \<Rightarrow> string list \<Rightarrow> ('o, 'h, 'r) world \<Rightarrow>
     ((('o, 'h, 'r) world, 'h) front \<times> share_item list) res \<times> ('o, 'h, 'r) world"
where
  "new_paths_server os key signer ps w =
     (case new_paths_backend os ps w of
        (Inl err, w) \<Rightarrow> (Inl err, w)
      | (Inr b, w) \<Rightarrow>
          (case new_server key signer (paths_share os b) ReadOnly w of
             (Inl err, w) \<Rightarrow> (Inl err, w)
           | (Inr front, w) \<Rightarrow> (Inr (front, pbEntries b), w)))"

section \<open>The life of a share\<close>

definition front_life ::
  "('o, 'h, 'r) os \<Rightarrow> sftp_op list \<Rightarrow> (('o, 'h, 'r) world, 'h) front res \<times> ('o, 'h, 'r) world \<Rightarrow>
     ('o, 'h, 'r) world"
where
  "front_life os ops r =
     (case r of
        (Inl err, w) \<Rightarrow> w
      | (Inr (B, m), w) \<Rightarrow> snd (bClose B (serve_ops os B m ops w)))"

definition paths_life ::
  "('o, 'h, 'r) os \<Rightarrow> gerror option \<Rightarrow> gerror option \<Rightarrow> string list \<Rightarrow> sftp_op list \<Rightarrow>
     ('o, 'h, 'r) world \<Rightarrow> ('o, 'h, 'r) world"
where
  "paths_life os key signer ps ops w =
     (case new_paths_server os key signer ps w of
        (r, w) \<Rightarrow> front_life os ops (map_sum id fst r, w))"

lemma close_roots_quiet: "quiet w (close_roots os rs w)"
proof (induction rs arbitrary: w)
  case (Cons r rs)
  obtain n rt where r: "r = (n, rt)" by (cases r)
  have "quiet w (snd (traced (CloseRoot rt) (root_close os rt) w))" by simp
  also have "quiet \<dots> (close_roots os rs (snd (traced (CloseRoot rt) (root_close os rt) w)))"
    by (rule Cons.IH)
  finally show ?case by (simp add: r)
qed simp

lemma add_paths_quiet: "add_paths os ps b w = (r, w') \<Longrightarrow> quiet w w'"
proof (induction os ps b w arbitrary: r w' rule: add_paths.induct)
  case (1 os b w)
  then show ?case by simp
next
  case (2 os p ps b w)
  show ?case
  proof (cases "os_stat os p (fst w)")
    case (Inl e)
    with 2 show ?thesis using close_roots_quiet [of w os "pbRoots b"] by auto
  next
    case (Inr st)
    show ?thesis
    proof (cases "fiIsDir st")
      case False
      with 2 Inr show ?thesis by (auto simp: Let_def)
    next
      case True
      obtain x w1 where t: "traced (OpenRootAt p) (os_open_root os p) w = (x, w1)" by (metis prod.collapse)
      have q: "quiet w w1" by (rule adds_traced_eq [OF _ t]) simp
      show ?thesis
      proof (cases x)
        case (Inl err)
        with 2 Inr True t have "w' = close_roots os (pbRoots b) w1"
          by (auto simp: Let_def)
        with q close_roots_quiet show ?thesis by (blast intro: adds_trans)
      next
        case x: (Inr rt)
        with 2(1) [OF Inr refl refl True t [symmetric] x] 2(3) Inr True t have "quiet w1 w'"
          by (auto simp: Let_def)
        with q show ?thesis by (rule adds_trans)
      qed
    qed
  qed
qed

lemma paths_close_quiet: "quiet w (snd (bClose (paths_share os b) w))"
  by (simp add: paths_share_def close_roots_quiet)

text \<open>
  C4. A picked set of files and folders is never changed in the whole life of its share: making it,
  whatever fails on the way, serving any requests in any order, and closing it, make no system call
  that could write.
\<close>

theorem picked_share_life:
  "\<exists>cs. snd (paths_life os key signer ps ops w) = snd w @ cs \<and> list_all (\<lambda>c. \<not> writes c) cs"
proof -
  obtain r w1 where n: "new_paths_backend os ps w = (r, w1)" by (metis prod.collapse)
  have q: "quiet w w1"
    using n add_paths_quiet [of os ps empty_paths w]
    by (auto simp: new_paths_backend_def split: prod.splits sum.splits)
  have "quiet w (paths_life os key signer ps ops w)"
  proof (cases r)
    case (Inl err)
    with n q show ?thesis by (simp add: paths_life_def new_paths_server_def front_life_def)
  next
    case (Inr b)
    have "quiet w1 (snd (bClose (paths_share os b) (serve_ops os (paths_share os b) ReadOnly ops w1)))"
      by (rule adds_trans [OF picked.serves_quietly paths_close_quiet])
    then have "quiet w (snd (bClose (paths_share os b) (serve_ops os (paths_share os b) ReadOnly ops w1)))"
      by (rule adds_trans [OF q])
    moreover have "quiet w (snd (bClose (paths_share os b) w1))"
      by (rule adds_trans [OF q paths_close_quiet])
    ultimately show ?thesis using n Inr
      by (simp add: paths_life_def new_paths_server_def front_life_def new_server_def split: option.split)
  qed
  then show ?thesis by (auto simp: list_all_iff dest: addsD)
qed

text \<open>A share of a folder that cannot be completed closes the folder again.\<close>

lemma failed_dir_server_closes:
  assumes "os_open_root os dir s = (Inr r, s')" "key \<noteq> None \<or> signer \<noteq> None"
  shows "isl (fst (new_dir_server os key signer dir m (s, cs))) \<and>
    snd (snd (new_dir_server os key signer dir m (s, cs))) = cs @ [OpenRootAt dir, CloseRoot r]"
  using assms by (auto simp: new_dir_server_def new_server_def traced_def dir_backend_def
      split: option.split prod.split)

end
