(* ===== verification/Session.thy ===== *)
theory Session
  imports Event_Queue
begin

text \<open>
  One session of the engine (\<open>core/engine/session.go\<close>), its operations as functions on the
  session, the shared event queue and the log of what has been closed. Each function is what
  the Go method does when no other goroutine runs; \<open>Session_Steps\<close> has the interleavings.
\<close>

section \<open>State\<close>

datatype kind = KindServer | KindForward | KindSocks | KindSend | KindRecv | KindSSH

fun kind_string :: "kind \<Rightarrow> string" where
  "kind_string KindServer = ''server''"
| "kind_string KindForward = ''forward''"
| "kind_string KindSocks = ''socks''"
| "kind_string KindSend = ''send''"
| "kind_string KindRecv = ''recv''"
| "kind_string KindSSH = ''ssh''"

datatype sstate = StateStarting | StateRunning | StateDone | StateStopped | StateFailed

fun state_string :: "sstate \<Rightarrow> string" where
  "state_string StateStarting = ''starting''"
| "state_string StateRunning = ''running''"
| "state_string StateDone = ''done''"
| "state_string StateStopped = ''stopped''"
| "state_string StateFailed = ''failed''"

text \<open>
  \<open>'c\<close> are the \<open>io.Closer\<close> values a session owns. \<open>sCancelled\<close> says whether its context has
  been cancelled, \<open>sReady\<close> whether the \<open>ready\<close> channel is closed.
\<close>

record 'c session =
  sID :: string
  sKind :: kind
  sCreated :: int
  sCancelled :: bool
  sReady :: bool
  sState :: sstate
  sToken :: string
  sDetail :: string
  sInfo :: "string \<Rightarrow> jval option"
  sClosers :: "'c list"
  sClosed :: bool

definition new_session :: "int \<Rightarrow> string \<Rightarrow> kind \<Rightarrow> 'c session" where
  "new_session now i k =
     \<lparr>sID = i, sKind = k, sCreated = now, sCancelled = False, sReady = False,
      sState = StateStarting, sToken = [], sDetail = [], sInfo = Map.empty, sClosers = [],
      sClosed = False\<rparr>"

text \<open>A session with the engine's queue and the sequence of closers closed so far.\<close>

record 'c sys =
  sesn :: "'c session"
  queue :: event_queue
  closedLog :: "'c list"

section \<open>Operations\<close>

definition terminal :: "sstate \<Rightarrow> bool" where
  "terminal st \<longleftrightarrow> st = StateStopped \<or> st = StateFailed \<or> st = StateDone"

definition active :: "'c session \<Rightarrow> bool" where
  "active s \<longleftrightarrow> sState s = StateStarting \<or> sState s = StateRunning"

definition state_event :: "'c session \<Rightarrow> event" where
  "state_event s =
     [''type'' \<mapsto> JStr ''session_state'', ''session_id'' \<mapsto> JStr (sID s),
      ''kind'' \<mapsto> JStr (kind_string (sKind s)), ''state'' \<mapsto> JStr (state_string (sState s)),
      ''detail'' \<mapsto> JStr (sDetail s)] ++ sInfo s"

definition emit :: "int \<Rightarrow> event \<Rightarrow> 'c sys \<Rightarrow> 'c sys" where
  "emit now ev w = w\<lparr>queue := push now ev (queue w)\<rparr>"

text \<open>Whether \<open>setState\<close> goes through: not a repetition, and no terminal state left.\<close>

definition state_change :: "sstate \<Rightarrow> string \<Rightarrow> 'c session \<Rightarrow> bool" where
  "state_change st d s \<longleftrightarrow> \<not> (sState s = st \<and> sDetail s = d) \<and> \<not> terminal (sState s)"

definition set_state :: "int \<Rightarrow> sstate \<Rightarrow> string \<Rightarrow> 'c sys \<Rightarrow> 'c sys" where
  "set_state now st d w =
     (if state_change st d (sesn w)
      then let s = (sesn w)\<lparr>sState := st, sDetail := d\<rparr>
           in emit now (state_event s) (w\<lparr>sesn := s\<rparr>)
      else w)"

definition set_info :: "string \<Rightarrow> jval \<Rightarrow> 'c sys \<Rightarrow> 'c sys" where
  "set_info k v w = w\<lparr>sesn := (sesn w)\<lparr>sInfo := (sInfo (sesn w))(k \<mapsto> v)\<rparr>\<rparr>"

definition mark_ready :: "'c sys \<Rightarrow> 'c sys" where
  "mark_ready w = w\<lparr>sesn := (sesn w)\<lparr>sReady := True\<rparr>\<rparr>"

text \<open>
  \<open>waitReady\<close>: a select over the ready channel, the context and a timer. Whichever of them can
  proceed may be chosen; the timer is the environment's.
\<close>

definition wait_ready :: "'c session \<Rightarrow> bool \<Rightarrow> gerror option set" where
  "wait_ready s timed_out =
     (if sReady s then {None} else {}) \<union> (if sCancelled s then {Some ErrCanceled} else {}) \<union>
     (if timed_out then {Some (ErrText ''timed out waiting for the tunnel to come up'')} else {})"

definition close_one :: "'c \<Rightarrow> 'c sys \<Rightarrow> 'c sys" where
  "close_one c w = w\<lparr>closedLog := closedLog w @ [c]\<rparr>"

definition add_closer :: "'c \<Rightarrow> 'c sys \<Rightarrow> 'c sys" where
  "add_closer c w =
     (if sClosed (sesn w) then close_one c w
      else w\<lparr>sesn := (sesn w)\<lparr>sClosers := sClosers (sesn w) @ [c]\<rparr>\<rparr>)"

definition cancel :: "'c sys \<Rightarrow> 'c sys" where
  "cancel w = w\<lparr>sesn := (sesn w)\<lparr>sCancelled := True\<rparr>\<rparr>"

definition shutdown :: "'c sys \<Rightarrow> 'c sys" where
  "shutdown w =
     (let w = cancel w in
      if sClosed (sesn w) then w
      else fold close_one (rev (sClosers (sesn w)))
             (w\<lparr>sesn := (sesn w)\<lparr>sClosed := True, sClosers := []\<rparr>\<rparr>))"

definition stop :: "int \<Rightarrow> 'c sys \<Rightarrow> 'c sys" where
  "stop now w = shutdown (set_state now StateStopped [] w)"

text \<open>\<open>msg\<close> is \<open>err.Error()\<close>.\<close>

definition error_event :: "string \<Rightarrow> string \<Rightarrow> string \<Rightarrow> event" where
  "error_event sid code msg =
     [''type'' \<mapsto> JStr ''error'', ''session_id'' \<mapsto> JStr sid, ''code'' \<mapsto> JStr code,
      ''message'' \<mapsto> JStr msg]"

definition fail :: "int \<Rightarrow> string \<Rightarrow> 'c sys \<Rightarrow> 'c sys" where
  "fail now msg w =
     shutdown (set_state now StateFailed msg
       (emit now (error_event (sID (sesn w)) ''session_failed'' msg) w))"

definition token_event :: "string \<Rightarrow> string \<Rightarrow> event" where
  "token_event sid tok =
     [''type'' \<mapsto> JStr ''token_ready'', ''session_id'' \<mapsto> JStr sid, ''token'' \<mapsto> JStr tok]"

definition set_token :: "int \<Rightarrow> string \<Rightarrow> 'c sys \<Rightarrow> 'c sys" where
  "set_token now tok w =
     emit now (token_event (sID (sesn w)) tok) (w\<lparr>sesn := (sesn w)\<lparr>sToken := tok\<rparr>\<rparr>)"

definition log_event :: "string \<Rightarrow> string \<Rightarrow> string \<Rightarrow> farg list \<Rightarrow> event" where
  "log_event sid level fmt args =
     [''type'' \<mapsto> JStr ''log'', ''session_id'' \<mapsto> JStr sid, ''level'' \<mapsto> JStr level,
      ''msg'' \<mapsto> JFmt fmt args]"

definition session_logf :: "int \<Rightarrow> string \<Rightarrow> farg list \<Rightarrow> 'c sys \<Rightarrow> 'c sys" where
  "session_logf now fmt args w = emit now (log_event (sID (sesn w)) ''info'' fmt args) w"

definition snapshot :: "'c session \<Rightarrow> event" where
  "snapshot s =
     (let m = [''session_id'' \<mapsto> JStr (sID s), ''kind'' \<mapsto> JStr (kind_string (sKind s)),
               ''state'' \<mapsto> JStr (state_string (sState s)), ''detail'' \<mapsto> JStr (sDetail s),
               ''created_ms'' \<mapsto> JInt (sCreated s)];
          m = (if sToken s \<noteq> [] then m(''token'' \<mapsto> JStr (sToken s)) else m)
      in m ++ sInfo s)"

section \<open>Frame facts\<close>

lemma emit_simps [simp]:
  "sesn (emit now ev w) = sesn w" "closedLog (emit now ev w) = closedLog w"
  "queue (emit now ev w) = push now ev (queue w)"
  by (simp_all add: emit_def)

lemma close_one_simps [simp]:
  "sesn (close_one c w) = sesn w" "closedLog (close_one c w) = closedLog w @ [c]"
  "queue (close_one c w) = queue w"
  by (simp_all add: close_one_def)

lemma fold_close_one [simp]:
  "sesn (fold close_one cs w) = sesn w" "closedLog (fold close_one cs w) = closedLog w @ cs"
  "queue (fold close_one cs w) = queue w"
  by (induction cs arbitrary: w) simp_all

lemma set_state_simps [simp]:
  "closedLog (set_state now st d w) = closedLog w"
  "sClosers (sesn (set_state now st d w)) = sClosers (sesn w)"
  "sClosed (sesn (set_state now st d w)) = sClosed (sesn w)"
  "sCancelled (sesn (set_state now st d w)) = sCancelled (sesn w)"
  "sID (sesn (set_state now st d w)) = sID (sesn w)"
  "sReady (sesn (set_state now st d w)) = sReady (sesn w)"
  by (simp_all add: set_state_def Let_def)

lemma shutdown_simps [simp]:
  "sState (sesn (shutdown w)) = sState (sesn w)" "sDetail (sesn (shutdown w)) = sDetail (sesn w)"
  "sID (sesn (shutdown w)) = sID (sesn w)" "sInfo (sesn (shutdown w)) = sInfo (sesn w)"
  "sCancelled (sesn (shutdown w))" "sClosed (sesn (shutdown w))" "queue (shutdown w) = queue w"
  by (simp_all add: shutdown_def cancel_def Let_def)

lemma shutdown_closers:
  "closedLog (shutdown w) = closedLog w @ (if sClosed (sesn w) then [] else rev (sClosers (sesn w)))"
  "sClosers (sesn (shutdown w)) = (if sClosed (sesn w) then sClosers (sesn w) else [])"
  by (simp_all add: shutdown_def cancel_def Let_def)

lemma shutdown_closed: "sClosed (sesn w) \<Longrightarrow> sCancelled (sesn w) \<Longrightarrow> shutdown w = w"
  by (simp add: shutdown_def cancel_def)

lemma shutdown_idem [simp]: "shutdown (shutdown w) = shutdown w"
  by (rule shutdown_closed) simp_all

lemma set_state_terminal: "terminal (sState (sesn w)) \<Longrightarrow> set_state now st d w = w"
  by (simp add: set_state_def state_change_def)

lemma set_state_reaches:
  "terminal st \<Longrightarrow> terminal (sState (sesn (set_state now st d w)))"
  by (auto simp: set_state_def state_change_def Let_def)

lemma terminal_active: "terminal (sState s) \<longleftrightarrow> \<not> active s"
  by (cases "sState s") (auto simp: terminal_def active_def)

section \<open>Properties of the sequential operations\<close>

text \<open>
  Stopping a session, in whatever state it is: an active session becomes \<open>stopped\<close> and one
  \<open>session_state\<close> event is appended to the queue; a finished one keeps its state and emits
  nothing. In both cases the context is cancelled and everything it owns is closed, in reverse
  order of registration, exactly once.
\<close>

lemma stop_effect:
  "sesn (stop now w) =
     (sesn w)\<lparr>sState := (if active (sesn w) then StateStopped else sState (sesn w)),
       sDetail := (if active (sesn w) then [] else sDetail (sesn w)),
       sCancelled := True, sClosed := True,
       sClosers := (if sClosed (sesn w) then sClosers (sesn w) else [])\<rparr> \<and>
   closedLog (stop now w) =
     closedLog w @ (if sClosed (sesn w) then [] else rev (sClosers (sesn w))) \<and>
   queue (stop now w) =
     (if active (sesn w)
      then push now (state_event ((sesn w)\<lparr>sState := StateStopped, sDetail := []\<rparr>)) (queue w)
      else queue w)"
proof (cases "active (sesn w)")
  case True
  then have "state_change StateStopped [] (sesn w)"
    by (auto simp: state_change_def active_def terminal_def)
  with True show ?thesis
    by (simp add: stop_def set_state_def shutdown_def cancel_def Let_def)
next
  case False
  then have "set_state now StateStopped [] w = w"
    by (simp add: set_state_terminal terminal_active)
  with False show ?thesis
    by (simp add: stop_def shutdown_def cancel_def Let_def)
qed

text \<open>
  Stopping is idempotent, and nothing that happens to a stopped session revives it: state
  changes are ignored, and a resource registered late is closed at once instead of leaking.
\<close>

lemma stopped_for_good:
  "stop t (stop now w) = stop now w \<and> set_state t st d (stop now w) = stop now w \<and>
   add_closer c (stop now w) = close_one c (stop now w)"
proof -
  have "terminal (sState (sesn (stop now w)))"
    unfolding stop_def shutdown_simps by (rule set_state_reaches) (simp add: terminal_def)
  then have s: "set_state t' st' d' (stop now w) = stop now w" for t' st' d'
    by (rule set_state_terminal)
  have "stop t (stop now w) = shutdown (stop now w)"
    by (subst stop_def) (simp add: s)
  moreover have "shutdown (stop now w) = stop now w" by (simp add: stop_def)
  moreover have "sClosed (sesn (stop now w))" by (simp add: stop_def)
  ultimately show ?thesis by (simp add: s add_closer_def)
qed

text \<open>
  A failing session reports the error event first and then, if it was still active, the
  state event, as the two newest events of the queue.
\<close>

lemma fail_reports_error_then_state:
  "\<exists>k. qEvents (queue (fail now msg w)) =
     drop k (qEvents (queue w)
       @ map (stamp now)
          (error_event (sID (sesn w)) ''session_failed'' msg #
           (if active (sesn w)
            then [state_event ((sesn w)\<lparr>sState := StateFailed, sDetail := msg\<rparr>)] else [])))"
proof -
  let ?e = "error_event (sID (sesn w)) ''session_failed'' msg"
  let ?s = "state_event ((sesn w)\<lparr>sState := StateFailed, sDetail := msg\<rparr>)"
  have q: "queue (fail now msg w) =
      (if active (sesn w) then push now ?s (push now ?e (queue w)) else push now ?e (queue w))"
    using terminal_active [of "sesn w"]
    by (auto simp: fail_def set_state_def state_change_def Let_def terminal_def)
  show ?thesis
    using sink.put_all_contents [of "[(now, ?e), (now, ?s)]" "queue w"]
      sink.put_all_contents [of "[(now, ?e)]" "queue w"] q
    by (simp split: if_split)
qed

end
