(* ===== verification/Session_Steps.thy ===== *)
theory Session_Steps
  imports Session
begin

text \<open>
  The goroutines of a session, interleaved. Each Go method of \<open>core/engine/session.go\<close> is split
  where it takes and releases the session's mutex: an instruction is one region that no other
  goroutine can observe halfway. A goroutine is a list of instructions; running one may put
  further instructions in front (the push after \<open>setState\<close> released the lock, the closing of
  the closers that \<open>shutdown\<close> took).
\<close>

section \<open>Instructions\<close>

text \<open>
  \<open>IChoice\<close> is an outcome decided by the outside (a call that fails or succeeds), \<open>IIfDone\<close> a
  test of \<open>s.Context().Err() != nil\<close>, \<open>IOther\<close> the direct closing of a resource that was
  never handed to the session.
\<close>

datatype 'c instr =
    ISetState sstate string
  | IPush event
  | IAddCloser 'c
  | ISetInfo string jval
  | ISetToken string
  | ICancel
  | IMarkReady
  | ITakeClosers
  | IClose 'c
  | IOther 'c
  | IChoice "'c instr list" "'c instr list"
  | IIfDone "'c instr list" "'c instr list"

text \<open>
  Ghost data: the states the session went through, the state events that belong to them, the
  events pushed so far, and the resources that came up: those handed to \<open>addCloser\<close> and those of
  \<open>IOther\<close>.
\<close>

record 'c gsys = "'c sys" +
  gStates :: "sstate list"
  gEvents :: "event list"
  gPushed :: "event list"
  gAdded :: "'c list"

definition init_gsys :: "'c session \<Rightarrow> 'c gsys" where
  "init_gsys s =
     \<lparr>sesn = s, queue = empty_queue, closedLog = [], gStates = [sState s], gEvents = [],
      gPushed = [], gAdded = []\<rparr>"

fun exec :: "int \<Rightarrow> 'c instr \<Rightarrow> bool \<Rightarrow> 'c gsys \<Rightarrow> 'c instr list \<times> 'c gsys" where
  "exec now (ISetState st d) b w =
     (if state_change st d (sesn w)
      then let s = (sesn w)\<lparr>sState := st, sDetail := d\<rparr>
           in ([IPush (state_event s)],
               w\<lparr>sesn := s, gStates := gStates w @ [st], gEvents := gEvents w @ [state_event s]\<rparr>)
      else ([], w))"
| "exec now (IPush ev) b w = ([], w\<lparr>queue := push now ev (queue w), gPushed := gPushed w @ [ev]\<rparr>)"
| "exec now (IAddCloser c) b w =
     (if sClosed (sesn w) then ([IClose c], w\<lparr>gAdded := gAdded w @ [c]\<rparr>)
      else ([], w\<lparr>sesn := (sesn w)\<lparr>sClosers := sClosers (sesn w) @ [c]\<rparr>, gAdded := gAdded w @ [c]\<rparr>))"
| "exec now (ISetInfo k v) b w =
     ([], w\<lparr>sesn := (sesn w)\<lparr>sInfo := (sInfo (sesn w))(k \<mapsto> v)\<rparr>\<rparr>)"
| "exec now (ISetToken t) b w = ([], w\<lparr>sesn := (sesn w)\<lparr>sToken := t\<rparr>\<rparr>)"
| "exec now ICancel b w = ([], w\<lparr>sesn := (sesn w)\<lparr>sCancelled := True\<rparr>\<rparr>)"
| "exec now IMarkReady b w = ([], w\<lparr>sesn := (sesn w)\<lparr>sReady := True\<rparr>\<rparr>)"
| "exec now ITakeClosers b w =
     (if sClosed (sesn w) then ([], w)
      else (map IClose (rev (sClosers (sesn w))),
            w\<lparr>sesn := (sesn w)\<lparr>sClosed := True, sClosers := []\<rparr>\<rparr>))"
| "exec now (IClose c) b w = ([], w\<lparr>closedLog := closedLog w @ [c]\<rparr>)"
| "exec now (IOther c) b w =
     ([], w\<lparr>gAdded := gAdded w @ [c], closedLog := closedLog w @ [c]\<rparr>)"
| "exec now (IChoice p q) b w = (if b then p else q, w)"
| "exec now (IIfDone p q) b w = (if sCancelled (sesn w) then p else q, w)"

text \<open>
  One step of the system: some goroutine runs its next instruction. The clock reading and the
  outcome of a choice come from the environment.
\<close>

type_synonym 'c config = "'c gsys \<times> 'c instr list list"

inductive step :: "'c config \<Rightarrow> 'c config \<Rightarrow> bool" where
  run: "exec now x b w = (front, w') \<Longrightarrow>
     step (w, ps @ (x # rest) # qs) (w', ps @ (front @ rest) # qs)"

inductive_cases stepE: "step (w, ts) (w', ts')"

inductive reach :: "'c config \<Rightarrow> 'c config \<Rightarrow> bool" for c where
  reach_refl: "reach c c"
| reach_step: "reach c d \<Longrightarrow> step d e \<Longrightarrow> reach c e"

section \<open>The methods as instruction lists\<close>

definition p_set_state :: "sstate \<Rightarrow> string \<Rightarrow> 'c instr list" where
  "p_set_state st d = [ISetState st d]"

definition p_shutdown :: "'c instr list" where
  "p_shutdown = [ICancel, ITakeClosers]"

definition p_stop :: "'c instr list" where
  "p_stop = p_set_state StateStopped [] @ p_shutdown"

definition p_fail :: "string \<Rightarrow> string \<Rightarrow> 'c instr list" where
  "p_fail sid msg =
     [IPush (error_event sid ''session_failed'' msg)] @ p_set_state StateFailed msg @ p_shutdown"

definition p_set_token :: "string \<Rightarrow> string \<Rightarrow> 'c instr list" where
  "p_set_token sid tok = [ISetToken tok, IPush (token_event sid tok)]"

definition p_add_closer :: "'c \<Rightarrow> 'c instr list" where
  "p_add_closer c = [IAddCloser c]"

section \<open>Runs end\<close>

fun weight :: "'c instr \<Rightarrow> nat" where
  "weight (ISetState st d) = 2"
| "weight (IAddCloser c) = 2"
| "weight (IChoice p q) = 1 + sum_list (map weight p) + sum_list (map weight q)"
| "weight (IIfDone p q) = 1 + sum_list (map weight p) + sum_list (map weight q)"
| "weight _ = 1"

definition prog_weight :: "'c instr list \<Rightarrow> nat" where
  "prog_weight p = sum_list (map weight p)"

definition config_weight :: "'c config \<Rightarrow> nat" where
  "config_weight c = sum_list (map prog_weight (snd c)) + length (sClosers (sesn (fst c)))"

lemma prog_weight_simps [simp]:
  "prog_weight [] = 0" "prog_weight (x # p) = weight x + prog_weight p"
  "prog_weight (p @ q) = prog_weight p + prog_weight q"
  by (simp_all add: prog_weight_def)

lemma prog_weight_close [simp]: "prog_weight (map IClose cs) = length cs"
  by (induction cs) simp_all

lemma exec_weight:
  "exec now x b w = (front, w') \<Longrightarrow>
     prog_weight front + length (sClosers (sesn w')) < weight x + length (sClosers (sesn w))"
  by (cases x) (auto simp: Let_def prog_weight_def [symmetric] split: if_splits)

lemma step_weight: "step c d \<Longrightarrow> config_weight d < config_weight c"
proof (induction rule: step.induct)
  case (run now x b w front w' ps rest qs)
  from exec_weight [OF this] show ?case by (simp add: config_weight_def)
qed

lemma step_progress:
  assumes "t \<in> set ts" "t \<noteq> []"
  shows "\<exists>d. step (w, ts) d"
proof -
  obtain ps qs where "ts = ps @ t # qs" using assms(1) by (meson split_list)
  moreover obtain x rest where "t = x # rest" using assms(2) by (cases t) auto
  moreover obtain front w' where "exec 0 x False w = (front, w')" by (metis surj_pair)
  ultimately show ?thesis using step.run by blast
qed

text \<open>The goroutines have all finished.\<close>

definition finished :: "'c config \<Rightarrow> bool" where
  "finished c \<longleftrightarrow> (\<forall>t \<in> set (snd c). t = [])"

lemma reach_trans: "reach d e \<Longrightarrow> reach c d \<Longrightarrow> reach c e"
  by (induction rule: reach.induct) (auto intro: reach.intros)

lemma reach_finished: "\<exists>d. reach c d \<and> finished d"
proof (induction "config_weight c" arbitrary: c rule: less_induct)
  case less
  show ?case
  proof (cases "finished c")
    case True
    then show ?thesis by (blast intro: reach_refl)
  next
    case False
    obtain w ts where c: "c = (w, ts)" by (cases c)
    with False obtain t where "t \<in> set ts" "t \<noteq> []" by (auto simp: finished_def)
    then obtain d where d: "step c d" using step_progress c by blast
    obtain e where "reach d e" "finished e" using less [OF step_weight [OF d]] by blast
    moreover have "reach c d" using d by (blast intro: reach.intros)
    ultimately show ?thesis using reach_trans [of d e c] by blast
  qed
qed

section \<open>Invariants of a step\<close>

text \<open>A fact about configurations that every instruction keeps holds in every reachable one.\<close>

lemma reach_invariant:
  assumes "reach c d" "I c" "\<And>c d. I c \<Longrightarrow> step c d \<Longrightarrow> I d"
  shows "I d"
  using assms by (induction rule: reach.induct) blast+

text \<open>
  The history of states: the last one is the current one, only the last one can be terminal,
  and there is one state event per change.
\<close>

definition hist_ok :: "'c gsys \<Rightarrow> bool" where
  "hist_ok w \<longleftrightarrow>
     gStates w \<noteq> [] \<and> last (gStates w) = sState (sesn w) \<and>
     list_all (\<lambda>st. \<not> terminal st) (butlast (gStates w)) \<and>
     length (gStates w) = Suc (length (gEvents w))"

lemma exec_hist: "hist_ok w \<Longrightarrow> exec now x b w = (front, w') \<Longrightarrow> hist_ok w'"
proof (cases x)
  case (ISetState st d)
  assume w: "hist_ok w" and e: "exec now x b w = (front, w')"
  show ?thesis
  proof (cases "state_change st d (sesn w)")
    case True
    have "gStates w = butlast (gStates w) @ [sState (sesn w)]"
      using w by (metis append_butlast_last_id hist_ok_def)
    moreover have "\<not> terminal (sState (sesn w))" using True by (simp add: state_change_def)
    ultimately have "list_all (\<lambda>st. \<not> terminal st) (gStates w)"
      using w by (metis hist_ok_def list.pred_inject list_all_append)
    with w e True ISetState show ?thesis by (auto simp: hist_ok_def Let_def)
  qed (use w e ISetState in auto)
qed (auto simp: hist_ok_def split: if_splits)

lemma exec_terminal:
  "exec now x b w = (front, w') \<Longrightarrow> terminal (sState (sesn w)) \<Longrightarrow>
     sState (sesn w') = sState (sesn w) \<and> sDetail (sesn w') = sDetail (sesn w) \<and>
     gStates w' = gStates w \<and> gEvents w' = gEvents w"
  by (cases x) (auto simp: state_change_def split: if_splits)

lemma step_hist: "hist_ok (fst c) \<Longrightarrow> step c d \<Longrightarrow> hist_ok (fst d)"
  by (erule step.cases) (auto intro: exec_hist)


text \<open>The closers that a goroutine is about to close, and the programs that close none directly.\<close>

fun pending :: "'c instr list \<Rightarrow> 'c list" where
  "pending [] = []"
| "pending (IClose c # p) = c # pending p"
| "pending (x # p) = pending p"

fun closes_none :: "'c instr \<Rightarrow> bool" where
  "closes_none (IClose c) = False"
| "closes_none (IChoice p q) = (list_all closes_none p \<and> list_all closes_none q)"
| "closes_none (IIfDone p q) = (list_all closes_none p \<and> list_all closes_none q)"
| "closes_none _ = True"

text \<open>What may be left of such a program: closes that \<open>exec\<close> put in front, and the rest.\<close>

fun closing_ok :: "'c instr \<Rightarrow> bool" where
  "closing_ok (IClose c) = True"
| "closing_ok x = closes_none x"

lemma pending_append [simp]: "pending (p @ q) = pending p @ pending q"
  by (induction p rule: pending.induct) simp_all

lemma pending_close [simp]: "pending (map IClose cs) = cs"
  by (induction cs) simp_all

lemma closing_close [simp]: "list_all closing_ok (map IClose cs)"
  by (induction cs) simp_all

lemma closes_none_ok: "closes_none x \<Longrightarrow> closing_ok x"
  by (cases x) simp_all

lemma closes_none_all_ok: "list_all closes_none p \<Longrightarrow> list_all closing_ok p"
  by (auto simp: list_all_iff intro: closes_none_ok)

lemma closes_none_pending: "list_all closes_none p \<Longrightarrow> pending p = []"
  by (induction p rule: pending.induct) simp_all

definition closers_ok :: "'c config \<Rightarrow> bool" where
  "closers_ok c \<longleftrightarrow>
     list_all (list_all closing_ok) (snd c) \<and>
     (sClosed (sesn (fst c)) \<longrightarrow> sClosers (sesn (fst c)) = []) \<and>
     mset (gAdded (fst c)) =
       mset (sClosers (sesn (fst c))) + mset (closedLog (fst c)) + mset (concat (map pending (snd c)))"

lemma exec_closers:
  assumes "exec now x b w = (front, w')" "closing_ok x"
    "sClosed (sesn w) \<longrightarrow> sClosers (sesn w) = []"
  shows "list_all closing_ok front \<and> (sClosed (sesn w') \<longrightarrow> sClosers (sesn w') = []) \<and>
    mset (gAdded w') + mset (sClosers (sesn w)) + mset (closedLog w) + mset (pending [x]) =
    mset (gAdded w) + mset (sClosers (sesn w')) + mset (closedLog w') + mset (pending front)"
  using assms
  by (cases x) (auto simp: Let_def closes_none_pending closes_none_all_ok split: if_splits)

lemma step_closers: "closers_ok c \<Longrightarrow> step c d \<Longrightarrow> closers_ok d"
proof (erule step.cases)
  fix now x b w front w' ps rest qs
  assume ok: "closers_ok c" and c: "c = (w, ps @ (x # rest) # qs)"
    and d: "d = (w', ps @ (front @ rest) # qs)" and e: "exec now x b w = (front, w')"
  have x: "closing_ok x" "sClosed (sesn w) \<longrightarrow> sClosers (sesn w) = []"
    using ok c by (auto simp: closers_ok_def)
  have "pending (x # rest) = pending [x] @ pending rest" by (cases x) simp_all
  with exec_closers [OF e x] ok show "closers_ok d"
    by (simp add: closers_ok_def c d)
qed

text \<open>What a goroutine will hand to \<open>addCloser\<close> or close itself, for programs that do so unconditionally.\<close>

fun adding :: "'c instr list \<Rightarrow> 'c list" where
  "adding [] = []"
| "adding (IAddCloser c # p) = c # adding p"
| "adding (IOther c # p) = c # adding p"
| "adding (x # p) = adding p"

fun adds_none :: "'c instr \<Rightarrow> bool" where
  "adds_none (IAddCloser c) = False"
| "adds_none (IOther c) = False"
| "adds_none (IChoice p q) = (list_all adds_none p \<and> list_all adds_none q)"
| "adds_none (IIfDone p q) = (list_all adds_none p \<and> list_all adds_none q)"
| "adds_none _ = True"

fun adding_ok :: "'c instr \<Rightarrow> bool" where
  "adding_ok (IAddCloser c) = True"
| "adding_ok (IOther c) = True"
| "adding_ok x = adds_none x"

lemma adding_append [simp]: "adding (p @ q) = adding p @ adding q"
  by (induction p rule: adding.induct) simp_all

lemma adds_none_ok: "adds_none x \<Longrightarrow> adding_ok x"
  by (cases x) simp_all

lemma adds_none_all: "list_all adds_none p \<Longrightarrow> list_all adding_ok p \<and> adding p = []"
proof (induction p)
  case (Cons x p)
  then show ?case by (cases x) auto
qed simp

lemma adding_close [simp]: "adding (map IClose cs) = []" "list_all adding_ok (map IClose cs)"
  by (induction cs) simp_all

definition adds_ok :: "'c multiset \<Rightarrow> 'c config \<Rightarrow> bool" where
  "adds_ok M c \<longleftrightarrow>
     list_all (list_all adding_ok) (snd c) \<and>
     mset (gAdded (fst c)) + mset (concat (map adding (snd c))) = M"

lemma exec_adds:
  assumes "exec now x b w = (front, w')" "adding_ok x"
  shows "list_all adding_ok front \<and>
    mset (gAdded w') + mset (adding front) = mset (gAdded w) + mset (adding [x])"
  using assms by (cases x) (auto simp: Let_def adds_none_all split: if_splits)

lemma step_adds: "adds_ok M c \<Longrightarrow> step c d \<Longrightarrow> adds_ok M d"
proof (erule step.cases)
  fix now x b w front w' ps rest qs
  assume ok: "adds_ok M c" and c: "c = (w, ps @ (x # rest) # qs)"
    and d: "d = (w', ps @ (front @ rest) # qs)" and e: "exec now x b w = (front, w')"
  have x: "adding_ok x" using ok c by (auto simp: adds_ok_def)
  have "adding (x # rest) = adding [x] @ adding rest" by (cases x) simp_all
  with exec_adds [OF e x] ok show "adds_ok M d"
    by (auto simp: adds_ok_def c d ac_simps)
qed

lemma finished_concat [simp]:
  assumes "finished (w, us)"
  shows "concat (map adding us) = []" "concat (map pending us) = []"
  using assms by (auto simp: finished_def)

lemma reach_adds:
  assumes "reach (w, ts) (w', us)" "finished (w', us)" "list_all (list_all adding_ok) ts"
  shows "mset (gAdded w') = mset (gAdded w) + mset (concat (map adding ts))"
proof -
  let ?M = "mset (gAdded w) + mset (concat (map adding ts))"
  have "adds_ok ?M (w, ts)" using assms(3) by (simp add: adds_ok_def)
  then have "adds_ok ?M (w', us)"
    using reach_invariant [OF assms(1), of "adds_ok ?M"] step_adds by blast
  with assms(2) show ?thesis by (simp add: adds_ok_def)
qed

text \<open>
  An instruction in a program is either still waiting or what it achieves has been achieved,
  when nothing undoes it.
\<close>

lemma step_achieves:
  assumes "step (w, ts) (w', ts')" "D w \<or> (\<exists>t \<in> set ts. x \<in> set t)"
    and "\<And>now y b w front w'. exec now y b w = (front, w') \<Longrightarrow> D w \<or> y = x \<Longrightarrow> D w'"
  shows "D w' \<or> (\<exists>t \<in> set ts'. x \<in> set t)"
proof -
  obtain now y b front ps rest qs where st: "ts = ps @ (y # rest) # qs"
      "ts' = ps @ (front @ rest) # qs" and e: "exec now y b w = (front, w')"
    using assms(1) by (auto elim: stepE)
  show ?thesis
  proof (cases "D w \<or> y = x")
    case True
    then show ?thesis using assms(3) e by blast
  next
    case False
    then show ?thesis using assms(2) by (auto simp: st)
  qed
qed

lemma reach_achieves:
  assumes "reach c d" "\<exists>t \<in> set (snd c). x \<in> set t" "finished d"
    and D: "\<And>now y b w front w'. exec now y b w = (front, w') \<Longrightarrow> D w \<or> y = x \<Longrightarrow> D w'"
  shows "D (fst d)"
proof -
  have "D (fst d) \<or> (\<exists>t \<in> set (snd d). x \<in> set t)"
    using assms(1)
  proof (rule reach_invariant)
    show "D (fst c) \<or> (\<exists>t \<in> set (snd c). x \<in> set t)" using assms(2) by blast
  next
    fix c d :: "'a config"
    assume "D (fst c) \<or> (\<exists>t \<in> set (snd c). x \<in> set t)" "step c d"
    then show "D (fst d) \<or> (\<exists>t \<in> set (snd d). x \<in> set t)"
      using step_achieves [of "fst c" "snd c" "fst d" "snd d" D x] D by simp
  qed
  then show ?thesis using assms(3) by (auto simp: finished_def)
qed

lemma achieves_closed: "exec now y b w = (front, w') \<Longrightarrow> sClosed (sesn w) \<or> y = ITakeClosers \<Longrightarrow>
    sClosed (sesn w')"
  by (cases y) (auto simp: Let_def split: if_splits)

lemma achieves_cancelled: "exec now y b w = (front, w') \<Longrightarrow> sCancelled (sesn w) \<or> y = ICancel \<Longrightarrow>
    sCancelled (sesn w')"
  by (cases y) (auto simp: Let_def split: if_splits)

lemma achieves_terminal: "terminal st \<Longrightarrow> exec now y b w = (front, w') \<Longrightarrow>
    terminal (sState (sesn w)) \<or> y = ISetState st d \<Longrightarrow> terminal (sState (sesn w'))"
  by (cases y) (auto simp: Let_def state_change_def split: if_splits)


section \<open>One goroutine on its own\<close>

text \<open>Runs one goroutine to its end; \<open>b\<close> decides the choices, \<open>now\<close> is the clock.\<close>

function alone :: "int \<Rightarrow> bool \<Rightarrow> 'c instr list \<Rightarrow> 'c gsys \<Rightarrow> 'c gsys" where
  "alone now b [] w = w"
| "alone now b (x # p) w = (case exec now x b w of (front, w') \<Rightarrow> alone now b (front @ p) w')"
  by pat_completeness auto
termination
  by (relation "measure (\<lambda>(now, b, p, w). prog_weight p + length (sClosers (sesn w)))")
    (auto dest: exec_weight [OF sym])

lemma alone_append: "alone now b (p @ q) w = alone now b q (alone now b p w)"
proof (induction now b p w arbitrary: q rule: alone.induct)
  case (2 now b x p w)
  then show ?case by (cases "exec now x b w") simp
qed simp

lemma alone_close:
  "alone now b (map IClose cs) w = w\<lparr>closedLog := closedLog w @ cs\<rparr>"
  by (induction cs arbitrary: w) simp_all

lemma alone_reach: "reach (w, [p]) (alone now b p w, [[]])"
proof (induction now b p w rule: alone.induct)
  case (1 now b w)
  show ?case by (simp add: reach_refl)
next
  case (2 now b x p w)
  obtain front w' where e: "exec now x b w = (front, w')" by (cases "exec now x b w")
  have "step (w, [] @ (x # p) # []) (w', [] @ (front @ p) # [])" by (rule step.run [OF e])
  then have "reach (w, [x # p]) (w', [front @ p])" by (auto intro: reach.intros)
  with 2 [OF e [symmetric]] e show ?case by (auto intro: reach_trans)
qed

lemma truncate_simps:
  "sys.truncate w = \<lparr>sesn = sesn w, queue = queue w, closedLog = closedLog w\<rparr>"
  by (simp add: sys.truncate_def)

text \<open>The instruction lists are the sequential operations when nothing interferes.\<close>

lemma alone_set_state:
  "sys.truncate (alone now b (p_set_state st d) w) = set_state now st d (sys.truncate w)"
  by (simp add: p_set_state_def set_state_def emit_def Let_def truncate_simps)

lemma alone_shutdown: "sys.truncate (alone now b p_shutdown w) = shutdown (sys.truncate w)"
proof -
  have "fold close_one cs v = v\<lparr>closedLog := closedLog v @ cs\<rparr>" for cs :: "'a list" and v :: "'a sys"
    by (induction cs arbitrary: v) (simp_all add: close_one_def)
  then show ?thesis
    by (simp add: p_shutdown_def shutdown_def cancel_def Let_def truncate_simps alone_close)
qed

lemma alone_stop: "sys.truncate (alone now b p_stop w) = stop now (sys.truncate w)"
  by (simp only: p_stop_def stop_def alone_append alone_set_state alone_shutdown)


section \<open>Given schedules\<close>

text \<open>Runs the goroutines in the order of the given indices, each with its choice.\<close>

fun scheduled :: "int \<Rightarrow> (nat \<times> bool) list \<Rightarrow> 'c config \<Rightarrow> 'c config" where
  "scheduled now [] c = c"
| "scheduled now ((i, b) # is) (w, ts) =
     (if i < length ts
      then case ts ! i of
             [] \<Rightarrow> scheduled now is (w, ts)
           | x # rest \<Rightarrow> (case exec now x b w of
               (front, w') \<Rightarrow> scheduled now is (w', ts[i := front @ rest]))
      else scheduled now is (w, ts))"

lemma scheduled_reach: "reach c (scheduled now is c)"
proof (induction now "is" c rule: scheduled.induct)
  case (1 now c)
  show ?case by (simp add: reach_refl)
next
  case (2 now i b "is" w ts)
  show ?case
  proof (cases "i < length ts \<and> ts ! i \<noteq> []")
    case True
    then obtain x rest where x: "ts ! i = x # rest" by (cases "ts ! i") auto
    obtain front w' where e: "exec now x b w = (front, w')" by (cases "exec now x b w")
    have ts: "ts = take i ts @ (x # rest) # drop (Suc i) ts"
      using True x by (metis id_take_nth_drop)
    have "ts[i := front @ rest] = take i ts @ (front @ rest) # drop (Suc i) ts"
      using True by (simp add: upd_conv_take_nth_drop)
    with ts step.run [OF e] have "step (w, ts) (w', ts[i := front @ rest])" by metis
    then have "reach (w, ts) (w', ts[i := front @ rest])" by (auto intro: reach.intros)
    moreover have "reach (w', ts[i := front @ rest]) (scheduled now is (w', ts[i := front @ rest]))"
      using 2(2) [OF conjunct1 [OF True] x e [symmetric]] .
    ultimately show ?thesis using True x e by (simp add: reach_trans)
  next
    case False
    with 2 show ?thesis by (auto split: list.split)
  qed
qed

section \<open>Properties of every interleaving\<close>

lemma reach_fst:
  assumes "reach c d" "I (fst c)"
    "\<And>now x b w front w'. exec now x b w = (front, w') \<Longrightarrow> I w \<Longrightarrow> I w'"
  shows "I (fst d)"
  using assms(1)
proof (rule reach_invariant [where I = "\<lambda>c. I (fst c)"])
  show "I (fst c)" by (fact assms(2))
  show "\<And>c d. I (fst c) \<Longrightarrow> step c d \<Longrightarrow> I (fst d)"
    by (erule step.cases) (auto intro: assms(3))
qed


lemma shutdown_closes_once:
  assumes "reach (init_gsys (new_session now i k), ts) (w, us)" "finished (w, us)"
    and "list_all (list_all closes_none) ts"
    and "\<exists>t \<in> set ts. ISetState st d \<in> set t \<and> ICancel \<in> set t \<and> ITakeClosers \<in> set t"
    and "terminal st"
  shows "terminal (sState (sesn w)) \<and> sCancelled (sesn w) \<and> sClosed (sesn w) \<and>
    sClosers (sesn w) = [] \<and> mset (closedLog w) = mset (gAdded w)"
proof -
  let ?c = "(init_gsys (new_session now i k), ts)"
  have T: "terminal (sState (sesn (fst (w, us))))"
  proof (rule reach_achieves [OF assms(1) _ assms(2), of "ISetState st d" "\<lambda>w. terminal (sState (sesn w))"])
    show "\<exists>t \<in> set (snd ?c). ISetState st d \<in> set t" using assms(4) by auto
  qed (rule achieves_terminal [OF assms(5)])
  have C: "sCancelled (sesn (fst (w, us)))"
  proof (rule reach_achieves [OF assms(1) _ assms(2), of "ICancel" "\<lambda>w. sCancelled (sesn w)"])
    show "\<exists>t \<in> set (snd ?c). ICancel \<in> set t" using assms(4) by auto
  qed (rule achieves_cancelled)
  have closed: "sClosed (sesn (fst (w, us)))"
  proof (rule reach_achieves [OF assms(1) _ assms(2), of "ITakeClosers" "\<lambda>w. sClosed (sesn w)"])
    show "\<exists>t \<in> set (snd ?c). ITakeClosers \<in> set t" using assms(4) by auto
  qed (rule achieves_closed)
  have "closers_ok ?c"
    using assms(3)
    by (induction ts)
      (simp_all add: closers_ok_def init_gsys_def new_session_def closes_none_all_ok
        closes_none_pending)
  then have ok: "closers_ok (w, us)"
    using reach_invariant [OF assms(1), of closers_ok] step_closers by blast
  with T C closed finished_concat [OF assms(2)] show ?thesis by (auto simp: closers_ok_def)
qed

text \<open>
  C1. A session is always shut down completely. Let any goroutines work on a new session, one of
  them executing \<open>stop\<close> or \<open>fail\<close> (an instruction list with \<open>ISetState\<close> of a terminal state,
  \<open>ICancel\<close> and \<open>ITakeClosers\<close>), none of them closing session-owned resources behind its back. In
  every interleaving, once all goroutines have ended, the session is in a terminal state, its
  context is cancelled, and every resource ever given to \<open>addCloser\<close>, before, during or after the
  shutdown, has been closed exactly once.
\<close>

theorem shutdown_closes_exactly_once:
  assumes "reach (init_gsys (new_session now i k), ts) (w, us)" "finished (w, us)"
    and "list_all (list_all closes_none) ts"
    and "\<exists>t \<in> set ts. ISetState st d \<in> set t \<and> ICancel \<in> set t \<and> ITakeClosers \<in> set t"
    and "terminal st"
  shows "terminal (sState (sesn w)) \<and> sCancelled (sesn w) \<and> sClosed (sesn w) \<and>
    sClosers (sesn w) = [] \<and> mset (closedLog w) = mset (gAdded w)"
  by (rule shutdown_closes_once [OF assms])



text \<open>Two goroutines: one registers a listener late, the other one stops the session.\<close>

definition demo_session :: "string session" where
  "demo_session = new_session 0 ''s1'' KindForward"

definition demo_threads :: "string instr list list" where
  "demo_threads = [p_add_closer ''client'' @ p_add_closer ''listener'', p_stop]"

definition demo_end :: "string config" where
  "demo_end = scheduled 7 [(0, True), (1, True), (1, True), (1, True), (1, True), (0, True), (0, True), (1, True)]
     (init_gsys demo_session, demo_threads)"

lemmas demo_run_defs =
  demo_end_def demo_session_def demo_threads_def init_gsys_def new_session_def p_add_closer_def
  p_stop_def p_set_state_def p_shutdown_def state_change_def terminal_def empty_queue_def Let_def

lemma demo_end_eval:
  "snd demo_end = [[], []]" "closedLog (fst demo_end) = [''listener'', ''client'']"
  by (simp_all add: demo_run_defs)


theorem shutdown_closes_exactly_once_witness:
  "sCancelled (sesn (fst demo_end)) \<and>
   mset (gAdded (fst demo_end)) = {#''listener'', ''client''#}"
proof -
  have r: "reach (init_gsys (new_session 0 ''s1'' KindForward), demo_threads)
      (fst demo_end, snd demo_end)"
    by (simp only: prod.collapse demo_end_def demo_session_def scheduled_reach)
  show ?thesis
    using shutdown_closes_exactly_once [OF r, of StateStopped "[]"] demo_end_eval
    by (simp add: finished_def demo_threads_def p_add_closer_def p_stop_def p_set_state_def
        p_shutdown_def terminal_def)
qed

text \<open>
  \<open>setState\<close> pushes its event after it has released the mutex, so events can arrive in the
  wrong order: there is a run of \<open>stop\<close> against \<open>setState(StateRunning)\<close> (what the warm-up
  goroutine does) after which the session is stopped for good while the last event the
  consumer sees for it says \<open>running\<close>.
\<close>

lemma stopped_session_can_look_running:
  "\<exists>w. reach (init_gsys (new_session now i k), [p_stop, p_set_state StateRunning d])
         (w, [[], []]) \<and>
       sState (sesn w) = StateStopped \<and> active (sesn w) = False \<and>
       map (\<lambda>ev. ev ''state'') (qEvents (queue w)) =
         [Some (JStr ''stopped''), Some (JStr ''running'')]"
proof -
  let ?c = "(init_gsys (new_session now i k :: 'a session), [p_stop, p_set_state StateRunning d])"
  let ?s = "scheduled now [(1, True), (0, True), (0, True), (0, True), (0, True), (1, True)] ?c"
  have "reach ?c (fst ?s, snd ?s)" by (simp only: prod.collapse scheduled_reach)
  moreover have "snd ?s = [[], []]" "sState (sesn (fst ?s)) = StateStopped"
    "map (\<lambda>ev. ev ''state'') (qEvents (queue (fst ?s))) =
      [Some (JStr ''stopped''), Some (JStr ''running'')]"
    by (simp_all add: demo_run_defs push_def maxQueuedEvents_def stamp_def state_event_def)
  ultimately show ?thesis by (metis active_def sstate.distinct)
qed

end
