(* ===== verification/Go_Net.thy ===== *)
theory Go_Net
  imports Go_Numbers
begin

text \<open>
  Host and port strings as in Go's \<open>net\<close> package: \<open>net.SplitHostPort\<close> and
  \<open>net.JoinHostPort\<close>.
\<close>

definition index_byte :: "char \<Rightarrow> string \<Rightarrow> nat option" where
  "index_byte c s =
     (let n = length (takeWhile (\<lambda>x. x \<noteq> c) s) in if n < length s then Some n else None)"

definition last_index_byte :: "char \<Rightarrow> string \<Rightarrow> nat option" where
  "last_index_byte c s = map_option (\<lambda>n. length s - 1 - n) (index_byte c (rev s))"

definition addr_err :: "string \<Rightarrow> string \<Rightarrow> gerror" where
  "addr_err addr why = ErrFmt why [FStr addr]"

definition split_finish :: "string \<Rightarrow> nat \<Rightarrow> string \<Rightarrow> nat \<Rightarrow> nat \<Rightarrow> (string \<times> string) res" where
  "split_finish hp i host j k =
     (if CHR ''['' \<in> set (drop j hp) then Inl (addr_err hp ''unexpected '[' in address'')
      else if CHR '']'' \<in> set (drop k hp) then Inl (addr_err hp ''unexpected ']' in address'')
      else Inr (host, drop (i + 1) hp))"

definition split_host_port :: "string \<Rightarrow> (string \<times> string) res" where
  "split_host_port hp =
     (case last_index_byte CHR '':'' hp of
        None \<Rightarrow> Inl (addr_err hp ''missing port in address'')
      | Some i \<Rightarrow>
          if hp ! 0 = CHR ''['' then
            (case index_byte CHR '']'' hp of
               None \<Rightarrow> Inl (addr_err hp ''missing ']' in address'')
             | Some e \<Rightarrow>
                 if e + 1 = length hp then Inl (addr_err hp ''missing port in address'')
                 else if e + 1 = i then split_finish hp i (take (e - 1) (drop 1 hp)) 1 (e + 1)
                 else if hp ! (e + 1) = CHR '':'' then Inl (addr_err hp ''too many colons in address'')
                 else Inl (addr_err hp ''missing port in address''))
          else
            (let host = take i hp in
             if CHR '':'' \<in> set host then Inl (addr_err hp ''too many colons in address'')
             else split_finish hp i host 0 0))"

definition join_host_port :: "string \<Rightarrow> string \<Rightarrow> string" where
  "join_host_port host port =
     (if CHR '':'' \<in> set host then CHR ''['' # host @ '']:'' @ port else host @ '':'' @ port)"

lemma takeWhile_split: "c \<notin> set a \<Longrightarrow> takeWhile (\<lambda>x. x \<noteq> c) (a @ c # b) = a"
  by (induction a) auto

lemma index_byte_first: "c \<notin> set a \<Longrightarrow> index_byte c (a @ c # b) = Some (length a)"
  by (simp add: index_byte_def takeWhile_split)

lemma index_byte_None: "index_byte c s = None \<longleftrightarrow> c \<notin> set s"
proof
  show "index_byte c s = None \<Longrightarrow> c \<notin> set s"
    by (metis index_byte_first option.distinct(1) split_list_first)
next
  assume "c \<notin> set s"
  then have "takeWhile (\<lambda>x. x \<noteq> c) s = s" by (auto simp: takeWhile_eq_all_conv)
  then have "\<not> length (takeWhile (\<lambda>x. x \<noteq> c) s) < length s" by (simp only: less_irrefl not_False_eq_True)
  then show "index_byte c s = None" by (simp only: index_byte_def Let_def if_False)
qed

lemma last_index_byte_last: "c \<notin> set b \<Longrightarrow> last_index_byte c (a @ c # b) = Some (length a)"
  using index_byte_first [of c "rev b" "rev a"] by (simp add: last_index_byte_def)

lemma last_index_byte_None: "last_index_byte c s = None \<longleftrightarrow> c \<notin> set s"
  by (simp add: last_index_byte_def index_byte_None)

text \<open>
  Joining a host and a port and splitting again gives them back, for a port without colons and
  brackets and a host without brackets (IPv6 addresses are such hosts, colons included).
\<close>

lemma split_join_host_port:
  assumes host: "CHR ''['' \<notin> set host" "CHR '']'' \<notin> set host"
    and port: "CHR '':'' \<notin> set port" "CHR ''['' \<notin> set port" "CHR '']'' \<notin> set port"
  shows "split_host_port (join_host_port host port) = Inr (host, port)"
proof (cases "CHR '':'' \<in> set host")
  case True
  let ?hp = "CHR ''['' # host @ '']:'' @ port"
  have "last_index_byte CHR '':'' ?hp = Some (length host + 2)"
    using last_index_byte_last [OF port(1), of "CHR ''['' # host @ '']''"] by simp
  moreover have "index_byte CHR '']'' ?hp = Some (length host + 1)"
    using index_byte_first [of "CHR '']''" "CHR ''['' # host" "CHR '':'' # port"] host by simp
  ultimately show ?thesis
    using True host port
    by (simp add: join_host_port_def split_host_port_def split_finish_def)
next
  case False
  have i: "last_index_byte CHR '':'' (host @ '':'' @ port) = Some (length host)"
    using last_index_byte_last [OF port(1), of host] by simp
  have "(host @ CHR '':'' # port) ! 0 \<noteq> CHR ''[''"
    using host by (cases host) auto
  with False i host port show ?thesis
    by (simp add: join_host_port_def split_host_port_def split_finish_def)
qed

end
