(* ===== verification/Api_Errors.thy ===== *)
theory Api_Errors
  imports Prelude
begin

text \<open>
  The error codes of the JSON API (\<open>codedError\<close>, \<open>errCode\<close> and \<open>codeOf\<close> in
  \<open>core/engine/commands.go\<close>). A message keeps its format and arguments unrendered.
\<close>

definition CodeBadRequest :: string where "CodeBadRequest = ''bad_request''"
definition CodeInvalidToken :: string where "CodeInvalidToken = ''invalid_token''"
definition CodeUnsupported :: string where "CodeUnsupported = ''unsupported''"
definition CodeNotFound :: string where "CodeNotFound = ''not_found''"
definition CodeInternal :: string where "CodeInternal = ''internal''"

definition err_code :: "string \<Rightarrow> string \<Rightarrow> farg list \<Rightarrow> gerror" where
  "err_code code fmt args = ErrCoded code (ErrFmt fmt args)"

text \<open>\<open>errors.As\<close> follows the chain of wrapped errors to the first coded one.\<close>

fun code_of :: "gerror \<Rightarrow> string" where
  "code_of (ErrCoded code err) = code"
| "code_of (ErrWrap fmt args err) = code_of err"
| "code_of err = CodeInternal"

lemma code_of_err_code [simp]: "code_of (err_code code fmt args) = code"
  by (simp add: err_code_def)


text \<open>\<open>errors.Is\<close> against a sentinel.\<close>

fun error_is :: "gerror \<Rightarrow> gerror \<Rightarrow> bool" where
  "error_is (ErrCoded code err) t \<longleftrightarrow> ErrCoded code err = t \<or> error_is err t"
| "error_is (ErrWrap fmt args err) t \<longleftrightarrow> ErrWrap fmt args err = t \<or> error_is err t"
| "error_is err t \<longleftrightarrow> err = t"

end
