(* ===== verification/Engine.thy ===== *)
theory Engine
  imports Session Go_Numbers Go_Strings Go_Net Api_Errors
begin

text \<open>
  The engine (\<open>core/engine/engine.go\<close>): the registry of sessions with \<open>newSession\<close>,
  \<open>session\<close>, \<open>stopSession\<close>, \<open>listSessions\<close>, \<open>activeSessions\<close>, \<open>Poll\<close> and \<open>Close\<close>.
  Go leaves the order of iteration over a map open; it is an argument here, a list of the keys.
\<close>

section \<open>State\<close>

text \<open>\<open>'c\<close> are the resources (\<open>io.Closer\<close>), \<open>eLog\<close> the sequence of resources closed so far.\<close>

record 'c engine =
  eDERPMapURL :: string
  eSessions :: "string \<Rightarrow> 'c session option"
  eNextID :: "64 word"
  eClosed :: bool
  eCancelled :: bool
  eQueue :: event_queue
  eLog :: "'c list"

definition new_engine :: "string \<Rightarrow> 'c engine" where
  "new_engine url =
     \<lparr>eDERPMapURL = url, eSessions = Map.empty, eNextID = 0, eClosed = False, eCancelled = False,
      eQueue = empty_queue, eLog = []\<rparr>"

text \<open>The part of the engine that an operation of one session works on, and its way back.\<close>

definition session_sys :: "'c engine \<Rightarrow> 'c session \<Rightarrow> 'c sys" where
  "session_sys e s = \<lparr>sesn = s, queue = eQueue e, closedLog = eLog e\<rparr>"

definition on_session :: "string \<Rightarrow> ('c sys \<Rightarrow> 'c sys) \<Rightarrow> 'c engine \<Rightarrow> 'c engine" where
  "on_session i f e =
     (case eSessions e i of
        None \<Rightarrow> e
      | Some s \<Rightarrow>
          let w = f (session_sys e s)
          in e\<lparr>eSessions := (eSessions e)(i \<mapsto> sesn w), eQueue := queue w, eLog := closedLog w\<rparr>)"

section \<open>Operations\<close>

definition poll_events :: "int \<Rightarrow> 'c engine \<Rightarrow> event list option \<times> 'c engine" where
  "poll_events now e = (case drain now (eQueue e) of (evs, q) \<Rightarrow> (evs, e\<lparr>eQueue := q\<rparr>))"

text \<open>The list under \<open>events\<close> of the JSON object that \<open>Poll\<close> returns.\<close>

definition poll :: "int \<Rightarrow> 'c engine \<Rightarrow> event list \<times> 'c engine" where
  "poll now e =
     (case poll_events now e of
        (None, e) \<Rightarrow> ([], e)
      | (Some evs, e) \<Rightarrow> (evs, e))"

definition engine_logf :: "int \<Rightarrow> string \<Rightarrow> farg list \<Rightarrow> 'c engine \<Rightarrow> 'c engine" where
  "engine_logf now fmt args e =
     e\<lparr>eQueue := push now
         [''type'' \<mapsto> JStr ''log'', ''level'' \<mapsto> JStr ''info'', ''msg'' \<mapsto> JFmt fmt args] (eQueue e)\<rparr>"

text \<open>
  \<open>newClient\<close>: the token of a tailcat client and its DERP map, whose default comes from tailcat;
  \<open>tailcatLogf\<close> turns the client's debug output into events.
\<close>

definition tailcat_client :: "string \<Rightarrow> string \<Rightarrow> 'c engine \<Rightarrow> string \<times> string" where
  "tailcat_client derp cb e = (cb, if eDERPMapURL e \<noteq> [] then eDERPMapURL e else derp)"

definition tailcat_logf :: "int \<Rightarrow> string \<Rightarrow> farg list \<Rightarrow> 'c sys \<Rightarrow> 'c sys" where
  "tailcat_logf now fmt args w = emit now (log_event (sID (sesn w)) ''debug'' fmt args) w"

definition session_id :: "kind \<Rightarrow> 64 word \<Rightarrow> string" where
  "session_id k n = kind_string k @ ''-'' @ itoa (sint n)"

definition add_session :: "int \<Rightarrow> kind \<Rightarrow> 'c engine \<Rightarrow> string res \<times> 'c engine" where
  "add_session now k e =
     (if eClosed e then (Inl (err_code CodeInternal ''engine is closed'' []), e)
      else let e = e\<lparr>eNextID := eNextID e + 1\<rparr>;
               i = session_id k (eNextID e)
           in (Inr i, e\<lparr>eSessions := (eSessions e)(i \<mapsto> new_session now i k)\<rparr>))"

definition find_session :: "string \<Rightarrow> 'c engine \<Rightarrow> 'c session res" where
  "find_session i e =
     (case eSessions e i of
        None \<Rightarrow> Inl (err_code CodeNotFound ''no session %q'' [FStr i])
      | Some s \<Rightarrow> Inr s)"

text \<open>Returns the error, if any.\<close>

definition stop_session :: "int \<Rightarrow> string \<Rightarrow> 'c engine \<Rightarrow> gerror option \<times> 'c engine" where
  "stop_session now i e =
     (case find_session i e of
        Inl err \<Rightarrow> (Some err, e)
      | Inr s \<Rightarrow> (None, on_session i (stop now) e))"

text \<open>
  \<open>Close\<close>: after the sessions have been stopped one by one, \<open>e.cancel()\<close> cancels the parent of
  all their contexts.
\<close>

definition close_engine :: "int \<Rightarrow> string list \<Rightarrow> 'c engine \<Rightarrow> 'c engine" where
  "close_engine now order e =
     (let e = fold (\<lambda>i. on_session i (stop now)) order (e\<lparr>eClosed := True\<rparr>)
      in e\<lparr>eCancelled := True,
           eSessions := (\<lambda>i. map_option (\<lambda>s. s\<lparr>sCancelled := True\<rparr>) (eSessions e i))\<rparr>)"

definition sessions_in :: "string list \<Rightarrow> 'c engine \<Rightarrow> 'c session list" where
  "sessions_in order e = List.map_filter (eSessions e) order"

definition active_sessions :: "string list \<Rightarrow> 'c engine \<Rightarrow> nat" where
  "active_sessions order e = length (filter active (sessions_in order e))"

text \<open>The type assertion \<open>["created_ms"].(int64)\<close>; it panics on anything else.\<close>

definition created_ms :: "event \<Rightarrow> int option" where
  "created_ms m = (case m ''created_ms'' of Some (JInt n) \<Rightarrow> Some n | _ \<Rightarrow> None)"

text \<open>The inner loop of the sort: entry \<open>j\<close> moves left while it is older than its neighbour.\<close>

fun sift :: "nat \<Rightarrow> event list \<Rightarrow> event list res" where
  "sift 0 out = Inr out"
| "sift (Suc j) out =
     (case (created_ms (out ! Suc j), created_ms (out ! j)) of
        (Some a, Some b) \<Rightarrow>
          if a < b then sift j (out[Suc j := out ! j, j := out ! Suc j]) else Inr out
      | _ \<Rightarrow> Inl (ErrPanic ''interface conversion''))"

definition sort_sessions :: "event list \<Rightarrow> event list res" where
  "sort_sessions out =
     fold (\<lambda>i r. case r of Inl err \<Rightarrow> Inl err | Inr out \<Rightarrow> sift i out) [1..<length out] (Inr out)"

text \<open>The list under \<open>sessions\<close> of the result.\<close>

definition list_sessions :: "string list \<Rightarrow> 'c engine \<Rightarrow> event list res" where
  "list_sessions order e = sort_sessions (map snapshot (sessions_in order e))"

text \<open>
  \<open>caps\<close>: the platform strings come from the runtime and from the build; \<open>ssh\<close> is
  \<open>sshShellSupported()\<close>.
\<close>

definition caps :: "string \<Rightarrow> string \<Rightarrow> string \<Rightarrow> string \<Rightarrow> bool \<Rightarrow> string list \<Rightarrow> 'c engine \<Rightarrow> event" where
  "caps goos goarch version tailcat ssh order e =
     [''platform'' \<mapsto> JStr goos, ''arch'' \<mapsto> JStr goarch, ''version'' \<mapsto> JStr version,
      ''tailcat'' \<mapsto> JStr tailcat, ''ssh_server'' \<mapsto> JBool ssh,
      ''active_session'' \<mapsto> JInt (int (active_sessions order e))]"

text \<open>
  \<open>tailcatVersion\<close>: the build information is a list of dependencies, each with the version of
  its replacement, if there is one.
\<close>

definition tailcat_version :: "(string \<times> string \<times> string option) list option \<Rightarrow> string" where
  "tailcat_version bi =
     (case bi of
        None \<Rightarrow> ''unknown''
      | Some deps \<Rightarrow>
          (case find (\<lambda>(path, _). path = ''github.com/tailscale/tailcat'') deps of
             None \<Rightarrow> ''unknown''
           | Some (_, _, Some replaced) \<Rightarrow> replaced
           | Some (_, version, None) \<Rightarrow> version))"


section \<open>Sorting the session list\<close>

definition created :: "event \<Rightarrow> int" where
  "created m = the (created_ms m)"

text \<open>\<open>ys\<close> is \<open>xs\<close> in the order of creation, equal times in the old order.\<close>

definition stably_sorted :: "event list \<Rightarrow> event list \<Rightarrow> bool" where
  "stably_sorted xs ys \<longleftrightarrow>
     mset ys = mset xs \<and> sorted (map created ys) \<and>
     (\<forall>c. filter (\<lambda>m. created m = c) ys = filter (\<lambda>m. created m = c) xs)"

lemma stably_sorted_set:
  assumes "stably_sorted xs ys"
  shows "set ys = set xs" "length ys = length xs"
  using assms unfolding stably_sorted_def by (metis mset_eq_setD, metis mset_eq_length)

lemma sift_spec:
  assumes "list_all (\<lambda>m. created_ms m \<noteq> None) (as @ [x])" "sorted (map created as)"
  shows "\<exists>ys. sift (length as) (as @ x # bs) = Inr (ys @ bs) \<and> stably_sorted (as @ [x]) ys"
  using assms
proof (induction as arbitrary: bs rule: rev_induct)
  case Nil
  show ?case by (auto simp: stably_sorted_def intro: exI [of _ "[x]"])
next
  case (snoc y as)
  obtain a b where ab: "created_ms x = Some a" "created_ms y = Some b" using snoc.prems(1) by auto
  then have c: "created x = a" "created y = b" by (simp_all add: created_def)
  show ?case
  proof (cases "a < b")
    case False
    with snoc.prems ab c show ?thesis
      by (intro exI [of _ "as @ [y, x]"])
        (auto simp: nth_append sorted_append stably_sorted_def)
  next
    case True
    have "list_all (\<lambda>m. created_ms m \<noteq> None) (as @ [x])" "sorted (map created as)"
      using snoc.prems by (simp_all add: sorted_append)
    from snoc.IH [OF this, of "y # bs"] obtain ys where
      ys: "sift (length as) (as @ x # y # bs) = Inr (ys @ y # bs)" "stably_sorted (as @ [x]) ys"
      by blast
    have "set ys = insert x (set as)" using stably_sorted_set(1) [OF ys(2)] by simp
    with ys True snoc.prems ab c show ?thesis
      by (intro exI [of _ "ys @ [y]"])
        (auto simp: nth_append sorted_append list_update_append stably_sorted_def)
  qed
qed

lemma sort_sessions_rounds:
  assumes "list_all (\<lambda>m. created_ms m \<noteq> None) out" "n < length out"
  shows "\<exists>ys. fold (\<lambda>i r. case r of Inl err \<Rightarrow> Inl err | Inr out \<Rightarrow> sift i out) [1..<Suc n] (Inr out)
      = Inr (ys @ drop (Suc n) out) \<and> stably_sorted (take (Suc n) out) ys"
  using assms(2)
proof (induction n)
  case 0
  then show ?case by (cases out) (auto simp: stably_sorted_def)
next
  case (Suc n)
  then obtain ys where ys: "fold (\<lambda>i r. case r of Inl err \<Rightarrow> Inl err | Inr out \<Rightarrow> sift i out)
        [1..<Suc n] (Inr out) = Inr (ys @ drop (Suc n) out)" "stably_sorted (take (Suc n) out) ys"
    by (metis Suc_lessD)
  have len: "length ys = Suc n"
    using stably_sorted_set(2) [OF ys(2)] Suc.prems by simp
  have d: "drop (Suc n) out = out ! Suc n # drop (Suc (Suc n)) out"
    using Suc.prems by (simp add: Cons_nth_drop_Suc)
  have t: "take (Suc (Suc n)) out = take (Suc n) out @ [out ! Suc n]"
    using Suc.prems by (simp add: take_Suc_conv_app_nth)
  have "set ys \<subseteq> set out"
    using stably_sorted_set(1) [OF ys(2)] by (auto dest: in_set_takeD)
  then have "list_all (\<lambda>m. created_ms m \<noteq> None) (ys @ [out ! Suc n])" "sorted (map created ys)"
    using assms(1) Suc.prems ys(2) by (auto simp: list_all_iff stably_sorted_def)
  from sift_spec [OF this, of "drop (Suc (Suc n)) out"] obtain zs where
    zs: "sift (Suc n) (ys @ drop (Suc n) out) = Inr (zs @ drop (Suc (Suc n)) out)"
      "stably_sorted (ys @ [out ! Suc n]) zs"
    unfolding len d by blast
  have "fold (\<lambda>i r. case r of Inl err \<Rightarrow> Inl err | Inr out \<Rightarrow> sift i out) [1..<Suc (Suc n)] (Inr out) =
      sift (Suc n) (ys @ drop (Suc n) out)"
    using ys(1) by simp
  with zs ys(2) show ?case unfolding t by (intro exI [of _ zs]) (simp add: stably_sorted_def)
qed

lemma sort_sessions_spec:
  assumes "list_all (\<lambda>m. created_ms m \<noteq> None) out"
  shows "sort_sessions out = Inr (sort_key created out)"
proof (cases out)
  case Nil
  then show ?thesis by (simp add: sort_sessions_def)
next
  case (Cons m ms)
  with sort_sessions_rounds [OF assms, of "length ms"] obtain ys where
    ys: "sort_sessions out = Inr ys" "stably_sorted out ys"
    by (auto simp: sort_sessions_def)
  have "sort_key created out = ys"
  proof (rule properties_for_sort_key)
    fix k assume "k \<in> set ys"
    have "filter (\<lambda>m. created m = created k) ys = filter (\<lambda>m. created m = created k) out"
      using ys(2) by (simp add: stably_sorted_def)
    then show "filter (\<lambda>x. created k = created x) ys = filter (\<lambda>x. created k = created x) out"
      by (simp add: eq_commute)
  qed (use ys(2) in \<open>simp_all add: stably_sorted_def\<close>)
  with ys show ?thesis by simp
qed

lemma sort_key_map: "sort_key f (map g xs) = map g (sort_key (f \<circ> g) xs)"
proof -
  have "insort_key f (g x) (map g ys) = map g (insort_key (f \<circ> g) x ys)" for x ys
    by (induction ys) simp_all
  then show ?thesis by (induction xs) (simp_all add: sort_key_def)
qed

lemma sort_key_agree: "(\<And>x. x \<in> set xs \<Longrightarrow> f x = g x) \<Longrightarrow> sort_key f xs = sort_key g xs"
proof (induction xs)
  case (Cons x xs)
  have "insort_key f x ys = insort_key g x ys" if "set ys \<subseteq> set xs" for ys
    using that Cons.prems by (induction ys) auto
  with Cons show ?case by simp
qed simp

lemma created_snapshot: "sInfo s ''created_ms'' = None \<Longrightarrow> created_ms (snapshot s) = Some (sCreated s)"
  by (simp add: created_ms_def snapshot_def Let_def map_add_def)

section \<open>Sessions under the engine's operations\<close>

lemma on_session_simps [simp]:
  "eClosed (on_session i f e) = eClosed e" "eNextID (on_session i f e) = eNextID e"
  "eSessions (on_session i f e) j = None \<longleftrightarrow> eSessions e j = None"
  "dom (eSessions (on_session i f e)) = dom (eSessions e)"
  by (auto simp: on_session_def Let_def split: option.split)

lemma on_session_other: "j \<noteq> i \<Longrightarrow> eSessions (on_session i f e) j = eSessions e j"
  by (simp add: on_session_def Let_def split: option.split)

text \<open>Stopping sessions one after the other.\<close>

definition stopped_session :: "'c session \<Rightarrow> 'c session" where
  "stopped_session s =
     s\<lparr>sState := (if active s then StateStopped else sState s),
       sDetail := (if active s then [] else sDetail s),
       sCancelled := True, sClosed := True, sClosers := (if sClosed s then sClosers s else [])\<rparr>"

lemma stopped_session_ended [simp]:
  "\<not> active (stopped_session s\<lparr>sCancelled := b\<rparr>)" "\<not> active (stopped_session s)"
  "sClosed (stopped_session s)" "sCancelled (stopped_session s)"
  by (cases "sState s"; simp add: stopped_session_def active_def)+

lemma sesn_stop: "sesn (stop now w) = stopped_session (sesn w)"
  by (cases "active (sesn w)")
    (simp_all add: stopped_session_def stop_def set_state_def shutdown_def cancel_def Let_def
      set_state_terminal terminal_active [symmetric] state_change_def, 
      auto simp: active_def terminal_def)


lemma stop_closedLog:
  "closedLog (stop now w) = closedLog w @ (if sClosed (sesn w) then [] else rev (sClosers (sesn w)))"
  by (simp add: stop_def shutdown_closers)

lemma on_session_stop:
  "eSessions e i = Some s \<Longrightarrow>
     eSessions (on_session i (stop now) e) = (eSessions e)(i \<mapsto> stopped_session s) \<and>
     eLog (on_session i (stop now) e) = eLog e @ (if sClosed s then [] else rev (sClosers s))"
  by (simp add: on_session_def Let_def sesn_stop stop_closedLog session_sys_def)

lemma stop_all_sessions:
  assumes "distinct order" "set order \<subseteq> dom (eSessions e)"
  shows "eSessions (fold (\<lambda>i. on_session i (stop now)) order e) =
      (\<lambda>i. if i \<in> set order then map_option stopped_session (eSessions e i) else eSessions e i) \<and>
    eLog (fold (\<lambda>i. on_session i (stop now)) order e) =
      eLog e @ concat (map (\<lambda>s. if sClosed s then [] else rev (sClosers s)) (sessions_in order e))"
  using assms
proof (induction order arbitrary: e)
  case Nil
  show ?case by (simp add: sessions_in_def)
next
  case (Cons i order)
  let ?e = "on_session i (stop now) e"
  obtain s where s: "eSessions e i = Some s" using Cons.prems by auto
  have e: "eSessions ?e = (eSessions e)(i \<mapsto> stopped_session s)"
      "eLog ?e = eLog e @ (if sClosed s then [] else rev (sClosers s))"
    using on_session_stop [OF s] by simp_all
  have "sessions_in order ?e = sessions_in order e"
    using Cons.prems(1) unfolding sessions_in_def e(1)
    by (induction order) (auto simp: List.map_filter_simps split: option.split)
  moreover have "set order \<subseteq> dom (eSessions ?e)" "distinct order" using Cons.prems by simp_all
  note ih = Cons.IH [OF this(2, 1)]
  ultimately show ?case
    using Cons.prems(1) s ih unfolding fold_simps comp_apply e
    by (auto simp: sessions_in_def List.map_filter_simps fun_eq_iff)
qed

lemma close_fold_fields [simp]:
  "eClosed (fold (\<lambda>i. on_session i f) order e) = eClosed e"
  by (induction order arbitrary: e) simp_all

section \<open>Identifiers\<close>

lemma kind_string_no_dash: "CHR ''-'' \<notin> set (kind_string k)"
  by (cases k) simp_all

lemma kind_string_inj: "kind_string k = kind_string k' \<Longrightarrow> k = k'"
  by (cases k; cases k') simp_all

lemma session_id_inj:
  assumes "session_id k n = session_id k' n'"
  shows "k = k' \<and> n = n'"
proof -
  have "takeWhile (\<lambda>c. c \<noteq> CHR ''-'') (session_id k n) = kind_string k" for k n
    using kind_string_no_dash [of k] by (simp add: session_id_def takeWhile_split)
  with assms have "kind_string k = kind_string k'" by metis
  then have k: "k = k'" by (rule kind_string_inj)
  with assms have "itoa (sint n) = itoa (sint n')" by (simp add: session_id_def)
  then have "sint n = sint n'" by (simp add: itoa_inj)
  with k show ?thesis by (simp add: signed_word_eqI)
qed


section \<open>The registry interface\<close>

text \<open>
  A history: registrations (\<open>Inl\<close>) and other operations. It yields the identifiers given out and
  the state reached.
\<close>

fun history ::
  "(int \<Rightarrow> kind \<Rightarrow> 'e \<Rightarrow> string res \<times> 'e) \<Rightarrow> ('o \<Rightarrow> 'e \<Rightarrow> 'e) \<Rightarrow> (int \<times> kind) + 'o \<Rightarrow> 'e \<Rightarrow>
     string list \<times> 'e" where
  "history create other (Inl (now, k)) e =
     (case create now k e of (Inr i, e) \<Rightarrow> ([i], e) | (Inl err, e) \<Rightarrow> ([], e))"
| "history create other (Inr x) e = ([], other x e)"

fun histories ::
  "(int \<Rightarrow> kind \<Rightarrow> 'e \<Rightarrow> string res \<times> 'e) \<Rightarrow> ('o \<Rightarrow> 'e \<Rightarrow> 'e) \<Rightarrow> ((int \<times> kind) + 'o) list \<Rightarrow> 'e \<Rightarrow>
     string list \<times> 'e" where
  "histories create other [] e = ([], e)"
| "histories create other (h # hs) e =
     (case history create other h e of
        (ids, e) \<Rightarrow> (case histories create other hs e of (ids', e) \<Rightarrow> (ids @ ids', e)))"

text \<open>
  What the commands rely on when they register their work: a fresh identifier that stays
  registered, whatever else happens to the engine. \<open>fits e n\<close> says that the identifiers in use
  are well formed and that \<open>n\<close> more can be handed out.
\<close>

locale session_registry =
  fixes create :: "int \<Rightarrow> kind \<Rightarrow> 'e \<Rightarrow> string res \<times> 'e"
    and known :: "'e \<Rightarrow> string \<Rightarrow> bool"
    and other :: "'o \<Rightarrow> 'e \<Rightarrow> 'e"
    and fits :: "'e \<Rightarrow> nat \<Rightarrow> bool"
  assumes create_fresh:
      "fits e (Suc n) \<Longrightarrow> create now k e = (Inr i, e') \<Longrightarrow>
         \<not> known e i \<and> known e' i \<and> fits e' n"
    and create_refused: "create now k e = (Inl err, e') \<Longrightarrow> e' = e"
    and create_keeps: "known e j \<Longrightarrow> known (snd (create now k e)) j"
    and other_keeps: "known e j \<Longrightarrow> known (other x e) j"
    and other_fits: "fits e n \<Longrightarrow> fits (other x e) n"
    and fits_less: "fits e (Suc n) \<Longrightarrow> fits e n"
begin

lemma history_step:
  assumes "history create other h e = (ids, e')" "fits e (Suc n)"
  shows "fits e' n \<and> distinct ids \<and> (\<forall>i \<in> set ids. \<not> known e i \<and> known e' i) \<and>
    (\<forall>j. known e j \<longrightarrow> known e' j)"
proof (cases h)
  case (Inl a)
  obtain now k where a: "a = (now, k)" by (cases a)
  obtain r e1 where c: "create now k e = (r, e1)" by (cases "create now k e")
  have keep: "known e j \<longrightarrow> known e1 j" for j using create_keeps [of e j now k] c by simp
  show ?thesis
  proof (cases r)
    case (Inl err)
    with c have "e1 = e" using create_refused by blast
    with Inl \<open>h = Inl a\<close> a c assms fits_less show ?thesis by auto
  next
    case (Inr i)
    with create_fresh [OF assms(2)] c \<open>h = Inl a\<close> a assms keep show ?thesis by auto
  qed
next
  case (Inr x)
  with assms other_keeps other_fits fits_less show ?thesis by auto
qed

lemma histories_distinct:
  "histories create other hs e = (ids, e') \<Longrightarrow> fits e (length hs) \<Longrightarrow>
     distinct ids \<and> (\<forall>i \<in> set ids. \<not> known e i \<and> known e' i) \<and> (\<forall>j. known e j \<longrightarrow> known e' j)"
proof (induction hs arbitrary: e ids)
  case Nil
  then show ?case by simp
next
  case (Cons h hs)
  obtain i1 e1 where h: "history create other h e = (i1, e1)" by (cases "history create other h e")
  obtain i2 where hs: "histories create other hs e1 = (i2, e')" and ids: "ids = i1 @ i2"
    using Cons.prems(1) h by (auto split: prod.splits)
  have s: "fits e1 (length hs)" "distinct i1" "\<forall>i \<in> set i1. \<not> known e i \<and> known e1 i"
      "\<forall>j. known e j \<longrightarrow> known e1 j"
    using history_step [OF h, of "length hs"] Cons.prems(2) by auto
  from Cons.IH [OF hs s(1)] s(2-4) ids show ?case by auto
qed

end

text \<open>What else happens to an engine: stops, a shutdown, and the jobs working on their sessions.\<close>

datatype session_op =
    SetState int sstate string | SetInfo string jval | SetToken int string | MarkReady
  | AddCloser string | Fail int string | Log int string "farg list"

fun session_do :: "session_op \<Rightarrow> string sys \<Rightarrow> string sys" where
  "session_do (SetState now st d) = set_state now st d"
| "session_do (SetInfo k v) = set_info k v"
| "session_do (SetToken now t) = set_token now t"
| "session_do MarkReady = mark_ready"
| "session_do (AddCloser c) = add_closer c"
| "session_do (Fail now msg) = fail now msg"
| "session_do (Log now fmt args) = session_logf now fmt args"

datatype engine_op = StopOne int string | CloseAll int "string list" | Poll int | Work string session_op

fun engine_do :: "engine_op \<Rightarrow> string engine \<Rightarrow> string engine" where
  "engine_do (StopOne now i) e = snd (stop_session now i e)"
| "engine_do (CloseAll now order) e = close_engine now order e"
| "engine_do (Poll now) e = snd (poll now e)"
| "engine_do (Work i x) e = on_session i (session_do x) e"

text \<open>Identifiers in use carry a number that has been drawn; \<open>n\<close> more draws do not wrap around.\<close>

definition ids_fit :: "'c engine \<Rightarrow> nat \<Rightarrow> bool" where
  "ids_fit e n \<longleftrightarrow>
     (\<forall>i \<in> dom (eSessions e). \<exists>k m. i = session_id k m \<and> m \<le> eNextID e) \<and>
     unat (eNextID e) + n < 2 ^ 64"

lemma fold_sessions_fields [simp]:
  "eNextID (fold (\<lambda>i. on_session i f) order e) = eNextID e"
  "dom (eSessions (fold (\<lambda>i. on_session i f) order e)) = dom (eSessions e)"
  by (induction order arbitrary: e) simp_all

lemma dom_map_option [simp]: "dom (\<lambda>i. map_option f (m i)) = dom m"
  by (simp add: dom_def)

lemma close_engine_fields [simp]:
  "eNextID (close_engine now order e) = eNextID e" "eClosed (close_engine now order e)"
  "dom (eSessions (close_engine now order e)) = dom (eSessions e)"
  by (simp_all add: close_engine_def Let_def)

lemma poll_fields [simp]: "eNextID (snd (poll now e)) = eNextID e" "eSessions (snd (poll now e)) = eSessions e"
  by (simp_all add: poll_def poll_events_def split: prod.split option.split)

lemma stop_session_fields [simp]:
  "eNextID (snd (stop_session now i e)) = eNextID e"
  "dom (eSessions (snd (stop_session now i e))) = dom (eSessions e)"
  by (simp_all add: stop_session_def split: sum.split)

lemma engine_do_fields [simp]:
  "eNextID (engine_do x e) = eNextID e" "dom (eSessions (engine_do x e)) = dom (eSessions e)"
  by (cases x; simp)+

lemma add_session_fresh:
  assumes "ids_fit e (Suc n)" "add_session now k e = (Inr i, e')"
  shows "eSessions e i = None \<and> eSessions e' i \<noteq> None \<and> ids_fit e' n"
proof -
  let ?m = "eNextID e + 1"
  have i: "i = session_id k ?m" and e': "eSessions e' = (eSessions e)(i \<mapsto> new_session now i k)"
      "eNextID e' = ?m"
    using assms(2) by (auto simp: add_session_def Let_def split: if_splits)
  have used: "\<And>j. j \<in> dom (eSessions e) \<Longrightarrow> \<exists>k m. j = session_id k m \<and> m \<le> eNextID e"
      and room: "unat (eNextID e) + Suc n < 2 ^ 64"
    using assms(1) by (auto simp: ids_fit_def)
  have m: "unat ?m = Suc (unat (eNextID e))"
    using room by (simp add: unat_word_ariths)
  have "i \<notin> dom (eSessions e)"
  proof
    assume "i \<in> dom (eSessions e)"
    then obtain k' m' where "i = session_id k' m'" "m' \<le> eNextID e"
      using used by blast
    then have "?m \<le> eNextID e" using i session_id_inj by metis
    with m show False by (simp add: word_le_nat_alt)
  qed
  moreover have le: "eNextID e \<le> ?m" using m by (simp add: word_le_nat_alt)
  have "\<exists>k m. j = session_id k m \<and> m \<le> ?m" if "j \<in> dom (eSessions e')" for j
  proof (cases "j = i")
    case True
    with i show ?thesis by blast
  next
    case False
    with that have "j \<in> dom (eSessions e)" by (simp add: e')
    then show ?thesis using used [of j] le order_trans by blast
  qed
  then have "ids_fit e' n" using m room by (simp add: ids_fit_def e'(2))
  ultimately show ?thesis by (auto simp: e')
qed

interpretation registry:
  session_registry add_session "\<lambda>e i. eSessions e i \<noteq> None" engine_do ids_fit
proof
  show "ids_fit e (Suc n) \<Longrightarrow> add_session now k e = (Inr i, e') \<Longrightarrow>
      \<not> (eSessions e i \<noteq> None) \<and> eSessions e' i \<noteq> None \<and> ids_fit e' n" for e n now k i e'
    using add_session_fresh [of e n now k i e'] by simp
  show "add_session now k e = (Inl err, e') \<Longrightarrow> e' = e" for now k e err e'
    by (auto simp: add_session_def Let_def split: if_splits)
  show "eSessions e j \<noteq> None \<Longrightarrow> eSessions (snd (add_session now k e)) j \<noteq> None" for e j now k
    by (auto simp: add_session_def Let_def)
  show "eSessions e j \<noteq> None \<Longrightarrow> eSessions (engine_do x e) j \<noteq> None" for e j x
    using engine_do_fields(2) [of x e] by (auto simp: dom_def set_eq_iff)
  show "ids_fit e n \<Longrightarrow> ids_fit (engine_do x e) n" for e n x
    by (simp add: ids_fit_def)
  show "ids_fit e (Suc n) \<Longrightarrow> ids_fit e n" for e n
    by (simp add: ids_fit_def)
qed


section \<open>Properties\<close>

text \<open>
  C30. Session identifiers are unique for the life of an engine: in any history of registrations,
  stops, polls, shutdowns and session work with fewer than 2^64 steps, no identifier is given
  out twice, and every identifier given out stays registered.
\<close>

theorem session_ids_unique:
  assumes "length hs < 2 ^ 64"
    and "histories add_session engine_do hs (new_engine url) = (ids, e)"
  shows "distinct ids \<and> list_all (\<lambda>i. eSessions e i \<noteq> None) ids"
proof -
  have "ids_fit (new_engine url :: string engine) (length hs)"
    using assms(1) by (simp add: ids_fit_def new_engine_def)
  from registry.histories_distinct [OF assms(2) this] show ?thesis
    by (simp add: list_all_iff)
qed

definition demo_history :: "((int \<times> kind) + engine_op) list" where
  "demo_history = [Inl (1, KindServer), Inr (StopOne 2 ''server-1''), Inl (3, KindServer)]"

lemma two_sessions: "fst (histories add_session engine_do demo_history (new_engine [])) =
    [''server-1'', ''server-2'']"
  by (simp add: demo_history_def add_session_def new_engine_def session_id_def itoa_def
      nat_str.simps stop_session_def find_session_def Let_def on_session_def)

theorem session_ids_unique_witness: "distinct [''server-1'', ''server-2'']"
proof -
  let ?r = "histories add_session engine_do demo_history (new_engine [])"
  have "histories add_session engine_do demo_history (new_engine []) = (fst ?r, snd ?r)" by simp
  from session_ids_unique [OF _ this] show ?thesis
    unfolding two_sessions by (simp add: demo_history_def)
qed

text \<open>
  C10. Closing the engine, with the sessions visited in any order: afterwards no session is
  active, all of them are closed and cancelled, every resource they owned has been closed once
  (those of each session in reverse order of registration), and no new session can be started.
\<close>

theorem close_engine_ends_everything:
  assumes "distinct order" "set order = dom (eSessions e)"
  shows "(\<nexists>i s. eSessions (close_engine now order e) i = Some s \<and>
      (active s \<or> \<not> sClosed s \<or> \<not> sCancelled s)) \<and>
    active_sessions order (close_engine now order e) = 0 \<and>
    eLog (close_engine now order e) =
      eLog e @ concat (map (\<lambda>s. if sClosed s then [] else rev (sClosers s)) (sessions_in order e)) \<and>
    add_session t k (close_engine now order e) =
      (Inl (err_code CodeInternal ''engine is closed'' []), close_engine now order e)"
proof -
  let ?e = "close_engine now order e"
  have sub: "set order \<subseteq> dom (eSessions (e\<lparr>eClosed := True\<rparr>))" using assms(2) by simp
  have e: "eSessions ?e i =
      map_option (\<lambda>s. s\<lparr>sCancelled := True\<rparr>) (map_option stopped_session (eSessions e i))" for i
    using stop_all_sessions [OF assms(1) sub, of now] assms(2)
    by (auto simp: close_engine_def Let_def dom_def)
  have none: "\<not> (active s \<or> \<not> sClosed s \<or> \<not> sCancelled s)" if "eSessions ?e i = Some s" for i s
    using that unfolding e by auto
  then have "filter active (sessions_in order ?e) = []"
    by (auto simp: sessions_in_def List.map_filter_def filter_empty_conv)
  moreover have "eLog ?e = eLog e @
      concat (map (\<lambda>s. if sClosed s then [] else rev (sClosers s)) (sessions_in order e))"
    using stop_all_sessions [OF assms(1) sub, of now]
    by (simp add: close_engine_def Let_def sessions_in_def)
  ultimately show ?thesis
    using none by (auto simp: active_sessions_def add_session_def)
qed

definition demo_engine :: "string engine" where
  "demo_engine =
     engine_do (Work ''socks-2'' (AddCloser ''listener''))
       (engine_do (Work ''socks-2'' (AddCloser ''client''))
         (snd (add_session 5 KindSocks (snd (add_session 5 KindServer (new_engine []))))))"

lemmas demo_engine_defs =
  demo_engine_def add_session_def new_engine_def session_id_def itoa_def nat_str.simps
  on_session_def session_sys_def add_closer_def new_session_def Let_def

lemma demo_engine_sessions:
  "eSessions demo_engine =
     [''server-1'' \<mapsto> new_session 5 ''server-1'' KindServer,
      ''socks-2'' \<mapsto> (new_session 5 ''socks-2'' KindSocks)\<lparr>sClosers := [''client'', ''listener'']\<rparr>]"
  "eLog demo_engine = []"
  by (simp_all add: demo_engine_defs)

theorem close_engine_ends_everything_witness:
  "eLog (close_engine 9 [''socks-2'', ''server-1''] demo_engine) = [''listener'', ''client''] \<and>
   active_sessions [''socks-2'', ''server-1''] (close_engine 9 [''socks-2'', ''server-1''] demo_engine) = 0"
  using close_engine_ends_everything [of "[''socks-2'', ''server-1'']" demo_engine 9]
  by (simp add: demo_engine_sessions sessions_in_def List.map_filter_simps new_session_def
      insert_commute)

text \<open>
  Stopping one session leaves all others alone; an unknown identifier is reported as
  \<open>not_found\<close> and changes nothing.
\<close>

lemma stop_session_effect:
  "fst (stop_session now i e) =
     (if eSessions e i = None then Some (err_code CodeNotFound ''no session %q'' [FStr i]) else None) \<and>
   eSessions (snd (stop_session now i e)) =
     (eSessions e)(i := map_option stopped_session (eSessions e i)) \<and>
   eLog (snd (stop_session now i e)) =
     eLog e @ (case eSessions e i of
       None \<Rightarrow> [] | Some s \<Rightarrow> if sClosed s then [] else rev (sClosers s))"
  using on_session_stop [of e i _ now]
  by (cases "eSessions e i") (auto simp: stop_session_def find_session_def fun_upd_idem)

text \<open>
  C25. The list of sessions is complete and sorted by creation time, equal times in the order in
  which the map was visited, provided no session stores its own \<open>created_ms\<close> field; the hand-written
  loop is a stable sort.
\<close>

theorem list_sessions_sorted:
  assumes "list_all (\<lambda>s. sInfo s ''created_ms'' = None) (sessions_in order e)"
  shows "list_sessions order e = Inr (map snapshot (sort_key sCreated (sessions_in order e)))"
proof -
  let ?ss = "sessions_in order e"
  have "list_all (\<lambda>m. created_ms m \<noteq> None) (map snapshot ?ss)"
    using assms by (auto simp: list_all_iff created_snapshot)
  then have "list_sessions order e = Inr (sort_key created (map snapshot ?ss))"
    by (simp add: list_sessions_def sort_sessions_spec)
  also have "\<dots> = Inr (map snapshot (sort_key (created \<circ> snapshot) ?ss))"
    by (simp add: sort_key_map)
  also have "sort_key (created \<circ> snapshot) ?ss = sort_key sCreated ?ss"
    using assms by (intro sort_key_agree) (auto simp: list_all_iff created_def created_snapshot)
  finally show ?thesis .
qed

theorem list_sessions_sorted_witness:
  "list_sessions [''socks-2'', ''server-1''] demo_engine =
     Inr (map snapshot
       [(new_session 5 ''socks-2'' KindSocks)\<lparr>sClosers := [''client'', ''listener'']\<rparr>,
        new_session 5 ''server-1'' KindServer])"
  using list_sessions_sorted [of "[''socks-2'', ''server-1'']" demo_engine]
  by (simp add: demo_engine_sessions sessions_in_def List.map_filter_simps new_session_def sort_key_def)

text \<open>
  The order is not determined by the state, although the code calls it stable: two sessions
  created in the same millisecond are listed in either order, as the map happens to be visited.
\<close>

lemma list_sessions_order_open:
  "list_sessions [''socks-2'', ''server-1''] demo_engine \<noteq>
   list_sessions [''server-1'', ''socks-2''] demo_engine"
proof -
  have "snapshot (new_session 5 ''server-1'' KindServer) ''session_id'' \<noteq>
      snapshot ((new_session 5 ''socks-2'' KindSocks)\<lparr>sClosers := [''client'', ''listener'']\<rparr>) ''session_id''"
    by (simp add: snapshot_def new_session_def Let_def)
  then have ne: "snapshot (new_session 5 ''server-1'' KindServer) \<noteq>
      snapshot ((new_session 5 ''socks-2'' KindSocks)\<lparr>sClosers := [''client'', ''listener'']\<rparr>)"
    by metis
  show ?thesis
    using ne [symmetric] by (simp add: list_sessions_def sort_sessions_def demo_engine_sessions sessions_in_def
        List.map_filter_simps created_snapshot new_session_def)
qed

end
