(* ===== verification/Go_Float.thy ===== *)
theory Go_Float
  imports Go_Numbers "HOL-Library.Log_Nat"
begin

text \<open>
  Go's \<open>float64\<close>: finite values are rationals, operations are exact operations followed by
  \<open>round64\<close>, the rounding to the nearest float with ties to even. \<open>float_text\<close> is the shortest decimal
  that reads back as the float, in the format of \<open>encoding/json\<close>.
\<close>

section \<open>Rounding\<close>

text \<open>The exponent of the leading bit of a positive number.\<close>

definition lead_exp :: "rat \<Rightarrow> int" where
  "lead_exp x =
     (case quotient_of x of
        (a, b) \<Rightarrow> let k = bitlen a - bitlen b in if 2 powi k \<le> x then k else k - 1)"

text \<open>The exponent of the last bit of a float near the number: 52 bits follow the leading one.\<close>

definition last_exp :: "rat \<Rightarrow> int" where
  "last_exp x = max (lead_exp x - 52) (- 1074)"

definition round_even :: "rat \<Rightarrow> int" where
  "round_even q =
     (let f = \<lfloor>q\<rfloor>; d = q - of_int f
      in if d < 1 / 2 \<or> d = 1 / 2 \<and> even f then f else f + 1)"

definition round_pos :: "rat \<Rightarrow> rat" where
  "round_pos x = of_int (round_even (x / 2 powi last_exp x)) * 2 powi last_exp x"

definition round64 :: "rat \<Rightarrow> rat" where
  "round64 x = (if x = 0 then 0 else if x < 0 then - round_pos (- x) else round_pos x)"

text \<open>What rounds to this or more is an infinity.\<close>

definition float_limit :: rat where
  "float_limit = 2 ^ 1024"

definition float64 :: "rat \<Rightarrow> bool" where
  "float64 x \<longleftrightarrow> round64 x = x \<and> \<bar>x\<bar> < float_limit"

section \<open>The shortest decimal\<close>

text \<open>
  \<open>strconv.FormatFloat\<close> with precision \<open>-1\<close>: digits are added until the number rounded down or up at
  that place reads back as the float; when both do, the nearer one is taken. A float is a multiple
  of \<open>2^(-1074)\<close>, so the expansion is exact at the latest at that place.
\<close>

definition dec_value :: "nat \<times> int \<Rightarrow> rat" where
  "dec_value dk = of_nat (fst dk) * 10 powi snd dk"

definition candidate :: "int \<Rightarrow> rat \<Rightarrow> nat option" where
  "candidate k x =
     (let q = x / 10 powi k; down = nat \<lfloor>q\<rfloor>; reads = (\<lambda>d. round64 (dec_value (d, k)) = x)
      in if reads down \<and> reads (Suc down) then Some (nat (round_even q))
         else if reads down then Some down
         else if reads (Suc down) then Some (Suc down)
         else None)"

primrec digits_from :: "nat \<Rightarrow> rat \<Rightarrow> nat \<times> int" where
  "digits_from 0 x = (nat \<lfloor>x / 10 powi - 1074\<rfloor>, - 1074)"
| "digits_from (Suc n) x =
     (case candidate (int n - 1073) x of Some d \<Rightarrow> (d, int n - 1073) | None \<Rightarrow> digits_from n x)"

text \<open>The place of the first digit, from an estimate by the binary exponent.\<close>

definition dec_exp :: "rat \<Rightarrow> int" where
  "dec_exp x =
     (let k = lead_exp x * 30103 div 100000
      in if 10 powi (k + 1) \<le> x then k + 1 else if 10 powi k \<le> x then k else k - 1)"

fun trim_zeros :: "nat \<Rightarrow> int \<Rightarrow> nat \<times> int" where
  "trim_zeros d k = (if 0 < d \<and> d mod 10 = 0 then trim_zeros (d div 10) (k + 1) else (d, k))"

declare trim_zeros.simps [simp del]

definition shortest :: "rat \<Rightarrow> nat \<times> int" where
  "shortest x = (case digits_from (nat (dec_exp x + 1074)) x of (d, k) \<Rightarrow> trim_zeros d k)"

text \<open>The formats \<open>f\<close> and \<open>e\<close>, the exponent without the leading zero that JSON removes.\<close>

definition text_f :: "nat \<Rightarrow> int \<Rightarrow> string" where
  "text_f d k =
     (let ds = nat_str d; n = nat (- k)
      in if 0 \<le> k then ds @ replicate (nat k) (CHR ''0'')
         else if n < length ds then take (length ds - n) ds @ CHR ''.'' # drop (length ds - n) ds
         else ''0.'' @ replicate (n - length ds) (CHR ''0'') @ ds)"

definition text_e :: "nat \<Rightarrow> int \<Rightarrow> string" where
  "text_e d k =
     (let ds = nat_str d; ex = k + int (length ds) - 1
      in hd ds # (if tl ds = [] then [] else CHR ''.'' # tl ds) @
         CHR ''e'' # (if ex < 0 then CHR ''-'' else CHR ''+'') # nat_str (nat \<bar>ex\<bar>))"

definition pos_text :: "rat \<Rightarrow> string" where
  "pos_text x =
     (case shortest x of
        (d, k) \<Rightarrow> if x < 1 / 10 ^ 6 \<or> 10 ^ 21 \<le> x then text_e d k else text_f d k)"

definition float_text :: "rat \<Rightarrow> string" where
  "float_text x =
     (if x = 0 then ''0'' else if x < 0 then CHR ''-'' # pos_text (- x) else pos_text x)"

section \<open>Facts about rounding\<close>

lemma powi_int: "0 \<le> i \<Longrightarrow> (2 :: rat) powi i = of_int (2 ^ nat i)"
  by (simp add: power_int_def)

lemma powi_less_imp: "(2 :: rat) powi i < 2 powi j \<Longrightarrow> i < j"
  by (meson linorder_not_less one_le_numeral power_int_increasing)

lemma powi_le_imp: "(2 :: rat) powi i \<le> 2 powi j \<Longrightarrow> i \<le> j"
  using power_int_strict_increasing [of j i "2 :: rat"] by linarith

lemma lead_exp_bounds:
  assumes "0 < x"
  shows "2 powi lead_exp x \<le> x" "x < 2 powi (lead_exp x + 1)"
proof -
  obtain a b where q: "quotient_of x = (a, b)" by (cases "quotient_of x")
  have b: "0 < b" using quotient_of_denom_pos [OF q] .
  have x: "x = of_int a / of_int b" using quotient_of_div [OF q] .
  have a: "0 < a" using assms b by (simp add: x zero_less_divide_iff)
  have bits: "2 powi (bitlen n - 1) \<le> (of_int n :: rat) \<and> (of_int n :: rat) < 2 powi bitlen n" if "0 < n" for n
  proof -
    have "0 < bitlen n" using that by (simp add: bitlen_def floorlog_eq_zero_iff flip: neq0_conv)
    then show ?thesis
      using bitlen_bounds [OF that] by (simp only: powi_int of_int_le_iff of_int_less_iff)
  qed
  note ar = bits [OF a, THEN conjunct1] bits [OF a, THEN conjunct2]
  note br = bits [OF b, THEN conjunct1] bits [OF b, THEN conjunct2]
  let ?k = "bitlen a - bitlen b"
  have "2 powi (?k - 1) \<le> x"
  proof -
    have "2 powi (?k - 1) = (2 :: rat) powi (bitlen a - 1) / 2 powi bitlen b"
      by (simp add: power_int_diff)
    also have "\<dots> \<le> of_int a / of_int b"
      using ar br a b by (intro frac_le) auto
    finally show ?thesis by (simp add: x)
  qed
  moreover have "x < 2 powi (?k + 1)"
  proof -
    have "0 \<le> a" using a by simp
    then have "of_int a / of_int b < (2 :: rat) powi bitlen a / 2 powi (bitlen b - 1)"
      using ar br by (intro frac_less) auto
    also have "\<dots> = 2 powi (?k + 1)" by (simp add: power_int_diff power_int_add)
    finally show ?thesis by (simp add: x)
  qed
  ultimately show "2 powi lead_exp x \<le> x" "x < 2 powi (lead_exp x + 1)"
    by (auto simp: lead_exp_def q Let_def)
qed

lemma round_even_int [simp]: "round_even (of_int i) = i"
  by (simp add: round_even_def)

lemma round_even_near: "\<bar>of_int (round_even q) - q\<bar> \<le> 1 / 2"
  using of_int_floor_le [of q] floor_correct [of q] by (auto simp: round_even_def Let_def)

lemma round_even_le: "q \<le> of_int i \<Longrightarrow> round_even q \<le> i"
proof -
  assume q: "q \<le> of_int i"
  then have "\<lfloor>q\<rfloor> \<le> i" by linarith
  show ?thesis
  proof (cases "\<lfloor>q\<rfloor> = i")
    case True
    with q have "q = of_int i" by linarith
    then show ?thesis by simp
  next
    case False
    with \<open>\<lfloor>q\<rfloor> \<le> i\<close> show ?thesis by (auto simp: round_even_def Let_def)
  qed
qed

lemma round_even_nonneg: "0 \<le> q \<Longrightarrow> 0 \<le> round_even q"
  by (auto simp: round_even_def Let_def)

text \<open>Numbers of at most 53 bits are floats, so that rounding gives floats.\<close>

lemma round_pos_exact:
  assumes "x = of_int m * 2 powi e" "0 < m" "m \<le> 2 ^ 53" "- 1074 \<le> e"
  shows "round_pos x = x"
proof -
  have x: "0 < x" using assms by simp
  have "last_exp x \<le> e \<or> x = 2 ^ 53 * 2 powi e \<and> last_exp x \<le> e + 1"
  proof (cases "m = 2 ^ 53")
    case True
    then have e: "x = 2 powi (e + 53)" using assms(1) by (simp add: power_int_add)
    have "(2 :: rat) powi lead_exp x \<le> 2 powi (e + 53)" using lead_exp_bounds(1) [OF x] e by simp
    then have "lead_exp x \<le> e + 53" by (rule powi_le_imp)
    with True assms show ?thesis by (simp add: last_exp_def)
  next
    case False
    then have "of_int m < (2 :: rat) ^ 53" using assms(3) by (metis of_int_less_iff of_int_numeral of_int_power order_le_less)
    then have "x < 2 powi (e + 53)" using assms(1) by (simp add: power_int_add)
    with lead_exp_bounds(1) [OF x] have "(2 :: rat) powi lead_exp x < 2 powi (e + 53)" by linarith
    then have "lead_exp x < e + 53" by (rule powi_less_imp)
    with assms show ?thesis by (simp add: last_exp_def)
  qed
  then have "\<exists>i. x / 2 powi last_exp x = of_int i"
  proof
    assume le: "last_exp x \<le> e"
    have "x / 2 powi last_exp x = of_int m * 2 powi (e - last_exp x)"
      by (simp add: assms(1) power_int_diff)
    also have "\<dots> = of_int (m * 2 ^ nat (e - last_exp x))" using le by (simp add: power_int_def)
    finally show ?thesis by blast
  next
    assume le: "x = 2 ^ 53 * 2 powi e \<and> last_exp x \<le> e + 1"
    then have "x / 2 powi last_exp x = 2 ^ 52 * (2 powi (e + 1) / 2 powi last_exp x)"
      by (simp add: power_int_add)
    also have "2 powi (e + 1) / 2 powi last_exp x = (2 :: rat) powi (e + 1 - last_exp x)"
      by (simp add: power_int_diff)
    also have "2 ^ 52 * \<dots> = of_int (2 ^ 52 * 2 ^ nat (e + 1 - last_exp x))"
      using conjunct2 [OF le] by (simp add: powi_int)
    finally show ?thesis by blast
  qed
  then obtain i where "x / 2 powi last_exp x = of_int i" ..
  moreover from this have "of_int i * 2 powi last_exp x = x" by (simp add: field_simps)
  ultimately show ?thesis by (simp add: round_pos_def)
qed

lemma round_pos_form:
  assumes "0 < x"
  obtains m where "round_pos x = of_int m * 2 powi last_exp x" "0 \<le> m" "m \<le> 2 ^ 53"
proof
  let ?q = "x / 2 powi last_exp x"
  show "round_pos x = of_int (round_even ?q) * 2 powi last_exp x" by (simp add: round_pos_def)
  show "0 \<le> round_even ?q" using assms by (intro round_even_nonneg) simp
  have "x < 2 powi (last_exp x + 53)"
  proof -
    have "(2 :: rat) powi (lead_exp x + 1) \<le> 2 powi (last_exp x + 53)"
      by (rule power_int_increasing) (simp_all add: last_exp_def)
    with lead_exp_bounds(2) [OF assms] show ?thesis by linarith
  qed
  then have "?q < 2 ^ 53" by (simp add: power_int_add field_simps)
  then show "round_even ?q \<le> 2 ^ 53" by (intro round_even_le) simp
qed

lemma round_pos_nonneg: "0 < x \<Longrightarrow> 0 \<le> round_pos x"
  by (rule round_pos_form [of x]) simp_all

lemma round_pos_idem: "0 < x \<Longrightarrow> 0 < round_pos x \<Longrightarrow> round_pos (round_pos x) = round_pos x"
proof (rule round_pos_form [of x])
  fix m
  assume "0 < round_pos x" "round_pos x = of_int m * 2 powi last_exp x" "0 \<le> m" "m \<le> 2 ^ 53"
  then show ?thesis
    by (intro round_pos_exact [where m = m and e = "last_exp x"])
      (auto simp: last_exp_def zero_less_mult_iff)
qed

lemma round64_0 [simp]: "round64 0 = 0"
  by (simp add: round64_def)

lemma round64_minus [simp]: "round64 (- x) = - round64 x"
  by (simp add: round64_def)

lemma round64_pos: "0 < x \<Longrightarrow> round64 x = round_pos x"
  by (simp add: round64_def)

lemma round64_idem [simp]: "round64 (round64 x) = round64 x"
proof -
  have "round64 (round64 y) = round64 y" if "0 < y" for y
    using that round_pos_nonneg [of y] round_pos_idem [of y]
    by (cases "round_pos y = 0") (simp_all add: round64_pos)
  from this [of x] this [of "- x"] show ?thesis
    by (cases x "0 :: rat" rule: linorder_cases) simp_all
qed

lemma round64_int:
  assumes "\<bar>i\<bar> \<le> 2 ^ 53"
  shows "round64 (of_int i) = of_int i"
proof -
  have "round64 (of_int j) = of_int j" if "0 < j" "j \<le> 2 ^ 53" for j
    using that round_pos_exact [of "of_int j" j 0] by (simp add: round64_pos)
  from this [of i] this [of "- i"] assms show ?thesis
    by (cases i "0 :: int" rule: linorder_cases) simp_all
qed

lemma round64_nonneg: "0 \<le> x \<Longrightarrow> 0 \<le> round64 x"
  using round_pos_nonneg [of x] by (cases "x = 0") (simp_all add: round64_pos)

section \<open>Facts about decimals\<close>

lemma candidate_reads:
  assumes "candidate k x = Some d"
  shows "round64 (dec_value (d, k)) = x"
proof (cases "0 \<le> x / 10 powi k")
  case True
  then have "nat (round_even (x / 10 powi k)) \<in> {nat \<lfloor>x / 10 powi k\<rfloor>, Suc (nat \<lfloor>x / 10 powi k\<rfloor>)}"
    by (auto simp: round_even_def Let_def nat_add_distrib)
  with assms show ?thesis by (auto simp: candidate_def Let_def split: if_splits)
next
  case False
  then have "x / 10 powi k \<le> of_int 0" by linarith
  moreover have "round_even q \<le> 0 \<and> \<lfloor>q\<rfloor> \<le> 0" if "q \<le> of_int 0" for q
    using round_even_le [OF that] that by linarith
  ultimately have "round_even (x / 10 powi k) \<le> 0 \<and> \<lfloor>x / 10 powi k\<rfloor> \<le> 0" by blast
  then have "nat (round_even (x / 10 powi k)) = nat \<lfloor>x / 10 powi k\<rfloor>" by simp
  with assms show ?thesis by (auto simp: candidate_def Let_def split: if_splits)
qed

lemma scale_ten:
  assumes "0 \<le> e + int n"
  shows "of_int m * 2 powi e = of_int (m * 2 ^ nat (e + int n) * 5 ^ n) * (10 :: rat) powi (- int n)"
proof -
  have t: "(10 :: rat) ^ n = 2 ^ n * 5 ^ n" by (simp flip: power_mult_distrib)
  have "of_int (m * 2 ^ nat (e + int n) * 5 ^ n) * (10 :: rat) powi (- int n) =
      of_int m * 2 powi (e + int n) * 5 ^ n / 10 ^ n"
    using assms by (simp add: powi_int power_int_minus field_simps)
  also have "\<dots> = of_int m * 2 powi e"
    by (simp add: t power_int_add)
  finally show ?thesis ..
qed

lemma float_scaled:
  assumes "round64 x = x" "0 < x"
  obtains i where "x = of_int i * 10 powi - 1074"
proof (rule round_pos_form [OF assms(2)])
  fix m
  assume m: "round_pos x = of_int m * 2 powi last_exp x"
  have "0 \<le> last_exp x + int 1074" by (simp add: last_exp_def)
  from scale_ten [OF this, of m] m assms that show thesis
    unfolding of_nat_numeral by (metis round64_pos)
qed

lemma scaled_floor: "x = of_int i * z \<Longrightarrow> 0 < z \<Longrightarrow> 0 < x \<Longrightarrow> 0 < i \<and> \<lfloor>x / z\<rfloor> = i" for x z :: rat
  by (simp add: zero_less_mult_iff)

lemma digits_from_reads:
  assumes "round64 x = x" "0 < x"
  shows "round64 (dec_value (digits_from n x)) = x"
proof (induction n)
  case 0
  obtain i where i: "x = of_int i * 10 powi - 1074" using assms by (rule float_scaled)
  moreover have "(0 :: rat) < 10 powi - 1074" by (rule zero_less_power_int) simp
  ultimately have f: "0 < i" "\<lfloor>x / 10 powi - 1074\<rfloor> = i" using scaled_floor assms(2) by blast+
  have "dec_value (digits_from 0 x) = of_nat (nat i) * 10 powi - 1074"
    by (simp only: digits_from.simps dec_value_def fst_conv snd_conv f)
  also have "(of_nat (nat i) :: rat) = of_int i" using \<open>0 < i\<close> by simp
  finally have "dec_value (digits_from 0 x) = x" using i by (simp only:)
  with assms(1) show ?case by (simp only:)
next
  case (Suc n)
  then show ?case by (auto split: option.split dest: candidate_reads)
qed

lemma trim_zeros_value: "dec_value (trim_zeros d k) = dec_value (d, k)"
proof (induction d k rule: trim_zeros.induct)
  case (1 d k)
  show ?case
  proof (cases "0 < d \<and> d mod 10 = 0")
    case True
    then have "d = d div 10 * 10" by auto
    then have "of_nat d = of_nat (d div 10) * (10 :: rat)" by (metis of_nat_mult of_nat_numeral)
    with 1 True show ?thesis by (simp add: trim_zeros.simps [of d] dec_value_def power_int_add)
  next
    case False
    then show ?thesis by (subst trim_zeros.simps) (simp only: if_False)
  qed
qed

lemma shortest_reads: "round64 x = x \<Longrightarrow> 0 < x \<Longrightarrow> round64 (dec_value (shortest x)) = x"
  using digits_from_reads [of x] by (auto simp: shortest_def trim_zeros_value split: prod.split) (metis)

text \<open>Digits, places and sizes.\<close>

lemma digits_val_append: "digits_val (xs @ ys) = digits_val xs * 10 ^ length ys + digits_val ys"
proof (induction ys rule: rev_induct)
  case (snoc y ys)
  have "digits_val (zs @ [y]) = 10 * digits_val zs + digit_val y" for zs by (simp add: digits_val_def)
  from this [of "xs @ ys"] this [of ys] snoc show ?case by (simp add: algebra_simps)
qed (simp add: digits_val_def)

lemma digits_val_zeros [simp]: "digits_val (replicate n (CHR ''0'')) = 0"
  by (induction n) (simp_all add: digits_val_def digit_val_def)

lemma nat_str_size: "0 < n \<Longrightarrow> 10 ^ (length (nat_str n) - 1) \<le> n"
proof (induction n rule: nat_str.induct)
  case (1 n)
  show ?case
  proof (cases "n < 10")
    case True
    with 1(2) show ?thesis by (simp add: nat_str.simps [of n])
  next
    case False
    then have "10 ^ (length (nat_str (n div 10)) - 1) \<le> n div 10" using 1 by simp
    moreover obtain m where "length (nat_str (n div 10)) = Suc m"
      by (metis length_0_conv nat_str_nonempty not0_implies_Suc)
    ultimately show ?thesis using False by (simp add: nat_str.simps [of n])
  qed
qed

lemma round_pos_half: "1 \<le> x \<Longrightarrow> x / 2 \<le> round_pos x"
proof -
  assume x: "1 \<le> x"
  then have "lead_exp x + 1 > 0"
    using lead_exp_bounds(2) [of x] powi_less_imp [of 0 "lead_exp x + 1"] by simp
  then have e: "last_exp x = lead_exp x - 52" by (simp add: last_exp_def)
  let ?u = "(2 :: rat) powi last_exp x"
  have u: "0 < ?u" "?u \<le> x"
    using lead_exp_bounds(1) [of x] x power_int_increasing [of "last_exp x" "lead_exp x" "2 :: rat"] e by auto
  have "x / ?u - 1 / 2 \<le> of_int (round_even (x / ?u))" using round_even_near [of "x / ?u"] by linarith
  then have "(x / ?u - 1 / 2) * ?u \<le> round_pos x" unfolding round_pos_def using u by (intro mult_right_mono) simp_all
  with u show ?thesis by (simp add: left_diff_distrib)
qed

text \<open>Rounding does not get past a power of two.\<close>

lemma round_pos_le_power:
  assumes "0 < x" "x \<le> 2 powi n" "- 1021 \<le> n"
  shows "round_pos x \<le> 2 powi n"
proof (cases "x = 2 powi n")
  case True
  then have "x = of_int 1 * 2 powi n" by simp
  with assms(3) show ?thesis using round_pos_exact [of x 1 n] True by simp
next
  case False
  then have "(2 :: rat) powi lead_exp x < 2 powi n" using assms(2) lead_exp_bounds(1) [OF assms(1)] by linarith
  then have "last_exp x \<le> n - 53" using powi_less_imp assms(3) by (force simp: last_exp_def)
  then have p: "(2 :: rat) powi last_exp x \<le> 2 powi (n - 53)" by (rule power_int_increasing) simp
  obtain m where m: "round_pos x = of_int m * 2 powi last_exp x" "0 \<le> m" "m \<le> 2 ^ 53"
    using round_pos_form [OF assms(1)] .
  have "(of_int m :: rat) \<le> 2 ^ 53" using m(3) by (metis of_int_le_iff of_int_numeral of_int_power)
  then have "of_int m * 2 powi last_exp x \<le> 2 ^ 53 * (2 :: rat) powi (n - 53)"
    using p by (intro mult_mono) simp_all
  also have "\<dots> = 2 powi n" by (simp add: power_int_diff)
  finally show ?thesis using m(1) by simp
qed

lemma round64_le_power:
  assumes "\<bar>x\<bar> \<le> 2 powi n" "- 1021 \<le> n"
  shows "\<bar>round64 x\<bar> \<le> 2 powi n"
proof -
  have "\<bar>round64 y\<bar> \<le> 2 powi n" if "0 < y" "y \<le> 2 powi n" for y
    using round_pos_le_power [OF that assms(2)] round_pos_nonneg [OF that(1)] that(1) by (simp add: round64_pos)
  from this [of x] this [of "- x"] assms(1) show ?thesis
    by (cases x "0 :: rat" rule: linorder_cases) auto
qed

lemma digits_from_place: "- 1074 \<le> snd (digits_from n x)"
proof (induction n)
  case 0
  show ?case by (simp only: digits_from.simps snd_conv order_refl)
next
  case (Suc n)
  then show ?case by (auto split: option.split)
qed

lemma trim_zeros_place: "k \<le> snd (trim_zeros d k)"
proof (induction d k rule: trim_zeros.induct)
  case (1 d k)
  show ?case
  proof (cases "0 < d \<and> d mod 10 = 0")
    case True
    then have "trim_zeros d k = trim_zeros (d div 10) (k + 1)"
      by (subst trim_zeros.simps) (simp only: simp_thms if_True)
    with 1 [OF True] show ?thesis by (simp only:)
  next
    case False
    then show ?thesis by (subst trim_zeros.simps) (simp only: if_False snd_conv order_refl)
  qed
qed

lemma shortest_place: "- 1074 \<le> snd (shortest x)"
  using digits_from_place [of "nat (dec_exp x + 1074)" x] trim_zeros_place
  by (auto simp: shortest_def split: prod.split intro: order_trans)

lemma float_limit_sizes: "1 \<le> float_limit" "4 * float_limit = 2 powi 1026"
  by (simp_all add: float_limit_def)

lemma shortest_size:
  assumes "round64 x = x" "0 < x" "x < float_limit" "shortest x = (d, k)"
  shows "k + int (length (nat_str d)) - 1 < 1026"
proof (rule ccontr)
  let ?v = "dec_value (d, k)"
  obtain n where l: "length (nat_str d) = Suc n" by (cases "nat_str d") auto
  assume "\<not> ?thesis"
  then have n: "1026 \<le> k + int n" using l by simp
  have r: "round64 ?v = x" using shortest_reads [OF assms(1,2)] assms(4) by (simp only:)
  have "d \<noteq> 0"
  proof
    assume "d = 0"
    then have "?v = 0" by (simp add: dec_value_def)
    with r assms(2) show False by simp
  qed
  then have "10 ^ n \<le> d" using nat_str_size [of d] l by simp
  then have "of_nat (10 ^ n) \<le> (of_nat d :: rat)" by (simp only: of_nat_le_iff)
  then have "of_nat (10 ^ n) * 10 powi k \<le> ?v"
    unfolding dec_value_def fst_conv snd_conv by (rule mult_right_mono) simp
  moreover have "of_nat (10 ^ n) * 10 powi k = (10 :: rat) powi (k + int n)" by (simp add: power_int_add)
  moreover have "(2 :: rat) powi (k + int n) \<le> 10 powi (k + int n)" by (rule power_int_mono) (use n in simp_all)
  moreover have "(2 :: rat) powi 1026 \<le> 2 powi (k + int n)" by (rule power_int_increasing) (use n in simp_all)
  ultimately have v: "4 * float_limit \<le> ?v" unfolding float_limit_sizes by linarith
  with float_limit_sizes(1) have "1 \<le> ?v" "0 < ?v" by linarith+
  then have "?v / 2 \<le> round64 ?v" using round_pos_half [of ?v] by (simp only: round64_pos)
  with v r assms(3) float_limit_sizes(1) show False by linarith
qed

end
