(* ===== verification/Tokens.thy ===== *)
theory Tokens
  imports Go_Float Go_Strings Go_Numbers Go_Net Api_Errors
begin

text \<open>
  Tokens and addresses that users type (\<open>normalizeToken\<close>, \<open>parseToken\<close>, \<open>listenAddr\<close>,
  \<open>classifyPing\<close> and \<open>ping\<close> in \<open>core/engine/engine.go\<close>, \<open>sshCommand\<close> in \<open>forward.go\<close>). The
  DNS resolver and tailcat's \<open>ParseConnBlob\<close> are arguments.
\<close>

section \<open>Tokens\<close>

text \<open>
  What \<open>tailcat.ParseConnBlob\<close> returns, as far as it is used: the region id, the server's public
  key as text, and the embedded regions (code and name; \<open>None\<close> is a nil pointer).
\<close>

record conn_info =
  ciRegionID :: int
  ciServerPublic :: string
  ciRegion :: "(string \<times> string) option list"

type_synonym resolver = "string \<Rightarrow> string list res"
type_synonym blob_parser = "string \<Rightarrow> conn_info res"

fun first_tailcat :: "string list \<Rightarrow> string option" where
  "first_tailcat [] = None"
| "first_tailcat (t # ts) =
     (case cut_prefix t ''tailcat='' of Some v \<Rightarrow> Some (trim_space v) | None \<Rightarrow> first_tailcat ts)"

definition normalize_token :: "resolver \<Rightarrow> blob_parser \<Rightarrow> string \<Rightarrow> string res" where
  "normalize_token lookup parse tok =
     (let tok = trim_prefix (trim_space tok) ''tailcat='';
          check = (\<lambda>tok. case parse tok of
             Inl err \<Rightarrow> Inl (err_code CodeInvalidToken ''invalid token: %v'' [FErr err])
           | Inr _ \<Rightarrow> Inr tok)
      in if tok = [] then Inl (err_code CodeInvalidToken ''empty token'' [])
         else if CHR ''.'' \<in> set tok \<and> \<not> has_prefix tok ''tc''
         then case lookup tok of
                Inl err \<Rightarrow> Inl (err_code CodeInvalidToken ''lookup TXT %q: %v'' [FStr tok, FErr err])
              | Inr txts \<Rightarrow> check (case first_tailcat txts of Some v \<Rightarrow> v | None \<Rightarrow> tok)
         else check tok)"

text \<open>The JSON fields of the answer.\<close>

definition token_info :: "string \<Rightarrow> conn_info \<Rightarrow> string \<Rightarrow> jval option" where
  "token_info cb ci =
     (let res = [''valid'' \<mapsto> JBool True, ''token'' \<mapsto> JStr cb, ''region_id'' \<mapsto> JInt (ciRegionID ci),
                 ''public_key'' \<mapsto> JStr (ciServerPublic ci), ''embedded'' \<mapsto> JBool (ciRegion ci \<noteq> [])]
      in case ciRegion ci of
           Some (code, name) # _ \<Rightarrow> res(''region_code'' \<mapsto> JStr code, ''region_name'' \<mapsto> JStr name)
         | _ \<Rightarrow> res)"

definition parse_token :: "resolver \<Rightarrow> blob_parser \<Rightarrow> string \<Rightarrow> event res" where
  "parse_token lookup parse tok =
     (case normalize_token lookup parse tok of
        Inl err \<Rightarrow> Inl err
      | Inr cb \<Rightarrow>
          (case parse cb of
             Inl err \<Rightarrow> Inl (err_code CodeInvalidToken ''invalid token: %v'' [FErr err])
           | Inr ci \<Rightarrow> Inr (token_info cb ci)))"

section \<open>Pings\<close>

text \<open>The fields of \<open>ipnstate.PingResult\<close> that are used; a latency is a float.\<close>

record ping_result =
  prEndpoint :: string
  prRegionCode :: string
  prRegionID :: int
  prLatencySeconds :: rat

definition latency_ms :: "ping_result \<Rightarrow> rat" where
  "latency_ms pr = round64 (prLatencySeconds pr * 1000)"

definition classify_ping :: "string \<Rightarrow> string \<Rightarrow> int \<Rightarrow> string \<times> string" where
  "classify_ping endpoint code rid =
     (if endpoint \<noteq> [] then (''direct'', endpoint)
      else if code \<noteq> [] then (''derp'', ''DERP('' @ code @ '')'')
      else if rid \<noteq> 0 then (''derp'', ''DERP('' @ itoa rid @ '')'')
      else (''derp'', ''DERP''))"

definition classify :: "ping_result \<Rightarrow> string \<times> string" where
  "classify pr = classify_ping (prEndpoint pr) (prRegionCode pr) (prRegionID pr)"

text \<open>
  A timeout argument in seconds; the float product is truncated to nanoseconds. What does not fit the
  64 bits of a \<open>Duration\<close> is converted in a way that Go leaves to the machine, \<open>wide\<close>.
\<close>

definition timeout_ns :: "(rat \<Rightarrow> int) \<Rightarrow> rat \<Rightarrow> int \<Rightarrow> int" where
  "timeout_ns wide given default_s =
     (if 0 < given
      then let ns = round64 (given * 1000000000) in if ns < 2 ^ 63 then \<lfloor>ns\<rfloor> else wide ns
      else default_s * 1000000000)"

text \<open>So a time limit of 300 years is no longer in the hands of the program.\<close>

lemma long_timeout_wide: "timeout_ns wide (10 ^ 10) default_s = wide (10 ^ 19)"
proof -
  have "round64 (10 ^ 10 * 1000000000) = 10 ^ 19"
    using round_pos_exact [of "10 ^ 19" "5 ^ 19" 19] by (simp add: round64_pos)
  then show ?thesis by (simp add: timeout_ns_def)
qed

text \<open>
  \<open>ping\<close> after the token: \<open>warm\<close> is the error of \<open>warmClient\<close>, \<open>disco\<close> the outcome of
  \<open>DiscoPing\<close>, \<open>elapsed\<close> the milliseconds since the start.
\<close>

definition ping :: "string res \<Rightarrow> gerror option \<Rightarrow> ping_result res \<Rightarrow> rat \<Rightarrow> event res" where
  "ping cb warm disco elapsed =
     (case cb of
        Inl err \<Rightarrow> Inl err
      | Inr _ \<Rightarrow>
          (case warm of
             Some err \<Rightarrow> Inl (err_code CodeInternal ''ping: %v'' [FErr err])
           | None \<Rightarrow>
               (case disco of
                  Inl err \<Rightarrow> Inl (err_code CodeInternal ''ping: %v'' [FErr err])
                | Inr pr \<Rightarrow>
                    let (via, detail) = classify pr;
                        lat = latency_ms pr;
                        lat = (if lat = 0 then elapsed else lat)
                    in Inr [''latency_ms'' \<mapsto> JNum lat, ''via'' \<mapsto> JStr via, ''detail'' \<mapsto> JStr detail])))"

section \<open>Addresses\<close>

definition listen_addr :: "string \<Rightarrow> int \<Rightarrow> string res" where
  "listen_addr inp defaultPort =
     (let inp = trim_space inp
      in if inp = [] then Inr (''127.0.0.1:'' @ itoa defaultPort)
         else case atoi inp of
                Some p \<Rightarrow>
                  if p < 0 \<or> 65535 < p
                  then Inl (err_code CodeBadRequest ''port out of range: %d'' [FInt p])
                  else Inr (''127.0.0.1:'' @ inp)
              | None \<Rightarrow>
                  (case split_host_port inp of
                     Inl err \<Rightarrow> Inl (err_code CodeBadRequest ''bad listen address %q: %v'' [FStr inp, FErr err])
                   | Inr _ \<Rightarrow> Inr inp))"

definition ssh_command :: "string \<Rightarrow> int \<Rightarrow> string" where
  "ssh_command goos localPort =
     (let devnull = (if goos = ''windows'' then ''NUL'' else ''/dev/null'')
      in ''ssh -p '' @ itoa localPort @ '' -o StrictHostKeyChecking=no -o UserKnownHostsFile='' @
         devnull @ '' -o LogLevel=ERROR tailcat@127.0.0.1'')"

section \<open>Lemmas\<close>

lemma first_tailcat_skip:
  "list_all (\<lambda>t. \<not> has_prefix t ''tailcat='') pre \<Longrightarrow>
     first_tailcat (pre @ (''tailcat='' @ v) # post) = Some (trim_space v)"
  by (induction pre) (auto simp: cut_prefix_def)

lemma atoi_no_colon:
  "atoi s = Some v \<Longrightarrow> CHR '':'' \<notin> set s \<and> CHR ''['' \<notin> set s \<and> CHR '']'' \<notin> set s"
  by (auto dest: atoi_chars)

lemma itoa_no_colon: "CHR '':'' \<notin> set (itoa i) \<and> CHR ''['' \<notin> set (itoa i) \<and> CHR '']'' \<notin> set (itoa i)"
  by (auto dest: itoa_set)

lemma split_loopback:
  "CHR '':'' \<notin> set p \<and> CHR ''['' \<notin> set p \<and> CHR '']'' \<notin> set p \<Longrightarrow>
     split_host_port (''127.0.0.1:'' @ p) = Inr (''127.0.0.1'', p)"
  using split_join_host_port [of "''127.0.0.1''" p] by (simp add: join_host_port_def)

section \<open>Properties\<close>

text \<open>
  Every failure to read a token is reported as \<open>invalid_token\<close>, and a token that passed
  \<open>normalizeToken\<close> parses: \<open>parseToken\<close> fails exactly when \<open>normalizeToken\<close> does.
\<close>

lemma token_errors:
  "case normalize_token lookup parse tok of
     Inl err \<Rightarrow> code_of err = CodeInvalidToken \<and> parse_token lookup parse tok = Inl err
   | Inr cb \<Rightarrow> \<exists>ci. parse cb = Inr ci \<and> parse_token lookup parse tok = Inr (token_info cb ci)"
  by (auto simp: normalize_token_def parse_token_def Let_def split: sum.splits option.splits)

text \<open>
  The forms a user may paste lead to the same token: with or without the \<open>tailcat=\<close> prefix
  and surrounded by white space (no DNS involved), or as a host name whose TXT records carry the
  token in their first \<open>tailcat=\<close> entry.
\<close>

lemma token_forms:
  assumes "parse tok = Inr ci" "has_prefix tok ''tc''"
    and "trim_space s = tok \<or> trim_space s = ''tailcat='' @ tok"
    and "trim_space h = host" "CHR ''.'' \<in> set host" "\<not> has_prefix host ''tc''"
      "\<not> has_prefix host ''tailcat=''"
    and "lookup host = Inr (pre @ (''tailcat='' @ v) # post)" "trim_space v = tok"
      "list_all (\<lambda>t. \<not> has_prefix t ''tailcat='') pre"
  shows "normalize_token lookup parse s = Inr tok \<and> normalize_token lookup parse h = Inr tok"
proof
  obtain r where tok: "tok = ''tc'' @ r" using assms(2) has_prefixD by blast
  have "trim_prefix (trim_space s) ''tailcat='' = tok"
    using assms(3) tok by (auto simp: trim_prefix_def)
  then show "normalize_token lookup parse s = Inr tok"
    using assms(1,2) tok by (simp add: normalize_token_def)
  have "trim_prefix host ''tailcat='' = host" "host \<noteq> []"
    using assms(5,7) by (auto simp: trim_prefix_def)
  then show "normalize_token lookup parse h = Inr tok"
    using assms first_tailcat_skip [OF assms(10)] by (simp add: normalize_token_def)
qed

definition demo_info :: conn_info where
  "demo_info = \<lparr>ciRegionID = 1, ciServerPublic = ''k'', ciRegion = [Some (''nyc'', ''New York'')]\<rparr>"

definition demo_parser :: blob_parser where
  "demo_parser s = (if s = ''tcA'' then Inr demo_info else Inl (ErrText ''bad blob''))"

definition demo_resolver :: resolver where
  "demo_resolver h = (if h = ''a.b'' then Inr [''v=spf1'', ''tailcat= tcA''] else Inl (ErrText ''no such host''))"

theorem token_forms_witness:
  "normalize_token demo_resolver demo_parser '' tailcat=tcA '' = Inr ''tcA'' \<and>
   normalize_token demo_resolver demo_parser ''a.b'' = Inr ''tcA''"
proof -
  have t: "trim_space '' tailcat=tcA '' = ''tailcat=tcA''" "trim_space ''a.b'' = ''a.b''"
      "trim_space '' tcA'' = ''tcA''"
    by (simp_all add: trim_space_def trim_left_space_def trim_right_space_def strip.simps
        space_runes_def has_prefix_def)
  show ?thesis
    using token_forms [of demo_parser "''tcA''" demo_info "'' tailcat=tcA ''" "''a.b''" "''a.b''"
        demo_resolver "[''v=spf1'']" "'' tcA''" "[]"] t
    by (simp add: demo_parser_def demo_resolver_def has_prefix_def)
qed

text \<open>
  A listen address always has a host and a port, and without an explicit host it is the
  loopback address: an empty input or a bare port never opens a port to the network.
\<close>

lemma listen_addr_loopback:
  assumes "listen_addr inp d = Inr a"
  shows "split_host_port a =
    (if trim_space inp = [] then Inr (''127.0.0.1'', itoa d)
     else if atoi (trim_space inp) \<noteq> None then Inr (''127.0.0.1'', trim_space inp)
     else split_host_port (trim_space inp)) \<and> (\<exists>hp. split_host_port a = Inr hp)"
  using assms split_loopback [OF itoa_no_colon] split_loopback [OF atoi_no_colon]
  by (auto simp: listen_addr_def Let_def split: if_splits option.splits sum.splits)

theorem listen_addr_loopback_witness:
  "split_host_port ''127.0.0.1:1080'' = Inr (''127.0.0.1'', ''1080'')"
proof -
  have "trim_space ''1080'' = ''1080''"
    by (simp add: trim_space_def trim_left_space_def trim_right_space_def strip.simps
        space_runes_def has_prefix_def)
  moreover have "atoi ''1080'' = Some 1080"
    by (simp add: atoi_def is_digit_def digits_val_def digit_val_def min_int_def max_int_def)
  ultimately show ?thesis
    using listen_addr_loopback [of "''1080''" 1080 "''127.0.0.1:1080''"]
    by (simp add: listen_addr_def)
qed

text \<open>An empty input takes the default port, not port 0 as the comment on the function says.\<close>

lemma listen_addr_default: "listen_addr [] 1080 = Inr ''127.0.0.1:1080''"
proof -
  have "trim_space [] = []"
    by (simp add: trim_space_def trim_left_space_def trim_right_space_def strip.simps
        space_runes_def has_prefix_def)
  then show ?thesis
    by (simp add: listen_addr_def itoa_def nat_str.simps)
qed

end
