(* ===== verification/Tunnel.thy ===== *)
theory Tunnel
  imports Session_Steps Engine Tokens
begin

text \<open>
  Client tunnels: the handshake with retries (\<open>warmClient\<close> in \<open>core/engine/connect.go\<close>), port
  forwarding (\<open>core/engine/forward.go\<close>) and the SOCKS proxy (\<open>core/engine/socks.go\<close>). What the
  network and tailcat answer (listeners, dials, pings) are arguments.
\<close>

section \<open>The handshake\<close>

text \<open>
  One attempt as the loop sees it: \<open>ctx.Err()\<close> before it, the error of \<open>cl.Ping\<close>, and \<open>ctx.Err()\<close>
  after it. Time limits are in seconds.
\<close>

record attempt =
  atBefore :: "gerror option"
  atPing :: "gerror option"
  atAfter :: "gerror option"

definition warm_limits :: "int list" where
  "warm_limits = [2, 3, 5, 10]"

text \<open>The result, the limits of the pings that were sent, and the log lines (number, error).\<close>

fun warm_from :: "nat \<Rightarrow> int list \<Rightarrow> gerror \<Rightarrow> (nat \<Rightarrow> attempt) \<Rightarrow>
    gerror option \<times> int list \<times> (nat \<times> gerror) list" where
  "warm_from i [] err obs = (Some (ErrWrap ''server not reachable: %w'' [] err), [], [])"
| "warm_from i (d # ds) err obs =
     (case atBefore (obs i) of
        Some e \<Rightarrow> (Some e, [], [])
      | None \<Rightarrow>
          (case atPing (obs i) of
             None \<Rightarrow> (None, [d], [])
           | Some err \<Rightarrow>
               (case atAfter (obs i) of
                  Some e \<Rightarrow> (Some e, [d], [])
                | None \<Rightarrow>
                    (case warm_from (Suc i) ds err obs of
                       (r, pings, logs) \<Rightarrow>
                         (r, d # pings, (if ds \<noteq> [] then [(i + 1, err)] else []) @ logs)))))"

definition warm_client ::
    "(nat \<Rightarrow> attempt) \<Rightarrow> gerror option \<times> int list \<times> (nat \<times> gerror) list" where
  "warm_client = warm_from 0 warm_limits (ErrText [])"

section \<open>Dialling the peer\<close>

text \<open>
  \<open>dialPeerPort\<close>: \<open>ready\<close> is the result of \<open>waitReady\<close>; for each attempt the outcome of the dial
  and \<open>s.Context().Err()\<close> after it. Log lines carry the attempt and its error.
\<close>

fun dial_from :: "nat list \<Rightarrow> int \<Rightarrow> gerror \<Rightarrow> (nat \<Rightarrow> 'conn res \<times> gerror option) \<Rightarrow>
    'conn res \<times> (nat \<times> gerror) list" where
  "dial_from [] port err obs = (Inl (ErrWrap ''peer port %d is not reachable: %w'' [FInt port] err), [])"
| "dial_from (k # ks) port err obs =
     (case obs k of
        (Inr rc, _) \<Rightarrow> (Inr rc, [])
      | (Inl err, Some e) \<Rightarrow> (Inl e, [])
      | (Inl err, None) \<Rightarrow>
          (case dial_from ks port err obs of (r, logs) \<Rightarrow> (r, (k, err) # logs)))"

definition dial_peer_port :: "gerror option \<Rightarrow> int \<Rightarrow> (nat \<Rightarrow> 'conn res \<times> gerror option) \<Rightarrow>
    'conn res \<times> (nat \<times> gerror) list" where
  "dial_peer_port ready port obs =
     (case ready of
        Some err \<Rightarrow> (Inl (ErrWrap ''connect to peer: %w'' [] err), [])
      | None \<Rightarrow> dial_from [1, 2, 3] port (ErrText []) obs)"

section \<open>Goroutines of a client session\<close>

text \<open>
  \<open>clientWarmup\<close> up to the path probe. \<open>render\<close> renders an error; the retry log lines come first in
  the handshake.
\<close>

definition path_event :: "string \<Rightarrow> ping_result \<Rightarrow> event" where
  "path_event sid pr =
     (case classify pr of (via, detail) \<Rightarrow>
        [''type'' \<mapsto> JStr ''path'', ''session_id'' \<mapsto> JStr sid, ''via'' \<mapsto> JStr via,
         ''detail'' \<mapsto> JStr detail, ''latency_ms'' \<mapsto> JNum (latency_ms pr)])"

definition retry_log :: "string \<Rightarrow> nat \<times> gerror \<Rightarrow> event" where
  "retry_log sid l =
     log_event sid ''info'' ''handshake attempt %d failed (%v); retrying'' [FInt (int (fst l)), FErr (snd l)]"

definition p_client_warmup ::
    "(gerror \<Rightarrow> string) \<Rightarrow> string \<Rightarrow> (nat \<Rightarrow> attempt) \<Rightarrow> ping_result res \<Rightarrow> 'c instr list" where
  "p_client_warmup render sid obs disco =
     (case warm_client obs of
        (warm, _, logs) \<Rightarrow>
          [ISetState StateStarting ''connecting''] @ map (\<lambda>l. IPush (retry_log sid l)) logs @
          (case (case warm of Some err \<Rightarrow> Inl err | None \<Rightarrow> disco) of
             Inl err \<Rightarrow> [IIfDone [] (p_fail sid (''connect to server: '' @ render err))]
           | Inr pr \<Rightarrow>
               [IMarkReady, ISetState StateRunning (''connected via '' @ snd (classify pr)),
                IPush (path_event sid pr)]))"

text \<open>
  \<open>acceptLoop\<close>, given what \<open>Accept\<close> returns one call after the other; the handlers of accepted
  connections run on their own.
\<close>

fun p_accept_loop :: "(gerror \<Rightarrow> string) \<Rightarrow> string \<Rightarrow> 'conn res list \<Rightarrow> 'c instr list" where
  "p_accept_loop render sid [] = []"
| "p_accept_loop render sid (Inr c # rest) = p_accept_loop render sid rest"
| "p_accept_loop render sid (Inl err # rest) =
     [IIfDone [] (if error_is err ErrNetClosed then [] else p_fail sid (''accept: '' @ render err))]"

text \<open>The handler of one connection of a forward; only its failure touches the session.\<close>

definition p_forward_conn ::
    "(gerror \<Rightarrow> string) \<Rightarrow> string \<Rightarrow> int \<Rightarrow> 'conn res \<times> (nat \<times> gerror) list \<Rightarrow> 'c instr list" where
  "p_forward_conn render sid port dialled =
     map (\<lambda>(k, err). IPush (log_event sid ''info'' ''dial peer port %d (attempt %d): %v''
            [FInt port, FInt (int k), FErr err])) (snd dialled) @
     (case fst dialled of
        Inr rc \<Rightarrow> []
      | Inl err \<Rightarrow> [IPush (error_event sid ''dial_failed'' (render err))])"

text \<open>The goroutine of the SOCKS server, given what \<open>Serve\<close> returns.\<close>

definition p_socks_serve :: "string \<Rightarrow> gerror option \<Rightarrow> 'c instr list" where
  "p_socks_serve sid served =
     (case served of
        None \<Rightarrow> []
      | Some err \<Rightarrow> [IIfDone [] [IPush (log_event sid ''info'' ''socks5 server stopped: %v'' [FErr err])]])"

section \<open>Starting a forward\<close>

record forward_args =
  faToken :: string
  faLocalPort :: int
  faRemotePort :: int
  faBindAll :: bool

text \<open>
  \<open>tok\<close> is \<open>normalizeToken\<close>; \<open>listen\<close> yields the bound port and the address of
  the listener. Resources are named after what they belong to. The second component is the rest
  of the command goroutine, run after the session has been registered.
\<close>

definition listener_at :: "string \<Rightarrow> string" where
  "listener_at addr = ''listener '' @ addr"

definition client_of :: "string \<Rightarrow> string" where
  "client_of sid = ''client '' @ sid"

definition forward_setup :: "string \<Rightarrow> int \<Rightarrow> string \<Rightarrow> forward_args \<Rightarrow> string instr list" where
  "forward_setup sid port addr a =
     [IAddCloser (client_of sid), IAddCloser (listener_at addr), ISetInfo ''local_port'' (JInt port),
      ISetInfo ''remote_port'' (JInt (faRemotePort a)), ISetInfo ''listen'' (JStr addr)]"

definition forward_host :: "forward_args \<Rightarrow> string" where
  "forward_host a = (if faBindAll a then [] else ''127.0.0.1'')"

definition start_forward ::
    "string \<Rightarrow> int \<Rightarrow> (string \<Rightarrow> string res) \<Rightarrow> (string \<Rightarrow> (int \<times> string) res) \<Rightarrow> forward_args \<Rightarrow> kind \<Rightarrow>
     string engine \<Rightarrow> (event \<times> string instr list) res \<times> string engine" where
  "start_forward goos now tok listen a k e =
     (if faRemotePort a < 1 \<or> 65535 < faRemotePort a
      then (Inl (err_code CodeBadRequest ''remote_port out of range: %d'' [FInt (faRemotePort a)]), e)
      else if faLocalPort a < 0 \<or> 65535 < faLocalPort a
      then (Inl (err_code CodeBadRequest ''local_port out of range: %d'' [FInt (faLocalPort a)]), e)
      else case tok (faToken a) of
             Inl err \<Rightarrow> (Inl err, e)
           | Inr cb \<Rightarrow>
               (case listen (join_host_port (forward_host a) (itoa (faLocalPort a))) of
                  Inl err \<Rightarrow> (Inl (err_code CodeInternal ''listen: %v'' [FErr err]), e)
                | Inr (port, addr) \<Rightarrow>
                    (case add_session now k e of
                       (Inl err, e) \<Rightarrow> (Inl err, e\<lparr>eLog := eLog e @ [listener_at addr]\<rparr>)
                     | (Inr sid, e) \<Rightarrow>
                         let res = [''session_id'' \<mapsto> JStr sid, ''local_port'' \<mapsto> JInt port];
                             res = (if k = KindSSH then res(''command'' \<mapsto> JStr (ssh_command goos port))
                                    else res)
                         in (Inr (res, forward_setup sid port addr a), e))))"

definition sftpPort :: int where
  "sftpPort = 22"

definition start_ssh_forward ::
    "string \<Rightarrow> int \<Rightarrow> (string \<Rightarrow> string res) \<Rightarrow> (string \<Rightarrow> (int \<times> string) res) \<Rightarrow> string \<Rightarrow>
     string engine \<Rightarrow> (event \<times> string instr list) res \<times> string engine" where
  "start_ssh_forward goos now tok listen token e =
     start_forward goos now tok listen
       \<lparr>faToken = token, faLocalPort = 0, faRemotePort = sftpPort, faBindAll = False\<rparr> KindSSH e"

section \<open>The SOCKS proxy\<close>

definition socks_setup :: "string \<Rightarrow> int \<Rightarrow> string \<Rightarrow> string instr list" where
  "socks_setup sid port addr =
     [IAddCloser (client_of sid), IAddCloser (listener_at addr), ISetInfo ''listen'' (JStr addr),
      ISetInfo ''local_port'' (JInt port)]"

record socks_args =
  xaToken :: string
  xaListen :: string

definition start_socks ::
    "int \<Rightarrow> (string \<Rightarrow> string res) \<Rightarrow> (string \<Rightarrow> (int \<times> string) res) \<Rightarrow> socks_args \<Rightarrow>
     string engine \<Rightarrow> (event \<times> string instr list) res \<times> string engine" where
  "start_socks now tok listen a e =
     (case tok (xaToken a) of
        Inl err \<Rightarrow> (Inl err, e)
      | Inr cb \<Rightarrow>
          (case listen_addr (xaListen a) 1080 of
             Inl err \<Rightarrow> (Inl err, e)
           | Inr addr \<Rightarrow>
               (case listen addr of
                  Inl err \<Rightarrow> (Inl (err_code CodeInternal ''listen: %v'' [FErr err]), e)
                | Inr (port, addr) \<Rightarrow>
                    (case add_session now KindSocks e of
                       (Inl err, e) \<Rightarrow> (Inl err, e\<lparr>eLog := eLog e @ [listener_at addr]\<rparr>)
                     | (Inr sid, e) \<Rightarrow>
                         (Inr ([''session_id'' \<mapsto> JStr sid, ''listen'' \<mapsto> JStr addr],
                               socks_setup sid port addr), e)))))"

text \<open>
  The proxy's \<open>Dialer\<close>: which dial it makes for a destination. \<open>parse_ip\<close> is
  \<open>netip.ParseAddr\<close> followed by \<open>Unmap\<close>; ports are 16-bit.
\<close>

datatype 'ip dial = DialPort "16 word" | DialAddr 'ip "16 word" | DialName string

definition server_hosts :: "string list" where
  "server_hosts = [[], ''server.tailcat'', ''localhost'', ''127.0.0.1'', ''::1'']"

definition socks_dial :: "gerror option \<Rightarrow> (string \<Rightarrow> 'ip option) \<Rightarrow> string \<Rightarrow> 'ip dial res" where
  "socks_dial ready parse_ip addr =
     (case ready of
        Some err \<Rightarrow> Inl err
      | None \<Rightarrow>
          (case split_host_port addr of
             Inl err \<Rightarrow> Inl err
           | Inr (host, portStr) \<Rightarrow>
               (case atoi portStr of
                  None \<Rightarrow> Inl (err_code CodeBadRequest ''bad port %q'' [FStr portStr])
                | Some port \<Rightarrow>
                    if port < 0 \<or> 65535 < port
                    then Inl (err_code CodeBadRequest ''bad port %q'' [FStr portStr])
                    else if host \<in> set server_hosts then Inr (DialPort (word_of_int port))
                    else case parse_ip host of
                           Some ip \<Rightarrow> Inr (DialAddr ip (word_of_int port))
                         | None \<Rightarrow> Inr (DialName addr))))"


section \<open>Lemmas\<close>

lemma p_fail_simple [simp]:
  "list_all closes_none (p_fail sid msg)" "list_all adds_none (p_fail sid msg)"
  by (simp_all add: p_fail_def p_set_state_def p_shutdown_def)

lemma pushes_simple [simp]:
  "list_all closes_none (map (\<lambda>x. IPush (f x)) xs)" "list_all adds_none (map (\<lambda>x. IPush (f x)) xs)"
  "list_all closes_none (map (\<lambda>(x, y). IPush (g x y)) ps)"
  "list_all adds_none (map (\<lambda>(x, y). IPush (g x y)) ps)"
  by (induction xs, simp_all) (induction ps, auto)+

lemma warmup_simple:
  "list_all closes_none (p_client_warmup render sid obs disco)"
  "list_all adds_none (p_client_warmup render sid obs disco)"
  by (auto simp: p_client_warmup_def split: prod.split sum.split option.split)

lemma accept_loop_simple:
  "list_all closes_none (p_accept_loop render sid accepts)"
  "list_all adds_none (p_accept_loop render sid accepts)"
  by (induction render sid accepts rule: p_accept_loop.induct) auto

lemma forward_conn_simple:
  "list_all closes_none (p_forward_conn render sid port c)"
  "list_all adds_none (p_forward_conn render sid port c)"
  by (auto simp: p_forward_conn_def split: sum.split)

lemma forward_setup_simple:
  "list_all closes_none (forward_setup sid port addr a)"
  "list_all adding_ok (forward_setup sid port addr a)"
  "adding (forward_setup sid port addr a) = [client_of sid, listener_at addr]"
  by (simp_all add: forward_setup_def)

lemma p_stop_simple:
  "list_all closes_none p_stop" "list_all adds_none p_stop"
  "ISetState StateStopped [] \<in> set p_stop" "ICancel \<in> set p_stop" "ITakeClosers \<in> set p_stop"
  by (simp_all add: p_stop_def p_set_state_def p_shutdown_def)

lemmas client_simple = warmup_simple accept_loop_simple forward_conn_simple forward_setup_simple
  p_stop_simple

definition calm :: "'c instr list \<Rightarrow> bool" where
  "calm t \<longleftrightarrow> list_all closes_none t \<and> list_all adds_none t"

lemma calm_client [simp]:
  "calm p_stop" "calm (p_client_warmup render sid obs disco)"
  "calm (p_accept_loop render sid accepts)" "calm (p_forward_conn render sid port c)"
  "calm (p_socks_serve sid served)"
  by (simp_all add: calm_def client_simple p_socks_serve_def split: option.split)

lemma calm_threads:
  "list_all calm ts \<Longrightarrow>
     list_all (list_all closes_none) ts \<and> list_all (list_all adding_ok) ts \<and> concat (map adding ts) = []"
  by (induction ts) (auto simp: calm_def adds_none_all)

text \<open>
  When one of the goroutines stops the session, every resource that any of them registers has
  been closed once in the end.
\<close>

lemma session_resources_closed:
  assumes "reach (init_gsys (new_session now i k), ts) (w, us)" "finished (w, us)"
    and "p_stop \<in> set ts" "list_all (list_all closes_none) ts" "list_all (list_all adding_ok) ts"
  shows "terminal (sState (sesn w)) \<and> sCancelled (sesn w) \<and>
    mset (closedLog w) = mset (concat (map adding ts))"
proof -
  have "\<exists>t \<in> set ts. ISetState StateStopped [] \<in> set t \<and> ICancel \<in> set t \<and> ITakeClosers \<in> set t"
    by (rule bexI [OF _ assms(3)]) (simp add: p_stop_simple)
  note once = shutdown_closes_once [OF assms(1,2,4) this]
  have "mset (gAdded w) = mset (concat (map adding ts))"
    using reach_adds [OF assms(1,2,5)] by (simp add: init_gsys_def)
  with once show ?thesis by (simp add: terminal_def)
qed

lemma adding_calm [simp]: "calm t \<Longrightarrow> adding t = []"
  by (simp add: calm_def adds_none_all)

lemma calm_ok [simp]: "calm t \<Longrightarrow> list_all closes_none t" "calm t \<Longrightarrow> list_all adding_ok t"
  by (simp_all add: calm_def adds_none_all)

section \<open>Properties\<close>

text \<open>
  The handshake: at most four pings with limits of 2, 3, 5 and 10 seconds, in this order and
  without a gap, at most three log lines, and success exactly when some attempt gets an answer
  while the context is alive and all attempts before it failed while it was alive.
\<close>

lemma warm_client_attempts:
  "prefix (fst (snd (warm_client obs))) [2, 3, 5, 10] \<and>
   length (snd (snd (warm_client obs))) \<le> 3 \<and>
   (fst (warm_client obs) = None \<longleftrightarrow>
     (\<exists>n < 4. atBefore (obs n) = None \<and> atPing (obs n) = None \<and>
        list_all (\<lambda>m. atBefore (obs m) = None \<and> atPing (obs m) \<noteq> None \<and> atAfter (obs m) = None)
          [0..<n]))"
proof -
  have four: "(\<exists>n < 4. P n) \<longleftrightarrow> P 0 \<or> P 1 \<or> P 2 \<or> P (3 :: nat)" for P
    by (auto simp: numeral_eq_Suc less_Suc_eq)
  show ?thesis
    unfolding four
    by (auto simp: warm_client_def warm_limits_def numeral_eq_Suc upt_rec
        split: option.split prod.split)
qed

text \<open>
  C19. Stopping a forward frees everything. The command goroutine still registering its client and
  listener, the accept loop with any sequence of connections and errors, the handlers of the
  connections, the warm-up with any outcome, and \<open>stop\<close> run concurrently in any order: once they
  have ended the session is over, its context cancelled, and the client and the listener have
  both been closed, each exactly once.
\<close>

theorem forward_resources_closed:
  assumes "reach (init_gsys (new_session now sid k),
      forward_setup sid port addr a # p_stop # p_accept_loop render sid accepts #
      p_client_warmup render sid obs disco # map (p_forward_conn render sid (faRemotePort a)) conns) (w, us)"
    and "finished (w, us)"
  shows "terminal (sState (sesn w)) \<and> sCancelled (sesn w) \<and>
    mset (closedLog w) = {#client_of sid, listener_at addr#}"
proof -
  let ?conns = "map (p_forward_conn render sid (faRemotePort a)) conns :: string instr list list"
  have "list_all calm ?conns" by (simp add: list_all_iff)
  from calm_threads [OF this] have q: "list_all (list_all closes_none) ?conns"
    "list_all (list_all adding_ok) ?conns" "concat (map adding ?conns) = []" by auto
  show ?thesis
    using session_resources_closed [OF assms] q(1,2)
    by (simp add: forward_setup_simple q(3) del: map_map)
qed

text \<open>The same for the SOCKS proxy, whose server may end in any way.\<close>

lemma socks_resources_closed:
  assumes "reach (init_gsys (new_session now sid k),
      [socks_setup sid port addr, p_stop, p_socks_serve sid served, p_client_warmup render sid obs disco]) (w, us)"
    and "finished (w, us)"
  shows "terminal (sState (sesn w)) \<and> sCancelled (sesn w) \<and>
    mset (closedLog w) = {#client_of sid, listener_at addr#}"
  using session_resources_closed [OF assms]
  by (simp add: socks_setup_def)

text \<open>A connection arrives, then the user stops the forward while it is still connecting.\<close>

definition demo_forward :: "forward_args" where
  "demo_forward = \<lparr>faToken = [], faLocalPort = 0, faRemotePort = 80, faBindAll = False\<rparr>"

definition demo_attempts :: "nat \<Rightarrow> attempt" where
  "demo_attempts n = \<lparr>atBefore = None, atPing = Some ErrDeadline, atAfter = (if n = 1 then Some ErrCanceled else None)\<rparr>"

definition demo_forward_threads :: "string instr list list" where
  "demo_forward_threads =
     [forward_setup ''forward-1'' 4000 ''a:4000'' demo_forward, p_stop,
      p_accept_loop (\<lambda>_. []) ''forward-1'' [Inr (), Inl ErrNetClosed],
      p_client_warmup (\<lambda>_. []) ''forward-1'' demo_attempts (Inl ErrCanceled)]"

definition demo_forward_run :: "string config" where
  "demo_forward_run =
     scheduled 5 (map (\<lambda>i. (i, True)) [0, 0, 3, 3, 3, 1, 1, 0, 1, 1, 1, 1, 0, 0, 2, 2, 3, 3])
       (init_gsys (new_session 0 ''forward-1'' KindForward), demo_forward_threads)"

lemma demo_forward_eval: "snd demo_forward_run = [[], [], [], []]"
  by (simp add: demo_forward_run_def demo_forward_threads_def demo_run_defs forward_setup_def
      p_client_warmup_def warm_client_def warm_limits_def demo_attempts_def demo_forward_def
      error_is.simps)

theorem forward_resources_closed_witness:
  "mset (closedLog (fst demo_forward_run)) = {#client_of ''forward-1'', listener_at ''a:4000''#}"
proof -
  have "reach (init_gsys (new_session 0 ''forward-1'' KindForward),
      forward_setup ''forward-1'' 4000 ''a:4000'' demo_forward # p_stop #
      p_accept_loop (\<lambda>_. []) ''forward-1'' [Inr (), Inl ErrNetClosed] #
      p_client_warmup (\<lambda>_. []) ''forward-1'' demo_attempts (Inl ErrCanceled) #
      map (p_forward_conn (\<lambda>_. []) ''forward-1'' (faRemotePort demo_forward))
        ([] :: (unit res \<times> (nat \<times> gerror) list) list))
      (fst demo_forward_run, snd demo_forward_run)"
    unfolding prod.collapse list.map demo_forward_run_def demo_forward_threads_def
    by (rule scheduled_reach)
  from forward_resources_closed [OF this] show ?thesis
    by (simp add: demo_forward_eval finished_def)
qed

text \<open>
  C37. A forward that cannot be started leaves nothing behind: no session is registered, and the
  listener, when it had been opened already, is closed again. A forward that starts has a fresh
  session and its client and listener registered with it.
\<close>

theorem start_forward_all_or_nothing:
  "case start_forward goos now tok listen a k e of
     (Inl err, e') \<Rightarrow>
       eSessions e' = eSessions e \<and>
       eLog e' = eLog e @
         (if 1 \<le> faRemotePort a \<and> faRemotePort a \<le> 65535 \<and> 0 \<le> faLocalPort a \<and> faLocalPort a \<le> 65535
          then case tok (faToken a) of
                 Inl _ \<Rightarrow> []
               | Inr _ \<Rightarrow> (case listen (join_host_port (forward_host a) (itoa (faLocalPort a))) of
                   Inl _ \<Rightarrow> [] | Inr (_, addr) \<Rightarrow> [listener_at addr])
          else [])
   | (Inr (res, setup), e') \<Rightarrow>
       (\<exists>sid addr. res ''session_id'' = Some (JStr sid) \<and>
          eSessions e' = (eSessions e)(sid \<mapsto> new_session now sid k) \<and> eLog e' = eLog e \<and>
          adding setup = [client_of sid, listener_at addr])"
  by (auto simp: start_forward_def Let_def add_session_def forward_setup_simple
      split: sum.split prod.split if_splits)

text \<open>
  Unless \<open>bind_all\<close> is asked for, a forward only ever opens a listener on 127.0.0.1: it behaves
  the same with a network that refuses every other address.
\<close>

lemma forward_listens_on_loopback:
  "start_forward goos now tok listen (a\<lparr>faBindAll := False\<rparr>) k e =
   start_forward goos now tok
     (\<lambda>addr. if split_host_port addr = Inr (''127.0.0.1'', itoa (faLocalPort a)) then listen addr
             else Inl ErrPermission)
     (a\<lparr>faBindAll := False\<rparr>) k e"
  using split_loopback [OF itoa_no_colon [of "faLocalPort a"]]
  by (simp add: start_forward_def forward_host_def join_host_port_def)

text \<open>
  Where a SOCKS connection goes: for a host without brackets and any port number, the server's
  own names lead to that port of the server, an IP address is dialled as such through the server
  and every other name is left to the server to resolve; ports that do not fit 16 bits are
  refused, and nothing is dialled before the handshake.
\<close>

lemma socks_routing:
  assumes "CHR ''['' \<notin> set host" "CHR '']'' \<notin> set host" "min_int \<le> port" "port \<le> max_int"
  shows "socks_dial ready parse_ip (join_host_port host (itoa port)) =
    (if ready \<noteq> None then Inl (the ready)
     else if port < 0 \<or> 65535 < port then Inl (err_code CodeBadRequest ''bad port %q'' [FStr (itoa port)])
     else if host \<in> {[], ''server.tailcat'', ''localhost'', ''127.0.0.1'', ''::1''}
       then Inr (DialPort (word_of_int port))
     else if parse_ip host \<noteq> None then Inr (DialAddr (the (parse_ip host)) (word_of_int port))
     else Inr (DialName (join_host_port host (itoa port))))"
  using split_join_host_port [OF assms(1,2), of "itoa port"] itoa_no_colon [of port]
    atoi_itoa [OF assms(3,4)]
  by (auto simp: socks_dial_def server_hosts_def split: option.split)

theorem socks_routing_witness:
  "socks_dial None (\<lambda>_. None :: nat option) (join_host_port ''::1'' (itoa 80)) = Inr (DialPort 80)"
  using socks_routing [of "''::1''" 80 None "\<lambda>_. None :: nat option"]
  by (simp add: min_int_def max_int_def)

end
