(* ===== verification/Start_Server.thy ===== *)
theory Start_Server
  imports Tunnel Share_Paths
begin

text \<open>
  \<open>startServer\<close> (\<open>core/engine/server.go\<close>): the checks of the arguments, the choice of what
  answers on port 22, the routing of incoming connections, the ports announced to the packet
  filter, and the goroutine that starts tailcat's server; with the manifest of
  \<open>core/engine/manifest.go\<close>.
\<close>

section \<open>Data\<close>

record files_spec =
  fsDir :: string
  fsMode :: string

record server_args =
  saPorts :: "int list"
  saAll :: bool
  saExitNode :: bool
  saFiles :: "files_spec option"
  saSSH :: bool
  saKey :: string
  saSharePaths :: "string list"
  saName :: string

record manifest_files =
  mfMode :: string
  mfItems :: "share_item list"
  mfDir :: string

record manifest =
  mApp :: string
  mVersion :: string
  mName :: string
  mPlatform :: string
  mPorts :: "int list"
  mAll :: bool
  mExitNode :: bool
  mSSH :: bool
  mFiles :: "manifest_files option"

definition manifestPort :: int where
  "manifestPort = 1"

definition manifestApp :: string where
  "manifestApp = ''tailcat-gui''"

text \<open>
  What the surroundings answer: \<open>os.Stat\<close> (whether the path is a directory), \<open>os.Hostname\<close>, the
  platform, the version, tailcat's SSH support, and the constructors of the file servers, of which
  the first yields the entries of the share.
\<close>

record server_env =
  seStat :: "string \<Rightarrow> bool res"
  seHostname :: "string res"
  seGOOS :: string
  seVersion :: string
  seSSHSupported :: bool
  sePathsServer :: "string list \<Rightarrow> share_item list res"
  seDirServer :: "string \<Rightarrow> mode \<Rightarrow> gerror option"

section \<open>Checking the arguments\<close>

definition device_name :: "server_env \<Rightarrow> string \<Rightarrow> string" where
  "device_name env override =
     (let override = trim_space override
      in if override \<noteq> [] then override
         else case seHostname env of
                Inr h \<Rightarrow> if h \<noteq> [] then trim_suffix h ''.local'' else seGOOS env
              | Inl _ \<Rightarrow> seGOOS env)"

fun stat_all :: "server_env \<Rightarrow> string list \<Rightarrow> gerror option" where
  "stat_all env [] = None"
| "stat_all env (p # ps) =
     (case seStat env p of
        Inl err \<Rightarrow> Some (err_code CodeBadRequest ''share path: %v'' [FErr err])
      | Inr _ \<Rightarrow> stat_all env ps)"

fun check_ports :: "int list \<Rightarrow> gerror option" where
  "check_ports [] = None"
| "check_ports (p # ps) =
     (if p < 1 \<or> 65535 < p then Some (err_code CodeBadRequest ''port out of range: %d'' [FInt p])
      else check_ports ps)"

text \<open>All checks before a session exists; the mode of the share is \<open>ReadOnly\<close> (0) without \<open>files\<close>.\<close>

definition check_server_args :: "server_env \<Rightarrow> server_args \<Rightarrow> mode res" where
  "check_server_args env a =
     (if saPorts a = [] \<and> \<not> saAll a \<and> \<not> saExitNode a \<and> saFiles a = None \<and> \<not> saSSH a \<and> saSharePaths a = []
      then Inl (err_code CodeBadRequest
        ''nothing to serve: give ports, all, exit_node, files, share_paths or ssh'' [])
      else if saFiles a \<noteq> None \<and> saSharePaths a \<noteq> []
      then Inl (err_code CodeBadRequest ''files and share_paths are mutually exclusive'' [])
      else case stat_all env (saSharePaths a) of
        Some err \<Rightarrow> Inl err
      | None \<Rightarrow> (case check_ports (saPorts a) of
          Some err \<Rightarrow> Inl err
        | None \<Rightarrow>
            if saSSH a \<and> \<not> seSSHSupported env
            then Inl (err_code CodeUnsupported ''no-auth SSH server is not supported on this platform'' [])
            else case saFiles a of
              None \<Rightarrow> Inr ReadOnly
            | Some f \<Rightarrow> (case parse_mode (fsMode f) of
                Inl err \<Rightarrow> Inl (err_code CodeBadRequest ''%v'' [FErr err])
              | Inr m \<Rightarrow> (case seStat env (fsDir f) of
                  Inl err \<Rightarrow> Inl (err_code CodeBadRequest ''files dir: %v'' [FErr err])
                | Inr isDir \<Rightarrow>
                    if isDir then Inr m
                    else Inl (err_code CodeBadRequest ''files dir %q is not a directory'' [FStr (fsDir f)])))))"

section \<open>Port 22\<close>

text \<open>
  The handler of port 22: tailcat's shell server (with its own SFTP, rooted in a directory if one
  is given) or one of the two shares.
\<close>

datatype port22 =
    ShellServer "(string \<times> file_serve_mode) option"
  | PathsShare "string list"
  | DirShare string mode

definition ssh_shell_server :: "files_spec option \<Rightarrow> port22 res" where
  [simp]: "ssh_shell_server files =
     (case files of
        None \<Rightarrow> Inr (ShellServer None)
      | Some f \<Rightarrow> (case parse_mode (fsMode f) of
          Inl err \<Rightarrow> Inl (err_code CodeBadRequest ''%v'' [FErr err])
        | Inr m \<Rightarrow> Inr (ShellServer (Some (fsDir f, tailcat_mode m)))))"

definition ssh_shell_stub :: "port22 res" where
  [simp]: "ssh_shell_stub =
     Inl (err_code CodeUnsupported ''no-auth SSH server is not supported on this platform'' [])"

text \<open>The build tags of the two files select \<open>sshShellHandler\<close> by platform.\<close>

definition ssh_shell_handler :: "server_env \<Rightarrow> files_spec option \<Rightarrow> port22 res" where
  "ssh_shell_handler env files =
     (if seSSHSupported env then ssh_shell_server files else ssh_shell_stub)"

text \<open>
  What the switch decides: the handler, the entry of the manifest, and whether a share was opened
  that the session has to close.
\<close>

record port22_plan =
  ppHandler :: "port22 option"
  ppFiles :: "manifest_files option"
  ppShare :: bool

text \<open>
  On failure the error that the session fails with and the error that the command returns.
\<close>

definition plan_port22 :: "server_env \<Rightarrow> server_args \<Rightarrow> mode \<Rightarrow> gerror \<times> gerror + port22_plan" where
  "plan_port22 env a m =
     (let dir_files = (\<lambda>f. \<lparr>mfMode = mode_string m, mfItems = [], mfDir = path_base (fsDir f)\<rparr>);
          share_err = (\<lambda>err. err_code CodeInternal ''file share: %v'' [FErr err])
      in if saSSH a
         then case ssh_shell_handler env (saFiles a) of
                Inl err \<Rightarrow> Inl (err, err)
              | Inr h \<Rightarrow> Inr \<lparr>ppHandler = Some h, ppFiles = map_option dir_files (saFiles a), ppShare = False\<rparr>
         else if saSharePaths a \<noteq> []
         then case sePathsServer env (saSharePaths a) of
                Inl err \<Rightarrow> Inl (err, share_err err)
              | Inr items \<Rightarrow>
                  Inr \<lparr>ppHandler = Some (PathsShare (saSharePaths a)),
                       ppFiles = Some \<lparr>mfMode = ''ro'', mfItems = items, mfDir = []\<rparr>, ppShare = True\<rparr>
         else case saFiles a of
                None \<Rightarrow> Inr \<lparr>ppHandler = None, ppFiles = None, ppShare = False\<rparr>
              | Some f \<Rightarrow> (case seDirServer env (fsDir f) m of
                  Some err \<Rightarrow> Inl (err, share_err err)
                | None \<Rightarrow>
                    Inr \<lparr>ppHandler = Some (DirShare (fsDir f) m), ppFiles = Some (dir_files f),
                         ppShare = True\<rparr>))"

definition server_manifest :: "server_env \<Rightarrow> server_args \<Rightarrow> manifest_files option \<Rightarrow> manifest" where
  "server_manifest env a files =
     \<lparr>mApp = manifestApp, mVersion = seVersion env, mName = device_name env (saName a),
      mPlatform = seGOOS env, mPorts = saPorts a, mAll = saAll a, mExitNode = saExitNode a,
      mSSH = saSSH a, mFiles = files\<rparr>"

section \<open>Routing\<close>

text \<open>What a connection is handed to: the manifest, port 22's handler, or a proxy to an address.\<close>

datatype route = ToManifest manifest | ToPort22 port22 | ToAddr string

definition port_set :: "server_args \<Rightarrow> 16 word set" where
  "port_set a = set (map word_of_int (saPorts a))"

definition on_tcp :: "server_args \<Rightarrow> port22_plan \<Rightarrow> manifest \<Rightarrow> 16 word \<Rightarrow> route option" where
  "on_tcp a pl m port =
     (if port = word_of_int manifestPort \<and> word_of_int manifestPort \<notin> port_set a
      then Some (ToManifest m)
      else if port = word_of_int sftpPort \<and> ppHandler pl \<noteq> None
      then Some (ToPort22 (the (ppHandler pl)))
      else if saAll a \<or> port \<in> port_set a
      then Some (ToAddr (''localhost:'' @ itoa (uint port)))
      else None)"

text \<open>\<open>ServedTCPPorts\<close>, each entry a one-port range; empty when everything is served.\<close>

definition served_ports :: "server_args \<Rightarrow> port22_plan \<Rightarrow> 16 word list" where
  "served_ports a pl =
     (if saAll a then []
      else map word_of_int
        (remdups_adj (sort (saPorts a @ [manifestPort] @
           (if ppHandler pl \<noteq> None then [sftpPort] else [])))))"

text \<open>\<open>OnTCPForward\<close> exists only for an exit node; \<open>dst\<close> is the printed destination.\<close>

definition on_tcp_forward :: "server_args \<Rightarrow> string \<Rightarrow> route option" where
  "on_tcp_forward a dst = (if saExitNode a then Some (ToAddr dst) else None)"

section \<open>The command\<close>

definition share_of :: "string \<Rightarrow> string" where
  "share_of sid = ''share '' @ sid"

definition server_of :: "string \<Rightarrow> string" where
  "server_of sid = ''server '' @ sid"

text \<open>The calls of \<open>addCloser\<close> and \<open>setInfo\<close> of the command goroutine.\<close>

definition server_setup :: "server_env \<Rightarrow> string \<Rightarrow> server_args \<Rightarrow> mode \<Rightarrow> port22_plan \<Rightarrow> string instr list" where
  "server_setup env sid a m pl =
     (if ppShare pl then [IAddCloser (share_of sid)] else []) @
     [ISetInfo ''ports'' (JInts (saPorts a)), ISetInfo ''all'' (JBool (saAll a)),
      ISetInfo ''exit_node'' (JBool (saExitNode a)), ISetInfo ''ssh'' (JBool (saSSH a)),
      ISetInfo ''name'' (JStr (device_name env (saName a)))] @
     (case saFiles a of
        None \<Rightarrow> []
      | Some f \<Rightarrow> [ISetInfo ''files_dir'' (JStr (fsDir f)),
                  ISetInfo ''files_mode'' (JStr (mode_string
                    (if \<not> saSSH a \<and> saSharePaths a \<noteq> [] then ReadOnly else m)))]) @
     (if saSharePaths a \<noteq> []
      then [ISetInfo ''share_paths'' (JStrs (saSharePaths a)), ISetInfo ''files_mode'' (JStr ''ro'')]
      else [])"

text \<open>
  The goroutine up to the path probe: \<open>start\<close> is the error of \<open>srv.Start\<close>, \<open>tok\<close> the token of the
  running server.
\<close>

definition p_server :: "(gerror \<Rightarrow> string) \<Rightarrow> string \<Rightarrow> gerror option \<Rightarrow> string \<Rightarrow> string instr list" where
  "p_server render sid start tok =
     ISetState StateStarting ''selecting relay'' #
     (case start of
        Some err \<Rightarrow> p_fail sid (''start server: '' @ render err)
      | None \<Rightarrow>
          [IAddCloser (server_of sid)] @ p_set_token sid tok @ [ISetState StateRunning ''listening''])"

record server_plan =
  spPort22 :: port22_plan
  spManifest :: manifest
  spSetup :: "string instr list"

definition start_server ::
    "(gerror \<Rightarrow> string) \<Rightarrow> server_env \<Rightarrow> int \<Rightarrow> server_args \<Rightarrow> string engine \<Rightarrow>
     (string \<times> server_plan) res \<times> string engine" where
  "start_server render env now a e =
     (case check_server_args env a of
        Inl err \<Rightarrow> (Inl err, e)
      | Inr m \<Rightarrow>
          (case add_session now KindServer e of
             (Inl err, e) \<Rightarrow> (Inl err, e)
           | (Inr sid, e) \<Rightarrow>
               (case plan_port22 env a m of
                  Inl (cause, err) \<Rightarrow> (Inl err, on_session sid (fail now (render cause)) e)
                | Inr pl \<Rightarrow>
                    (Inr (sid, \<lparr>spPort22 = pl, spManifest = server_manifest env a (ppFiles pl),
                                spSetup = server_setup env sid a m pl\<rparr>), e))))"

text \<open>
  \<open>tcpForwardTo\<close>: the outcome of the local dial decides between proxying (\<open>Inr\<close>) and a log line
  and closing the incoming connection (\<open>Inl\<close>).
\<close>

definition tcp_forward_to :: "string \<Rightarrow> string \<Rightarrow> 'conn res \<Rightarrow> event + 'conn" where
  "tcp_forward_to sid addr dialled =
     (case dialled of
        Inl err \<Rightarrow> Inl (log_event sid ''info'' ''proxy to %v failed: %v'' [FStr addr, FErr err])
      | Inr c \<Rightarrow> Inr c)"


section \<open>Lemmas\<close>

lemma check_ports_None: "check_ports ps = None \<longleftrightarrow> list_all (\<lambda>p. 1 \<le> p \<and> p \<le> 65535) ps"
  by (induction ps) auto

lemma stat_all_code: "stat_all env ps = Some err \<Longrightarrow> code_of err = CodeBadRequest"
  by (induction ps) (auto split: sum.splits)

lemma check_ports_code: "check_ports ps = Some err \<Longrightarrow> code_of err = CodeBadRequest"
  by (induction ps) (auto split: if_splits)

lemma check_server_args_ok:
  "check_server_args env a = Inr m \<Longrightarrow>
     list_all (\<lambda>p. 1 \<le> p \<and> p \<le> 65535) (saPorts a) \<and> (saFiles a = None \<or> saSharePaths a = []) \<and>
     (saSSH a \<longrightarrow> seSSHSupported env) \<and>
     m = (case saFiles a of None \<Rightarrow> ReadOnly | Some f \<Rightarrow> projr (parse_mode (fsMode f))) \<and>
     (\<forall>f. saFiles a = Some f \<longrightarrow> parse_mode (fsMode f) = Inr m \<and> seStat env (fsDir f) = Inr True)"
  by (auto simp: check_server_args_def check_ports_None split: if_splits option.splits sum.splits)

lemma uint_port [simp]: "0 \<le> p \<Longrightarrow> p \<le> 65535 \<Longrightarrow> uint (word_of_int p :: 16 word) = p"
  by (simp add: uint_word_of_int)

lemma port_set_iff:
  "list_all (\<lambda>p. 1 \<le> p \<and> p \<le> 65535) (saPorts a) \<Longrightarrow> port \<in> port_set a \<longleftrightarrow> uint port \<in> set (saPorts a)"
proof -
  assume v: "list_all (\<lambda>p. 1 \<le> p \<and> p \<le> 65535) (saPorts a)"
  then have u: "uint (word_of_int p :: 16 word) = p" if "p \<in> set (saPorts a)" for p
    using that by (auto simp: list_all_iff)
  show ?thesis
  proof
    assume "port \<in> port_set a"
    then show "uint port \<in> set (saPorts a)" by (auto simp: port_set_def u)
  next
    assume "uint port \<in> set (saPorts a)"
    then have "(word_of_int (uint port) :: 16 word) \<in> port_set a"
      unfolding port_set_def set_map by (rule imageI)
    then show "port \<in> port_set a" by simp
  qed
qed

lemma served_ports_set:
  "\<not> saAll a \<Longrightarrow> set (served_ports a pl) =
     insert (word_of_int manifestPort) (port_set a \<union> (if ppHandler pl \<noteq> None then {word_of_int sftpPort} else {}))"
  by (auto simp: served_ports_def port_set_def)

lemma sorted_remdups_adj_distinct: "sorted xs \<Longrightarrow> distinct (remdups_adj xs)"
  for xs :: "'a :: linorder list"
proof (induction xs rule: remdups_adj.induct)
  case (3 x y xs)
  then show ?case by (cases "x = y") auto
qed auto

section \<open>Properties\<close>

text \<open>
  C5. A server exposes exactly what was asked for. Of the 65536 ports, after the argument check has
  passed: port 1 answers with the manifest unless the user serves port 1 himself, port 22 with the
  chosen file or shell service, a proxied port leads to the port of the same number on localhost
  and only if it was listed or \<open>all\<close> was given, and everything else is refused.
\<close>

theorem server_exposes_only_requested:
  assumes "check_server_args env a = Inr m"
  shows "case on_tcp a pl mf port of
      Some (ToManifest mf') \<Rightarrow> mf' = mf \<and> uint port = 1 \<and> 1 \<notin> set (saPorts a)
    | Some (ToPort22 h) \<Rightarrow> uint port = 22 \<and> ppHandler pl = Some h
    | Some (ToAddr addr) \<Rightarrow>
        addr = ''localhost:'' @ itoa (uint port) \<and> (saAll a \<or> uint port \<in> set (saPorts a)) \<and>
        (uint port \<noteq> 22 \<or> ppHandler pl = None)
    | None \<Rightarrow> \<not> saAll a \<and> uint port \<notin> set (saPorts a) \<and> uint port \<noteq> 1 \<and>
        (uint port \<noteq> 22 \<or> ppHandler pl = None)"
proof -
  have v: "list_all (\<lambda>p. 1 \<le> p \<and> p \<le> 65535) (saPorts a)"
    using check_server_args_ok [OF assms] by blast
  have "word_of_int p = port \<longleftrightarrow> uint port = p" if "0 \<le> p" "p \<le> 65535" for p
    using uint_port [OF that] by auto
  from this [of 1] this [of 22] show ?thesis
    using port_set_iff [OF v, of port] port_set_iff [OF v, of 1]
    by (auto simp: on_tcp_def manifestPort_def sftpPort_def)
qed

text \<open>
  C24. The packet filter and the router agree: the announced ports are distinct and are exactly the
  ports that have a handler, unless \<open>all\<close> is given, when nothing is restricted.
\<close>

theorem served_ports_match_routing:
  assumes "\<not> saAll a"
  shows "set (served_ports a pl) = {port. on_tcp a pl mf port \<noteq> None}"
  using served_ports_set [OF assms, of pl] assms
  by (auto simp: on_tcp_def)


definition demo_env :: server_env where
  "demo_env =
     \<lparr>seStat = (\<lambda>p. if p = ''/srv'' then Inr True else Inl ErrNotExist), seHostname = Inr ''box.local'',
      seGOOS = ''linux'', seVersion = ''dev'', seSSHSupported = True,
      sePathsServer = (\<lambda>ps. Inr [\<lparr>siName = ''srv'', siSize = 0, siIsDir = True, siPath = ''/srv''\<rparr>]),
      seDirServer = (\<lambda>d m. None)\<rparr>"

definition demo_args :: server_args where
  "demo_args =
     \<lparr>saPorts = [8080, 22], saAll = False, saExitNode = False, saFiles = Some \<lparr>fsDir = ''/srv'', fsMode = ''wo''\<rparr>,
      saSSH = False, saKey = [], saSharePaths = [], saName = []\<rparr>"

definition demo_plan :: port22_plan where
  "demo_plan = \<lparr>ppHandler = Some (DirShare ''/srv'' WriteOnly), ppFiles = None, ppShare = True\<rparr>"

definition demo_manifest :: manifest where
  "demo_manifest =
     \<lparr>mApp = manifestApp, mVersion = ''dev'', mName = ''box'', mPlatform = ''linux'', mPorts = [8080, 22],
      mAll = False, mExitNode = False, mSSH = False,
      mFiles = Some \<lparr>mfMode = ''wo'', mfItems = [], mfDir = ''srv''\<rparr>\<rparr>"

lemma demo_args_ok: "check_server_args demo_env demo_args = Inr WriteOnly"
  by (simp add: check_server_args_def demo_env_def demo_args_def parse_mode_def)

theorem server_exposes_only_requested_witness:
  "on_tcp demo_args demo_plan demo_manifest 8080 = Some (ToAddr (''localhost:'' @ itoa 8080)) \<and>
   (\<exists>addr. on_tcp demo_args demo_plan demo_manifest 8080 = Some (ToAddr addr) \<and>
      addr = ''localhost:'' @ itoa (uint (8080 :: 16 word)))"
  using server_exposes_only_requested [OF demo_args_ok, where pl = demo_plan and mf = demo_manifest and port = 8080]
  by (simp add: on_tcp_def demo_args_def demo_plan_def port_set_def manifestPort_def sftpPort_def)

theorem served_ports_match_routing_witness:
  "{port. on_tcp demo_args demo_plan demo_manifest port \<noteq> None} = {1, 22, 8080}"
  using served_ports_match_routing [of demo_args demo_plan demo_manifest]
  by (simp add: served_ports_def demo_args_def demo_plan_def manifestPort_def sftpPort_def)



text \<open>
  \<open>ssh\<close> together with \<open>share_paths\<close> passes the checks, but the paths are not shared: port 22 is
  the shell server, the manifest announces no files, and yet the session's \<open>share_paths\<close> and
  \<open>files_mode\<close> fields, which the UI shows, claim a read-only share.
\<close>

lemma ssh_drops_share_paths:
  assumes "saSSH a" "saSharePaths a \<noteq> []" "check_server_args env a = Inr m"
  shows "\<exists>pl. plan_port22 env a m = Inr pl \<and> ppHandler pl = Some (ShellServer None) \<and>
    ppFiles pl = None \<and> \<not> ppShare pl \<and>
    ISetInfo ''share_paths'' (JStrs (saSharePaths a)) \<in> set (server_setup env sid a m pl) \<and>
    ISetInfo ''files_mode'' (JStr ''ro'') \<in> set (server_setup env sid a m pl)"
  using assms check_server_args_ok [OF assms(3)]
  by (auto simp: plan_port22_def ssh_shell_handler_def server_setup_def)

theorem ssh_drops_share_paths_witness:
  "\<exists>pl. plan_port22 demo_env (demo_args\<lparr>saSSH := True, saFiles := None, saSharePaths := [''/srv'']\<rparr>) ReadOnly = Inr pl \<and>
     ppFiles pl = None"
proof -
  let ?a = "demo_args\<lparr>saSSH := True, saFiles := None, saSharePaths := [''/srv'']\<rparr>"
  have "check_server_args demo_env ?a = Inr ReadOnly"
    by (simp add: check_server_args_def demo_env_def demo_args_def)
  from ssh_drops_share_paths [OF _ _ this] show ?thesis by (auto simp: demo_args_def)
qed

text \<open>
  C34. A server session, stopped at any moment, including while \<open>Start\<close> is still in flight: when its
  goroutines have ended, the share and, if it came up, tailcat's server have been closed exactly
  once.
\<close>

theorem server_resources_closed:
  assumes "reach (init_gsys (new_session now sid k),
      [server_setup env sid a m pl, p_stop, p_server render sid start tok]) (w, us)"
    and "finished (w, us)"
  shows "terminal (sState (sesn w)) \<and> sCancelled (sesn w) \<and>
    mset (closedLog w) =
      (if ppShare pl then {#share_of sid#} else {#}) +
      (if start = None then {#server_of sid#} else {#})"
proof -
  have s: "list_all closes_none (server_setup env sid a m pl)"
    "list_all adding_ok (server_setup env sid a m pl)"
    "adding (server_setup env sid a m pl) = (if ppShare pl then [share_of sid] else [])"
    by (simp_all add: server_setup_def split: option.split)
  have "list_all closes_none (p_server render sid start tok)"
    "list_all adding_ok (p_server render sid start tok)"
    "adding (p_server render sid start tok) = (if start = None then [server_of sid] else [])"
    by (simp_all add: p_server_def p_set_token_def adds_none_all split: option.split)
  with session_resources_closed [OF assms] s show ?thesis by simp
qed


text \<open>A server stopped while \<open>Start\<close> is still running.\<close>

definition demo_server_run :: "string config" where
  "demo_server_run =
     scheduled 5 (map (\<lambda>i. (i, True)) (replicate 8 0 @ [2, 2] @ replicate 5 1 @ replicate 6 2))
       (init_gsys (new_session 0 ''server-1'' KindServer),
        [server_setup demo_env ''server-1'' demo_args WriteOnly demo_plan, p_stop,
         p_server (\<lambda>_. []) ''server-1'' None ''tcX''])"

lemma demo_server_eval: "snd demo_server_run = [[], [], []]"
  by (simp add: demo_server_run_def server_setup_def p_server_def p_set_token_def demo_run_defs
      demo_args_def demo_plan_def numeral_eq_Suc)

theorem server_resources_closed_witness:
  "mset (closedLog (fst demo_server_run)) = {#share_of ''server-1'', server_of ''server-1''#}"
proof -
  have "reach (init_gsys (new_session 0 ''server-1'' KindServer),
      [server_setup demo_env ''server-1'' demo_args WriteOnly demo_plan, p_stop,
       p_server (\<lambda>_. []) ''server-1'' None ''tcX'']) (fst demo_server_run, snd demo_server_run)"
    unfolding prod.collapse demo_server_run_def by (rule scheduled_reach)
  from server_resources_closed [OF this] show ?thesis
    by (simp add: demo_server_eval finished_def demo_plan_def)
qed

end
