(* ===== verification/Path_Probe.thy ===== *)
theory Path_Probe
  imports Start_Server
begin

text \<open>
  The path probes (\<open>core/engine/path.go\<close>): one loop pings the server from a client session, the
  other one watches the peer table of a server session. Each tick of the ticker is one element of
  a list; clock readings are in milliseconds. A loop ends when the session's context is done,
  which is the end of its list.
\<close>

definition probeHeartbeat :: int where
  "probeHeartbeat = 60000"

section \<open>The client's probe\<close>

text \<open>
  A tick: the outcome of \<open>DiscoPing\<close>, and the two clock readings of \<open>time.Since\<close> and \<open>time.Now\<close>.
\<close>

record client_tick =
  ctDisco :: "ping_result res"
  ctSince :: int
  ctNow :: int

text \<open>\<open>lastVia\<close> and \<open>lastEmit\<close> of the loop.\<close>

type_synonym probe_state = "string \<times> int"

definition client_tick_step :: "string \<Rightarrow> client_tick \<Rightarrow> probe_state \<Rightarrow> probe_state \<times> event list" where
  "client_tick_step sid tk st =
     (case ctDisco tk of
        Inl err \<Rightarrow> (st, [])
      | Inr pr \<Rightarrow>
          (case st of (lastVia, lastEmit) \<Rightarrow>
             if fst (classify pr) \<noteq> lastVia \<or> probeHeartbeat < ctSince tk - lastEmit
             then ((fst (classify pr), ctNow tk), [path_event sid pr])
             else (st, [])))"

fun client_path_probe :: "string \<Rightarrow> client_tick list \<Rightarrow> probe_state \<Rightarrow> probe_state \<times> event list" where
  "client_path_probe sid [] st = (st, [])"
| "client_path_probe sid (tk # tks) st =
     (case client_tick_step sid tk st of
        (st, evs) \<Rightarrow> (case client_path_probe sid tks st of (st, evs') \<Rightarrow> (st, evs @ evs')))"

section \<open>The server's probe\<close>

text \<open>An entry of tailscale's peer table; \<open>None\<close> is a nil pointer.\<close>

record peer =
  peActive :: bool
  peCurAddr :: string
  peRelay :: string

definition peer_counts :: "peer option \<Rightarrow> bool" where
  "peer_counts p \<longleftrightarrow>
     (case p of None \<Rightarrow> False | Some p \<Rightarrow> \<not> (\<not> peActive p \<and> peCurAddr p = [] \<and> peRelay p = []))"

text \<open>The loop over the table, in the order in which Go happens to visit the map.\<close>

definition peer_step :: "peer option \<Rightarrow> int \<times> string \<times> string \<Rightarrow> int \<times> string \<times> string" where
  "peer_step op acc =
     (case acc of (peers, via, detail) \<Rightarrow>
        if \<not> peer_counts op then acc
        else let p = the op
             in if peCurAddr p \<noteq> [] then (peers + 1, ''direct'', peCurAddr p)
                else if via = [] then (peers + 1, ''derp'', ''DERP('' @ peRelay p @ '')'')
                else (peers + 1, via, detail))"

definition peer_summary :: "peer option list \<Rightarrow> int \<times> string \<times> string" where
  "peer_summary ps = fold peer_step ps (0, [], [])"

record server_tick =
  stStatus :: "peer option list option"
  stSince :: int
  stNow :: int

text \<open>\<open>lastPeers\<close>, \<open>lastVia\<close> and \<open>lastEmit\<close>; the result has the value for \<open>setInfo\<close> and the event.\<close>

definition server_path_event :: "string \<Rightarrow> int \<times> string \<times> string \<Rightarrow> event" where
  "server_path_event sid sm =
     (case sm of (peers, via, detail) \<Rightarrow>
        [''type'' \<mapsto> JStr ''path'', ''session_id'' \<mapsto> JStr sid, ''via'' \<mapsto> JStr via,
         ''detail'' \<mapsto> JStr detail, ''peers'' \<mapsto> JInt peers])"

definition server_tick_step ::
    "string \<Rightarrow> server_tick \<Rightarrow> int \<times> string \<times> int \<Rightarrow> (int \<times> string \<times> int) \<times> (int \<times> event) list" where
  "server_tick_step sid tk st =
     (case stStatus tk of
        None \<Rightarrow> (st, [])
      | Some ps \<Rightarrow>
          (case (st, peer_summary ps) of ((lastPeers, lastVia, lastEmit), (peers, via, detail)) \<Rightarrow>
             if peers \<noteq> lastPeers \<or> via \<noteq> lastVia \<or> probeHeartbeat < stSince tk - lastEmit
             then ((peers, via, stNow tk), [(peers, server_path_event sid (peers, via, detail))])
             else (st, [])))"

fun server_path_probe ::
    "string \<Rightarrow> server_tick list \<Rightarrow> int \<times> string \<times> int \<Rightarrow> (int \<times> string \<times> int) \<times> (int \<times> event) list" where
  "server_path_probe sid [] st = (st, [])"
| "server_path_probe sid (tk # tks) st =
     (case server_tick_step sid tk st of
        (st, evs) \<Rightarrow> (case server_path_probe sid tks st of (st, evs') \<Rightarrow> (st, evs @ evs')))"

section \<open>Lemmas\<close>

lemma server_tick_state:
  "server_tick_step sid tk (n, v, t) = ((n', v', t'), evs) \<Longrightarrow>
     (stStatus tk = None \<longrightarrow> (n', v') = (n, v)) \<and>
     (\<forall>ps. stStatus tk = Some ps \<longrightarrow> (n', v') = (fst (peer_summary ps), fst (snd (peer_summary ps))))"
  by (auto simp: server_tick_step_def split: option.splits prod.splits if_splits)

lemma peer_fold:
  "\<exists>d'. fold peer_step ps (n, via, d) =
     (n + int (length (filter peer_counts ps)),
      (if list_ex (\<lambda>p. peer_counts p \<and> peCurAddr (the p) \<noteq> []) ps then ''direct''
       else if via \<noteq> [] then via else if list_ex peer_counts ps then ''derp'' else []), d')"
proof (induction ps arbitrary: n via d)
  case (Cons p ps)
  show ?case
  proof (cases "peer_counts p")
    case False
    then have "peer_step p (n, via, d) = (n, via, d)" by (simp add: peer_step_def)
    moreover obtain d' where "fold peer_step ps (n, via, d) =
        (n + int (length (filter peer_counts ps)),
         (if list_ex (\<lambda>p. peer_counts p \<and> peCurAddr (the p) \<noteq> []) ps then ''direct''
          else if via \<noteq> [] then via else if list_ex peer_counts ps then ''derp'' else []), d')"
      using Cons.IH by blast
    ultimately show ?thesis using False by (intro exI [of _ d']) simp
  next
    case True
    obtain n' via' d' where s: "peer_step p (n, via, d) = (n', via', d')" by (metis prod_cases3)
    from True s have "n' = n + 1" "via' = (if peCurAddr (the p) \<noteq> [] then ''direct''
        else if via = [] then ''derp'' else via)"
      by (auto simp: peer_step_def Let_def split: if_splits)
    with True s Cons.IH [of n' via' d'] show ?thesis by auto
  qed
qed simp

section \<open>Properties\<close>

text \<open>
  What the server's probe reports does not depend on the order in which Go visits the peer
  map, except for the detail text: the number of peers is that of the peers with any activity,
  and the path is \<open>direct\<close> if some of them has a direct address, otherwise \<open>derp\<close> if there is one.
\<close>

lemma peer_summary_order_free:
  "fst (peer_summary ps) = int (length (filter peer_counts ps)) \<and>
   fst (snd (peer_summary ps)) =
     (if list_ex (\<lambda>p. peer_counts p \<and> peCurAddr (the p) \<noteq> []) ps then ''direct''
      else if list_ex peer_counts ps then ''derp'' else [])"
  using peer_fold [of ps 0 "[]" "[]"] by (auto simp: peer_summary_def)

text \<open>
  The detail does depend on it: of two directly connected peers either address may be shown.
\<close>

lemma peer_summary_detail_open:
  "\<exists>p q. peer_summary [p, q] \<noteq> peer_summary [q, p]"
proof (intro exI)
  let ?p = "\<lambda>a. Some \<lparr>peActive = True, peCurAddr = a, peRelay = []\<rparr>"
  show "peer_summary [?p ''a'', ?p ''b''] \<noteq> peer_summary [?p ''b'', ?p ''a'']"
    by (simp add: peer_summary_def peer_step_def peer_counts_def)
qed

text \<open>The path of the last ping that was answered.\<close>

fun last_via :: "client_tick list \<Rightarrow> string \<Rightarrow> string" where
  "last_via [] v = v"
| "last_via (tk # tks) v =
     last_via tks (case ctDisco tk of Inl err \<Rightarrow> v | Inr pr \<Rightarrow> fst (classify pr))"

lemma client_tick_spec:
  "client_tick_step sid tk st = (st', evs) \<Longrightarrow>
     fst st' = (case ctDisco tk of Inl err \<Rightarrow> fst st | Inr pr \<Rightarrow> fst (classify pr)) \<and>
     (evs = [] \<longrightarrow> fst st' = fst st) \<and>
     (evs \<noteq> [] \<longrightarrow> last evs ''via'' = Some (JStr (fst st')))"
  by (cases st) (auto simp: client_tick_step_def path_event_def split: sum.splits if_splits prod.splits)

lemma client_probe_spec:
  "client_path_probe sid tks st = (st', evs) \<Longrightarrow>
     fst st' = last_via tks (fst st) \<and> (evs = [] \<longrightarrow> fst st' = fst st) \<and>
     (evs \<noteq> [] \<longrightarrow> last evs ''via'' = Some (JStr (fst st')))"
proof (induction tks arbitrary: st evs)
  case (Cons tk tks)
  obtain s1 e1 where s: "client_tick_step sid tk st = (s1, e1)" by (metis surj_pair)
  obtain e2 where r: "client_path_probe sid tks s1 = (st', e2)" "evs = e1 @ e2"
    using Cons.prems by (auto simp: s split: prod.splits)
  note t = client_tick_spec [OF s]
  have v: "last_via (tk # tks) (fst st) = last_via tks (fst s1)" using t by simp
  show ?case using conjunct2 [OF t] Cons.IH [OF r(1)] unfolding v by (cases "e2 = []") (auto simp: r(2))
qed simp

text \<open>
  The UI's picture of a client's path is current: the last path event says what the last
  answered ping said, and if no event has been sent the path is still the one that the probe
  started with. Failed pings change nothing.
\<close>

lemma client_probe_current:
  "case snd (client_path_probe sid tks (v, t)) of
     [] \<Rightarrow> last_via tks v = v
   | e # es \<Rightarrow> last (e # es) ''via'' = Some (JStr (last_via tks v))"
proof -
  obtain st evs where r: "client_path_probe sid tks (v, t) = (st, evs)" by (metis surj_pair)
  show ?thesis using client_probe_spec [OF r] by (cases evs) (auto simp: r)
qed

end
