(* ===== verification/Net_Interfaces.thy ===== *)
theory Net_Interfaces
  imports Prelude
begin

text \<open>
  Listing network interfaces through libc (\<open>core/engine/netiface_cgo.go\<close>, with
  \<open>netiface_android.go\<close> and \<open>netiface_stub.go\<close>): grouping the entries of \<open>getifaddrs\<close> by interface,
  converting addresses and flags. What libc returns is an argument.
\<close>

unbundle bit_operations_syntax

section \<open>Addresses and flags\<close>

text \<open>A socket address: the bytes of an IPv4 or IPv6 address, or another family.\<close>

datatype sockaddr = Inet "8 word list" | Inet6 "8 word list" | OtherFamily

definition cidr_mask_full :: "nat \<Rightarrow> 8 word list" where
  "cidr_mask_full n = replicate n 255"

fun ipv4_mask :: "sockaddr option \<Rightarrow> 8 word list" where
  "ipv4_mask (Some (Inet m)) = m"
| "ipv4_mask _ = cidr_mask_full 4"

fun ipv6_mask :: "sockaddr option \<Rightarrow> 8 word list" where
  "ipv6_mask (Some (Inet6 m)) = m"
| "ipv6_mask _ = cidr_mask_full 16"

record ipnet =
  inIP :: "8 word list"
  inMask :: "8 word list"

fun go_addr :: "sockaddr option \<Rightarrow> sockaddr option \<Rightarrow> ipnet option" where
  "go_addr (Some (Inet ip)) nm = Some \<lparr>inIP = ip, inMask = ipv4_mask nm\<rparr>"
| "go_addr (Some (Inet6 ip)) nm = Some \<lparr>inIP = ip, inMask = ipv6_mask nm\<rparr>"
| "go_addr _ nm = None"

text \<open>The bits of Go's \<open>net.Flags\<close>, and those of the C library, which differ between platforms.\<close>

definition FlagUp :: "32 word" where "FlagUp = 1"
definition FlagBroadcast :: "32 word" where "FlagBroadcast = 2"
definition FlagLoopback :: "32 word" where "FlagLoopback = 4"
definition FlagPointToPoint :: "32 word" where "FlagPointToPoint = 8"
definition FlagMulticast :: "32 word" where "FlagMulticast = 16"
definition FlagRunning :: "32 word" where "FlagRunning = 32"

record iff_bits =
  IFF_UP :: "32 word"
  IFF_RUNNING :: "32 word"
  IFF_BROADCAST :: "32 word"
  IFF_LOOPBACK :: "32 word"
  IFF_POINTOPOINT :: "32 word"
  IFF_MULTICAST :: "32 word"

definition flag_table :: "iff_bits \<Rightarrow> (32 word \<times> 32 word) list" where
  "flag_table c =
     [(IFF_UP c, FlagUp), (IFF_RUNNING c, FlagRunning), (IFF_BROADCAST c, FlagBroadcast),
      (IFF_LOOPBACK c, FlagLoopback), (IFF_POINTOPOINT c, FlagPointToPoint),
      (IFF_MULTICAST c, FlagMulticast)]"

definition go_flags :: "iff_bits \<Rightarrow> 32 word \<Rightarrow> 32 word" where
  "go_flags c f = fold (\<lambda>(bitc, g) out. if f AND bitc \<noteq> 0 then out OR g else out) (flag_table c) 0"

section \<open>Grouping\<close>

text \<open>
  \<open>tc_if_mtu\<close>: the kernel's answer for the name, cut to the size of its field; 0 if there is no
  socket or no answer.
\<close>

definition if_mtu :: "bool \<Rightarrow> (string \<Rightarrow> int option) \<Rightarrow> string \<Rightarrow> int" where
  "if_mtu sock siocgifmtu name =
     (if \<not> sock then 0
      else case siocgifmtu (take 15 name) of Some mtu \<Rightarrow> mtu | None \<Rightarrow> 0)"

text \<open>An entry of the list; a name can be a null pointer.\<close>

record ifaddrs =
  ifaName :: "string option"
  ifaFlags :: "32 word"
  ifaAddr :: "sockaddr option"
  ifaNetmask :: "sockaddr option"

record iface =
  ifIndex :: int
  ifName :: string
  ifMTU :: int
  ifFlags :: "32 word"
  ifAddrs :: "ipnet list option"

text \<open>The C library: flag bits, interface numbers, sizes and the list or its error.\<close>

record libc =
  lcBits :: iff_bits
  lcIndex :: "string \<Rightarrow> int"
  lcSocket :: bool
  lcMTU :: "string \<Rightarrow> int option"
  lcGetifaddrs :: "ifaddrs list res"

type_synonym iface_map = "(string \<Rightarrow> iface option) \<times> string list"

definition new_iface :: "libc \<Rightarrow> string \<Rightarrow> 32 word \<Rightarrow> iface" where
  "new_iface lc name flags =
     \<lparr>ifIndex = lcIndex lc name, ifName = name, ifMTU = if_mtu (lcSocket lc) (lcMTU lc) name,
      ifFlags = go_flags (lcBits lc) flags, ifAddrs = Some []\<rparr>"

definition add_entry :: "libc \<Rightarrow> ifaddrs \<Rightarrow> iface_map \<Rightarrow> iface_map" where
  "add_entry lc ifa st =
     (case (ifaName ifa, st) of
        (None, st) \<Rightarrow> st
      | (Some name, (byName, order)) \<Rightarrow>
          let (iface, order) = (case byName name of
                Some iface \<Rightarrow> (iface, order)
              | None \<Rightarrow> (new_iface lc name (ifaFlags ifa), order @ [name]));
              iface = (case go_addr (ifaAddr ifa) (ifaNetmask ifa) of
                None \<Rightarrow> iface
              | Some addr \<Rightarrow> iface\<lparr>ifAddrs := map_option (\<lambda>as. as @ [addr]) (ifAddrs iface)\<rparr>)
          in (byName(name \<mapsto> iface), order))"

definition getifaddrs_interfaces :: "libc \<Rightarrow> iface list res" where
  "getifaddrs_interfaces lc =
     (case lcGetifaddrs lc of
        Inl err \<Rightarrow> Inl err
      | Inr ifas \<Rightarrow>
          (case fold (add_entry lc) ifas (Map.empty, []) of
             (byName, order) \<Rightarrow>
               let out = map (\<lambda>name. the (byName name)) order
               in if out = [] then Inl (ErrText ''getifaddrs returned no interfaces'') else Inr out))"

text \<open>Without cgo on a POSIX platform there is only an error.\<close>

definition stub_interfaces :: "iface list res" where
  "stub_interfaces = Inl (ErrText ''getifaddrs is unavailable on this build'')"

text \<open>On Android Go's own list is the fallback; its interfaces come without addresses.\<close>

definition android_interfaces :: "iface list res \<Rightarrow> iface list res \<Rightarrow> iface list res" where
  "android_interfaces libc_ifs std_ifs =
     (case libc_ifs of
        Inr ifs \<Rightarrow> Inr ifs
      | Inl err \<Rightarrow>
          (case std_ifs of
             Inl std_err \<Rightarrow> Inl err
           | Inr ifs \<Rightarrow> Inr (map (\<lambda>i. i\<lparr>ifAddrs := None\<rparr>) ifs)))"

section \<open>Lemmas\<close>

text \<open>Each element where it appears first.\<close>

definition firsts :: "'a list \<Rightarrow> 'a list" where
  "firsts xs = rev (remdups (rev xs))"

lemma firsts_snoc: "firsts (xs @ [x]) = firsts xs @ (if x \<in> set xs then [] else [x])"
  by (simp add: firsts_def)

lemma firsts_set [simp]: "set (firsts xs) = set xs" "distinct (firsts xs)"
  by (simp_all add: firsts_def)

text \<open>The entries that count, with their names.\<close>

definition named :: "ifaddrs list \<Rightarrow> (string \<times> ifaddrs) list" where
  "named ifas = List.map_filter (\<lambda>ifa. map_option (\<lambda>n. (n, ifa)) (ifaName ifa)) ifas"

lemma named_snoc:
  "named (ifas @ [ifa]) = named ifas @ (case ifaName ifa of None \<Rightarrow> [] | Some n \<Rightarrow> [(n, ifa)])"
  by (simp add: named_def List.map_filter_def split: option.split)

text \<open>What the interface of a name should be: the first entry's flags and every entry's address.\<close>

definition iface_of :: "libc \<Rightarrow> (string \<times> ifaddrs) list \<Rightarrow> string \<Rightarrow> iface" where
  "iface_of lc es name =
     (let mine = map snd (filter (\<lambda>e. fst e = name) es)
      in (new_iface lc name (ifaFlags (hd mine)))
           \<lparr>ifAddrs := Some (List.map_filter (\<lambda>ifa. go_addr (ifaAddr ifa) (ifaNetmask ifa)) mine)\<rparr>)"

lemma iface_of_new:
  "name \<notin> fst ` set es \<Longrightarrow>
     iface_of lc (es @ [(name, ifa)]) name =
       (new_iface lc name (ifaFlags ifa))
         \<lparr>ifAddrs := Some (case go_addr (ifaAddr ifa) (ifaNetmask ifa) of None \<Rightarrow> [] | Some a \<Rightarrow> [a])\<rparr>"
proof -
  assume "name \<notin> fst ` set es"
  then have "filter (\<lambda>e. fst e = name) es = []" by (auto simp: filter_empty_conv)
  then show ?thesis
    by (simp add: iface_of_def Let_def List.map_filter_simps split: option.split)
qed

lemma iface_of_more:
  "name \<in> fst ` set es \<Longrightarrow>
     iface_of lc (es @ [(name, ifa)]) name =
       (iface_of lc es name)\<lparr>ifAddrs := map_option (\<lambda>as. as @
          (case go_addr (ifaAddr ifa) (ifaNetmask ifa) of None \<Rightarrow> [] | Some a \<Rightarrow> [a])) (ifAddrs (iface_of lc es name))\<rparr>"
proof -
  assume "name \<in> fst ` set es"
  then have "filter (\<lambda>e. fst e = name) es \<noteq> []" by (auto simp: filter_empty_conv)
  then show ?thesis
    by (simp add: iface_of_def Let_def List.map_filter_def hd_append split: option.split)
qed

lemma iface_of_other:
  "name \<noteq> n \<Longrightarrow> iface_of lc (es @ [(n, ifa)]) name = iface_of lc es name"
  by (simp add: iface_of_def)

lemma grouping:
  "fold (add_entry lc) ifas (Map.empty, []) =
     ((\<lambda>name. if name \<in> fst ` set (named ifas) then Some (iface_of lc (named ifas) name) else None),
      firsts (map fst (named ifas)))"
proof (induction ifas rule: rev_induct)
  case Nil
  show ?case by (simp add: named_def firsts_def fun_eq_iff List.map_filter_simps)
next
  case (snoc ifa ifas)
  show ?case
  proof (cases "ifaName ifa")
    case None
    then have "named (ifas @ [ifa]) = named ifas" "add_entry lc ifa st = st" for st
      by (simp_all add: named_snoc add_entry_def)
    with snoc show ?thesis by (simp cong: if_cong)
  next
    case (Some name)
    have addrs: "ifAddrs (new_iface lc name f) = Some []" for f by (simp add: new_iface_def)
    show ?thesis
    proof (cases "name \<in> fst ` set (named ifas)")
      case True
      with snoc Some iface_of_more [OF True, of lc ifa] show ?thesis
        by (auto simp: named_snoc add_entry_def firsts_snoc iface_of_other fun_eq_iff iface_of_def Let_def
            split: option.split)
    next
      case False
      with snoc Some iface_of_new [OF False, of lc ifa] addrs show ?thesis
        by (auto simp: named_snoc add_entry_def firsts_snoc iface_of_other fun_eq_iff
            split: option.split)
    qed
  qed
qed

section \<open>Properties\<close>

text \<open>
  C28. The interfaces are grouped correctly: when libc lists any entry with a name, there is one
  interface per name, in the order of first appearance, numbered and with flags as of its first
  entry, and with exactly the IP addresses of its entries, in order; otherwise the call fails.
\<close>

theorem interfaces_grouped:
  "getifaddrs_interfaces lc =
     (case lcGetifaddrs lc of
        Inl err \<Rightarrow> Inl err
      | Inr ifas \<Rightarrow>
          if named ifas = [] then Inl (ErrText ''getifaddrs returned no interfaces'')
          else Inr (map (iface_of lc (named ifas)) (firsts (map fst (named ifas)))))"
proof -
  have "firsts xs = [] \<longleftrightarrow> xs = []" for xs :: "string list"
    by (simp add: firsts_def)
  then show ?thesis
    by (auto simp: getifaddrs_interfaces_def grouping Let_def split: sum.split)
qed

text \<open>
  Each of Go's flags is set exactly when the platform's bit for it is, whatever the platform's
  bits are, and no other bit ever is.
\<close>

lemma go_flags_exact:
  "(go_flags c f AND FlagUp \<noteq> 0) = (f AND IFF_UP c \<noteq> 0) \<and>
   (go_flags c f AND FlagRunning \<noteq> 0) = (f AND IFF_RUNNING c \<noteq> 0) \<and>
   (go_flags c f AND FlagBroadcast \<noteq> 0) = (f AND IFF_BROADCAST c \<noteq> 0) \<and>
   (go_flags c f AND FlagLoopback \<noteq> 0) = (f AND IFF_LOOPBACK c \<noteq> 0) \<and>
   (go_flags c f AND FlagPointToPoint \<noteq> 0) = (f AND IFF_POINTOPOINT c \<noteq> 0) \<and>
   (go_flags c f AND FlagMulticast \<noteq> 0) = (f AND IFF_MULTICAST c \<noteq> 0) \<and>
   go_flags c f < 64"
  by (simp add: go_flags_def flag_table_def FlagUp_def FlagRunning_def FlagBroadcast_def
      FlagLoopback_def FlagPointToPoint_def FlagMulticast_def)

text \<open>
  On Android the list is libc's whenever libc has one; both ways have to fail for an error, which is
  then libc's.
\<close>

lemma android_fallback:
  "android_interfaces l s = Inl err \<longleftrightarrow> l = Inl err \<and> isl s"
  "l = Inr ifs \<Longrightarrow> android_interfaces l s = Inr ifs"
  by (auto simp: android_interfaces_def split: sum.splits)

end
