(* ===== verification/Engine_Steps.thy ===== *)
theory Engine_Steps
  imports Engine Session_Steps
begin

text \<open>
  The whole engine with all its goroutines, interleaved (\<open>core/engine/engine.go\<close>). Goroutines register
  sessions, work on them, stop them, poll and close the engine; each instruction is one region under
  the engine's mutex or, for a session, one of the instructions of \<open>Session_Steps\<close>. Operations that only
  read (\<open>listSessions\<close>, \<open>activeSessions\<close>, \<open>caps\<close>) are left out here.
\<close>

section \<open>Instructions\<close>

text \<open>
  \<open>ENew\<close> is \<open>newSession\<close> in a command: given the identifier, what the command's own goroutine does next
  with the session and the goroutines that it starts; if it is refused, the resources that the command
  had opened already and closes (\<open>EDrop\<close>). \<open>EClose\<close> is the locked region of \<open>Close\<close>, followed by the
  stops of the sessions that it has seen and by \<open>ECancel\<close>. \<open>EOn\<close> works on one session.
\<close>

datatype 'c einstr =
    ENew kind "string \<Rightarrow> 'c instr list \<times> 'c instr list list" "'c list"
  | EStop string
  | EClose
  | ECancel
  | EPoll
  | EOn string "'c instr"
  | EDrop 'c

text \<open>Ghost data: the resources that came up, as in \<open>Session_Steps\<close>.\<close>

type_synonym 'c eworld = "'c engine \<times> 'c list"

definition gsys_of :: "'c engine \<Rightarrow> 'c list \<Rightarrow> 'c session \<Rightarrow> 'c gsys" where
  "gsys_of e ad s =
     \<lparr>sesn = s, queue = eQueue e, closedLog = eLog e, gStates = [], gEvents = [], gPushed = [], gAdded = ad\<rparr>"

definition set_sys :: "string \<Rightarrow> 'c gsys \<Rightarrow> 'c engine \<Rightarrow> 'c engine" where
  "set_sys i w e =
     e\<lparr>eSessions := (eSessions e)(i \<mapsto> sesn w), eQueue := queue w, eLog := closedLog w\<rparr>"

text \<open>
  What an instruction is replaced by, the goroutines that it starts, and the new state. \<open>order\<close> is
  the order in which \<open>Close\<close> happens to visit the map.
\<close>

fun eexec :: "int \<Rightarrow> bool \<Rightarrow> string list \<Rightarrow> 'c einstr \<Rightarrow> 'c eworld \<Rightarrow>
    'c einstr list \<times> 'c einstr list list \<times> 'c eworld" where
  "eexec now b order (ENew k f cs) (e, ad) =
     (case add_session now k e of
        (Inl err, e) \<Rightarrow> (map EDrop cs, [], (e, ad))
      | (Inr i, e) \<Rightarrow> (map (EOn i) (fst (f i)), map (map (EOn i)) (snd (f i)), (e, ad)))"
| "eexec now b order (EStop i) (e, ad) =
     (case find_session i e of
        Inl err \<Rightarrow> ([], [], (e, ad))
      | Inr s \<Rightarrow> (map (EOn i) p_stop, [], (e, ad)))"
| "eexec now b order EClose (e, ad) =
     (concat (map (\<lambda>i. map (EOn i) p_stop) order) @ [ECancel], [], (e\<lparr>eClosed := True\<rparr>, ad))"
| "eexec now b order ECancel (e, ad) =
     ([], [], (e\<lparr>eCancelled := True,
                 eSessions := (\<lambda>i. map_option (\<lambda>s. s\<lparr>sCancelled := True\<rparr>) (eSessions e i))\<rparr>, ad))"
| "eexec now b order EPoll (e, ad) = ([], [], (snd (poll now e), ad))"
| "eexec now b order (EOn i x) (e, ad) =
     (case eSessions e i of
        None \<Rightarrow> ([], [], (e, ad))
      | Some s \<Rightarrow> (case exec now x b (gsys_of e ad s) of
          (front, w) \<Rightarrow> (map (EOn i) front, [], (set_sys i w e, gAdded w))))"
| "eexec now b order (EDrop c) (e, ad) = ([], [], (e\<lparr>eLog := eLog e @ [c]\<rparr>, ad @ [c]))"

type_synonym 'c econfig = "'c eworld \<times> 'c einstr list list"

inductive estep :: "'c econfig \<Rightarrow> 'c econfig \<Rightarrow> bool" where
  erun: "distinct order \<Longrightarrow> set order = dom (eSessions (fst w)) \<Longrightarrow>
     eexec now b order x w = (front, gos, w') \<Longrightarrow>
     estep (w, ps @ (x # rest) # qs) (w', ps @ (front @ rest) # qs @ gos)"

inductive_cases estepE: "estep (w, ts) (w', ts')"

definition efinished :: "'c econfig \<Rightarrow> bool" where
  "efinished c \<longleftrightarrow> (\<forall>t \<in> set (snd c). t = [])"

text \<open>The world at the start: no sessions, nothing opened.\<close>

definition init_world :: "string \<Rightarrow> 'c eworld" where
  "init_world url = (new_engine url, [])"

section \<open>Sums over the sessions\<close>

definition total :: "('c session \<Rightarrow> 'm :: cancel_comm_monoid_add) \<Rightarrow> (string \<Rightarrow> 'c session option) \<Rightarrow> 'm" where
  "total f m = (\<Sum>i \<in> dom m. f (the (m i)))"

lemma total_upd:
  assumes "finite (dom m)"
  shows "m i = Some s \<Longrightarrow> total f (m(i \<mapsto> s')) + f s = total f m + f s'"
    "m i = None \<Longrightarrow> total f (m(i \<mapsto> s')) = total f m + f s'"
proof -
  have rest: "(\<Sum>j \<in> dom m - {i}. f (the ((m(i \<mapsto> s')) j))) = (\<Sum>j \<in> dom m - {i}. f (the (m j)))"
    by (rule sum.cong) auto
  have new: "total f (m(i \<mapsto> s')) = f s' + (\<Sum>j \<in> dom m - {i}. f (the (m j)))"
    using sum.remove [of "insert i (dom m)" i "\<lambda>j. f (the ((m(i \<mapsto> s')) j))"] assms rest
    by (simp add: total_def insert_Diff_if)
  show "total f (m(i \<mapsto> s')) + f s = total f m + f s'" if "m i = Some s"
  proof -
    have "total f m = f s + (\<Sum>j \<in> dom m - {i}. f (the (m j)))"
      using sum.remove [OF assms, of i "\<lambda>j. f (the (m j))"] that by (auto simp: total_def)
    with new show ?thesis by (simp add: ac_simps)
  qed
  show "total f (m(i \<mapsto> s')) = total f m + f s'" if "m i = None"
  proof -
    have "dom m - {i} = dom m" using that by auto
    with new show ?thesis by (simp add: total_def ac_simps)
  qed
qed

lemma total_map: "total f (\<lambda>i. map_option g (m i)) = total (f \<circ> g) m"
proof -
  have "dom (\<lambda>i. map_option g (m i)) = dom m" by (simp add: dom_def)
  then show ?thesis unfolding total_def
    by (intro sum.cong) (auto simp: option.map_sel)
qed

lemma total_zero: "(\<And>i s. m i = Some s \<Longrightarrow> f s = 0) \<Longrightarrow> total f m = 0"
  unfolding total_def by (rule sum.neutral) auto

section \<open>Runs end\<close>

fun is_new :: "'c einstr \<Rightarrow> bool" where
  "is_new (ENew k f cs) = True"
| "is_new _ = False"

fun eweight :: "'c einstr \<Rightarrow> nat" where
  "eweight (EOn i x) = weight x"
| "eweight (EStop i) = 5"
| "eweight _ = 1"

text \<open>Per goroutine, and for all of them.\<close>

definition news :: "'c einstr list \<Rightarrow> nat" where
  "news t = length (filter is_new t)"

definition closes :: "'c einstr list \<Rightarrow> nat" where
  "closes t = length (filter (\<lambda>x. x = EClose) t)"

definition eweights :: "'c einstr list \<Rightarrow> nat" where
  "eweights t = sum_list (map eweight t)"

definition all_of :: "('c einstr list \<Rightarrow> nat) \<Rightarrow> 'c einstr list list \<Rightarrow> nat" where
  "all_of f ts = sum_list (map f ts)"

definition held :: "(string \<Rightarrow> 'c session option) \<Rightarrow> nat" where
  "held m = total (\<lambda>s. length (sClosers s)) m"

lemma counts_simps [simp]:
  "news [] = 0" "news (x # t) = (if is_new x then Suc (news t) else news t)" "news (t @ u) = news t + news u"
  "closes [] = 0" "closes (x # t) = (if x = EClose then Suc (closes t) else closes t)"
  "closes (t @ u) = closes t + closes u"
  "eweights [] = 0" "eweights (x # t) = eweight x + eweights t" "eweights (t @ u) = eweights t + eweights u"
  "all_of f [] = 0" "all_of f (t # ts) = f t + all_of f ts" "all_of f (ts @ us) = all_of f ts + all_of f us"
  by (simp_all add: news_def closes_def eweights_def all_of_def)

lemma counts_session [simp]:
  "news (map (EOn i) p) = 0" "closes (map (EOn i) p) = 0" "eweights (map (EOn i) p) = prog_weight p"
  "news (map EDrop cs) = 0" "closes (map EDrop cs) = 0"
  "all_of news (map (map (EOn i)) ps) = 0" "all_of closes (map (map (EOn i)) ps) = 0"
proof -
  show p: "news (map (EOn i) p) = 0" "closes (map (EOn i) p) = 0" for p
    by (induction p) simp_all
  show "eweights (map (EOn i) p) = prog_weight p" by (induction p) simp_all
  show "news (map EDrop cs) = 0" "closes (map EDrop cs) = 0" by (induction cs) simp_all
  show "all_of news (map (map (EOn i)) ps) = 0" "all_of closes (map (map (EOn i)) ps) = 0"
    by (induction ps) (simp_all add: p)
qed

lemma counts_stops [simp]:
  "news (concat (map (\<lambda>i. map (EOn i) p) order)) = 0" "closes (concat (map (\<lambda>i. map (EOn i) p) order)) = 0"
  by (induction order) simp_all

lemma held_upd:
  "finite (dom m) \<Longrightarrow> m i = Some s \<Longrightarrow>
     held (m(i \<mapsto> s')) + length (sClosers s) = held m + length (sClosers s')"
  using total_upd(1) [of m i s "\<lambda>s. length (sClosers s)" s'] by (simp add: held_def)

lemma held_cancelled: "held (\<lambda>i. map_option (\<lambda>s. s\<lparr>sCancelled := True\<rparr>) (m i)) = held m"
  by (simp add: held_def total_map comp_def)

lemma weight_stop: "prog_weight p_stop = 4"
  by (simp add: p_stop_def p_set_state_def p_shutdown_def)

text \<open>
  Each instruction uses up a registration, a \<open>Close\<close>, or some of the rest: what is left to do and the
  resources that sessions hold.
\<close>

lemma eexec_weight:
  assumes "eexec now b order x (e, ad) = (front, gos, (e', ad'))" "finite (dom (eSessions e))"
  shows "finite (dom (eSessions e')) \<and>
    (news front + all_of news gos < news [x] \<or>
     news front + all_of news gos = news [x] \<and>
       (closes front + all_of closes gos < closes [x] \<or>
        closes front + all_of closes gos = closes [x] \<and>
          eweights front + all_of eweights gos + held (eSessions e') < eweight x + held (eSessions e)))"
proof (cases x)
  case (ENew k f cs)
  have "finite (dom (eSessions e'))"
    using assms by (auto simp: ENew add_session_def Let_def split: if_splits)
  with assms show ?thesis by (auto simp: ENew split: prod.splits sum.splits)
next
  case (EOn i y)
  show ?thesis
  proof (cases "eSessions e i")
    case None
    have "0 < weight y" by (cases y) simp_all
    with assms None EOn show ?thesis by auto
  next
    case (Some s)
    obtain fr w where ex: "exec now y b (gsys_of e ad s) = (fr, w)" by (metis prod.collapse)
    have "prog_weight fr + length (sClosers (sesn w)) < weight y + length (sClosers s)"
      using exec_weight [OF ex] by (simp add: gsys_of_def)
    with assms ex Some EOn held_upd [OF assms(2) Some, of "sesn w"] show ?thesis
      by (auto simp: set_sys_def)
  qed
next
  case ECancel
  have "dom (\<lambda>i. map_option g (eSessions e i)) = dom (eSessions e)" for g by (simp add: dom_def)
  with assms ECancel show ?thesis by (auto simp: held_cancelled)
qed (use assms in \<open>auto simp: weight_stop find_session_def split: option.splits sum.splits\<close>)

definition eorder :: "('c econfig \<times> 'c econfig) set" where
  "eorder = measures [\<lambda>(w, ts). all_of news ts, \<lambda>(w, ts). all_of closes ts,
     \<lambda>((e, ad), ts). all_of eweights ts + held (eSessions e)]"

lemma wf_eorder: "wf eorder"
  by (simp add: eorder_def)

lemma estep_order:
  assumes "estep c d" "finite (dom (eSessions (fst (fst c))))"
  shows "(d, c) \<in> eorder \<and> finite (dom (eSessions (fst (fst d))))"
  using assms(1)
proof cases
  case (erun order w now b x front gos w' ps rest qs)
  obtain e ad e' ad' where w: "w = (e, ad)" "w' = (e', ad')" by (metis surj_pair)
  have "finite (dom (eSessions e))" using assms(2) erun(1) w by simp
  from eexec_weight [OF _ this] erun(5) w show ?thesis
    unfolding erun(1,2) eorder_def by fastforce
qed

lemma estep_progress:
  assumes "finite (dom (eSessions (fst w)))" "t \<in> set ts" "t \<noteq> []"
  shows "\<exists>d. estep (w, ts) d"
proof -
  obtain ps qs where "ts = ps @ t # qs" using assms(2) by (meson split_list)
  moreover obtain x rest where "t = x # rest" using assms(3) by (cases t) auto
  moreover obtain order where "distinct order" "set order = dom (eSessions (fst w))"
    using finite_distinct_list [OF assms(1)] by blast
  moreover obtain front gos w' where "eexec 0 False order x w = (front, gos, w')" by (metis prod.collapse)
  ultimately show ?thesis using estep.erun by blast
qed

lemma estep_completes:
  assumes "finite (dom (eSessions (fst (fst c))))"
  shows "\<exists>d. estep\<^sup>*\<^sup>* c d \<and> efinished d"
  using assms
proof (induction c rule: wf_induct_rule [OF wf_eorder])
  case (1 c)
  show ?case
  proof (cases "efinished c")
    case True
    then show ?thesis by blast
  next
    case False
    then obtain t where "t \<in> set (snd c)" "t \<noteq> []" by (auto simp: efinished_def)
    then obtain d where d: "estep c d"
      using estep_progress [of "fst c" t "snd c"] 1(2) by auto
    from estep_order [OF d 1(2)] 1(1) obtain f where "estep\<^sup>*\<^sup>* d f" "efinished f" by blast
    with d show ?thesis by (meson converse_rtranclp_into_rtranclp)
  qed
qed

section \<open>Resources\<close>

text \<open>The closers that a goroutine is about to close.\<close>

fun epending :: "'c einstr list \<Rightarrow> 'c list" where
  "epending [] = []"
| "epending (EOn i x # p) = pending [x] @ epending p"
| "epending (x # p) = epending p"

lemma epending_append [simp]: "epending (p @ q) = epending p @ epending q"
  by (induction p rule: epending.induct) simp_all

lemma pending_Cons: "pending (x # p) = pending [x] @ pending p"
  by (cases x) simp_all

lemma epending_session [simp]: "epending (map (EOn i) p) = pending p"
proof (induction p)
  case (Cons x p)
  with pending_Cons [of x p] show ?case by simp
qed simp

text \<open>
  Instructions that may be left in a goroutine: work on known sessions that closes what \<open>exec\<close> put
  in front, and registrations whose programs close nothing of a session directly.
\<close>

fun eclosing_ok :: "string set \<Rightarrow> 'c einstr \<Rightarrow> bool" where
  "eclosing_ok D (EOn i x) = (i \<in> D \<and> closing_ok x)"
| "eclosing_ok D (ENew k f cs) =
     (\<forall>i. list_all closes_none (fst (f i)) \<and> list_all (list_all closes_none) (snd (f i)))"
| "eclosing_ok D x = True"

text \<open>The programs at the start.\<close>

fun einitial :: "'c einstr \<Rightarrow> bool" where
  "einitial (EOn i x) = False"
| "einitial (EDrop c) = False"
| "einitial x = eclosing_ok {} x"

lemma eclosing_mono: "eclosing_ok D x \<Longrightarrow> D \<subseteq> D' \<Longrightarrow> eclosing_ok D' x"
  by (cases x) auto

lemma eclosing_mono_all:
  "list_all (list_all (eclosing_ok D)) ts \<Longrightarrow> D \<subseteq> D' \<Longrightarrow> list_all (list_all (eclosing_ok D')) ts"
  by (auto simp: list_all_iff intro: eclosing_mono)

lemma einitial_ok: "einitial x \<Longrightarrow> eclosing_ok D x \<and> (\<forall>p. epending (x # p) = epending p)"
  by (cases x) auto

definition eclosers :: "'c engine \<Rightarrow> 'c multiset" where
  "eclosers e = total (\<lambda>s. mset (sClosers s)) (eSessions e)"

text \<open>What is kept: \<open>n\<close> registrations are still to come.\<close>

definition eworld_ok :: "nat \<Rightarrow> 'c engine \<Rightarrow> bool" where
  "eworld_ok n e \<longleftrightarrow>
     finite (dom (eSessions e)) \<and> ids_fit e n \<and>
     (\<forall>i s. eSessions e i = Some s \<longrightarrow> sClosed s \<longrightarrow> sClosers s = [])"

definition econfig_ok :: "'c econfig \<Rightarrow> bool" where
  "econfig_ok c \<longleftrightarrow>
     (let e = fst (fst c); ad = snd (fst c); ts = snd c
      in eworld_ok (all_of news ts) e \<and> list_all (list_all (eclosing_ok (dom (eSessions e)))) ts \<and>
         mset ad = eclosers e + mset (eLog e) + mset (concat (map epending ts)))"

lemma ids_fit_same:
  "ids_fit e n \<Longrightarrow> eNextID e' = eNextID e \<Longrightarrow> dom (eSessions e') = dom (eSessions e) \<Longrightarrow> ids_fit e' n"
  by (simp add: ids_fit_def)

lemma ids_fit_less: "ids_fit e n \<Longrightarrow> m \<le> n \<Longrightarrow> ids_fit e m"
  by (simp add: ids_fit_def)

lemma closing_front: "exec now x b w = (front, w') \<Longrightarrow> closing_ok x \<Longrightarrow> list_all closing_ok front"
  by (cases x) (auto simp: Let_def closes_none_all_ok split: if_splits)

lemma eclosing_session:
  "list_all closing_ok p \<Longrightarrow> i \<in> D \<Longrightarrow> list_all (eclosing_ok D) (map (EOn i) p)"
  by (simp add: list_all_iff)

lemma epending_drop [simp]: "epending (map EDrop cs) = []" "list_all (eclosing_ok D) (map EDrop cs)"
  by (induction cs) simp_all

lemma epending_sessions [simp]:
  "list_all (list_all closes_none) ps \<Longrightarrow> concat (map epending (map (map (EOn i)) ps)) = []"
  by (induction ps) (simp_all add: closes_none_pending)

lemma eclosing_sessions:
  "list_all (list_all closes_none) ps \<Longrightarrow> i \<in> D \<Longrightarrow> list_all (list_all (eclosing_ok D)) (map (map (EOn i)) ps)"
  by (induction ps) (simp_all add: eclosing_session closes_none_all_ok)

lemma pending_stop [simp]: "pending p_stop = []" "list_all closing_ok p_stop"
  by (simp_all add: p_stop_def p_set_state_def p_shutdown_def)

lemma epending_stops [simp]:
  "epending (concat (map (\<lambda>i. map (EOn i) p_stop) order)) = []"
  "set order \<subseteq> D \<Longrightarrow> list_all (eclosing_ok D) (concat (map (\<lambda>i. map (EOn i) p_stop) order))"
  by (induction order) (simp_all add: eclosing_session)

lemma new_session_closers [simp]: "sClosers (new_session t i k) = []"
  by (simp add: new_session_def)

text \<open>
  One instruction: the sessions stay, identifiers stay unique, and every resource that has come up is
  held by a session, closed, or about to be closed.
\<close>

lemma eexec_ok:
  assumes ex: "eexec now b order x (e, ad) = (front, gos, (e', ad'))"
    and ok: "eworld_ok (n + news [x]) e" "eclosing_ok (dom (eSessions e)) x" "set order = dom (eSessions e)"
  shows "eworld_ok (n + news front + all_of news gos) e' \<and> dom (eSessions e) \<subseteq> dom (eSessions e') \<and>
    list_all (eclosing_ok (dom (eSessions e'))) front \<and>
    list_all (list_all (eclosing_ok (dom (eSessions e')))) gos \<and>
    mset ad' + eclosers e + mset (eLog e) + mset (epending [x]) =
      mset ad + eclosers e' + mset (eLog e') + mset (epending front) + mset (concat (map epending gos))"
proof (cases x)
  case (ENew k f cs)
  obtain r e1 where a: "add_session now k e = (r, e1)" by (metis prod.collapse)
  show ?thesis
  proof (cases r)
    case (Inl err)
    with a have "e1 = e" by (auto simp: add_session_def Let_def split: if_splits)
    with ex ok a Inl ENew show ?thesis by (auto simp: eworld_ok_def intro: ids_fit_less)
  next
    case (Inr i)
    have e1: "eSessions e1 = (eSessions e)(i \<mapsto> new_session now i k)" "eLog e1 = eLog e"
      using a Inr by (auto simp: add_session_def Let_def split: if_splits)
    have "ids_fit e (Suc n)" using ok(1) ENew by (simp add: eworld_ok_def)
    from add_session_fresh [OF this] a Inr have fresh: "eSessions e i = None" "ids_fit e1 n" by auto
    have "eclosers e1 = eclosers e"
      using total_upd(2) [where m = "eSessions e" and i = i and f = "\<lambda>s. mset (sClosers s)" and
          s' = "new_session now i k"] fresh(1) ok(1)
      by (simp add: eclosers_def e1 eworld_ok_def)
    moreover have "eworld_ok n e1"
      using ok(1) fresh(2) by (auto simp: eworld_ok_def e1)
    moreover have "front = map (EOn i) (fst (f i))" "gos = map (map (EOn i)) (snd (f i))" "e' = e1" "ad' = ad"
      using ex a Inr ENew by auto
    moreover have "list_all closes_none (fst (f i))" "list_all (list_all closes_none) (snd (f i))"
      using ok(2) ENew by auto
    ultimately show ?thesis
      using ENew e1 by (auto simp: closes_none_pending closes_none_all_ok eclosing_session eclosing_sessions
          simp del: map_map)
  qed
next
  case (EOn i y)
  then obtain s where s: "eSessions e i = Some s" and y: "closing_ok y" using ok(2) by auto
  obtain fr w where fr: "exec now y b (gsys_of e ad s) = (fr, w)" by (metis prod.collapse)
  have inv: "sClosed s \<longrightarrow> sClosers s = []" using ok(1) s by (auto simp: eworld_ok_def)
  from exec_closers [OF fr y] inv have c: "sClosed (sesn w) \<longrightarrow> sClosers (sesn w) = []"
    "mset (gAdded w) + mset (sClosers s) + mset (eLog e) + mset (pending [y]) =
     mset ad + mset (sClosers (sesn w)) + mset (closedLog w) + mset (pending fr)"
    by (simp_all add: gsys_of_def)
  have r: "front = map (EOn i) fr" "gos = []" "e' = set_sys i w e" "ad' = gAdded w"
    using ex EOn s fr by auto
  have t: "eclosers e' + mset (sClosers s) = eclosers e + mset (sClosers (sesn w))"
    using total_upd(1) [where m = "eSessions e" and i = i and f = "\<lambda>s. mset (sClosers s)" and
        s = s and s' = "sesn w"] s ok(1)
    by (simp add: eclosers_def r set_sys_def eworld_ok_def)
  have d: "dom (eSessions e') = dom (eSessions e)" using s by (auto simp: r set_sys_def)
  have "ids_fit e' n"
    by (rule ids_fit_same [of e]) (use ok(1) d EOn in \<open>simp_all add: eworld_ok_def r set_sys_def\<close>)
  then have "eworld_ok n e'"
    using ok(1) c(1) d EOn by (auto simp: eworld_ok_def) (auto simp: r set_sys_def split: if_splits)
  moreover have "mset ad' + eclosers e + mset (eLog e) + mset (epending [x]) =
      mset ad + eclosers e' + mset (eLog e') + mset (epending front)"
  proof -
    have "mset (gAdded w) + eclosers e + mset (eLog e) + mset (pending [y]) + mset (sClosers s) =
        mset ad + eclosers e' + mset (closedLog w) + mset (pending fr) + mset (sClosers s)"
      using c(2) t by (simp add: ac_simps)
    then show ?thesis by (simp add: r EOn set_sys_def)
  qed
  moreover have "list_all (eclosing_ok (dom (eSessions e'))) front"
    using closing_front [OF fr y] s d by (simp add: r eclosing_session domI)
  ultimately show ?thesis using d by (simp add: r(1,2))
next
  case ECancel
  then have e': "eSessions e' = (\<lambda>i. map_option (\<lambda>s. s\<lparr>sCancelled := True\<rparr>) (eSessions e i))"
    "eLog e' = eLog e" "eNextID e' = eNextID e" "front = []" "gos = []" "ad' = ad" using ex by auto
  have d: "dom (eSessions e') = dom (eSessions e)" by (simp add: e')
  have "eclosers e' = eclosers e" by (simp add: eclosers_def e' total_map comp_def)
  moreover have "ids_fit e' n"
    by (rule ids_fit_same [of e]) (use ok(1) ECancel d e'(3) in \<open>simp_all add: eworld_ok_def\<close>)
  then have "eworld_ok n e'"
    using ok(1) d ECancel by (auto simp: eworld_ok_def) (auto simp: e')
  ultimately show ?thesis using d by (simp add: e' ECancel)
next
  case EClose
  with ex ok show ?thesis
    by (auto simp: eworld_ok_def eclosers_def intro: ids_fit_same)
next
  case EPoll
  have "eLog (snd (poll now e)) = eLog e" by (simp add: poll_def poll_events_def split: prod.split option.split)
  with EPoll ex ok show ?thesis
    by (auto simp: eworld_ok_def eclosers_def intro: ids_fit_same)
next
  case (EStop i)
  with ex ok show ?thesis
    by (auto simp: find_session_def eclosing_session domI split: option.splits)
next
  case (EDrop c)
  with ex ok show ?thesis
    by (auto simp: eworld_ok_def eclosers_def intro: ids_fit_same)
qed

lemma estep_ok: "estep c d \<Longrightarrow> econfig_ok c \<Longrightarrow> econfig_ok d"
proof (erule estep.cases)
  fix order now b x front gos rest ps qs and w w' :: "'a eworld"
  assume ok: "econfig_ok c" and c: "c = (w, ps @ (x # rest) # qs)"
    and d: "d = (w', ps @ (front @ rest) # qs @ gos)"
    and order: "set order = dom (eSessions (fst w))" and e: "eexec now b order x w = (front, gos, w')"
  obtain e ad e' ad' where w: "w = (e, ad)" "w' = (e', ad')" by (metis surj_pair)
  define n where "n = all_of news ps + news rest + all_of news qs"
  have x: "eworld_ok (n + news [x]) e" "eclosing_ok (dom (eSessions e)) x"
    using ok by (auto simp: econfig_ok_def c w n_def Let_def ac_simps split: if_splits)
  from eexec_ok [OF e [unfolded w] x] order w
  have ex: "eworld_ok (n + news front + all_of news gos) e'" "dom (eSessions e) \<subseteq> dom (eSessions e')"
    "list_all (eclosing_ok (dom (eSessions e'))) front"
    "list_all (list_all (eclosing_ok (dom (eSessions e')))) gos"
    "mset ad' + eclosers e + mset (eLog e) + mset (epending [x]) =
      mset ad + eclosers e' + mset (eLog e') + mset (epending front) + mset (concat (map epending gos))"
    by auto
  have "epending (x # rest) = epending [x] @ epending rest" by (cases x) simp_all
  then have m: "mset ad = eclosers e + mset (eLog e) + mset (epending [x]) + mset (epending rest) +
      mset (concat (map epending ps)) + mset (concat (map epending qs))"
    using ok by (simp add: econfig_ok_def c w Let_def ac_simps)
  have "mset ad' + (eclosers e + mset (eLog e) + mset (epending [x])) =
      eclosers e' + mset (eLog e') + mset (epending front) + mset (concat (map epending gos)) +
      mset (epending rest) + mset (concat (map epending ps)) + mset (concat (map epending qs)) +
      (eclosers e + mset (eLog e) + mset (epending [x]))"
    using ex(5) unfolding m by (simp add: ac_simps)
  then have m': "mset ad' = eclosers e' + mset (eLog e') + mset (concat (map epending (snd d)))"
    by (simp only: add_right_cancel) (simp add: d ac_simps)
  have "list_all (list_all (eclosing_ok (dom (eSessions e)))) (ps @ rest # qs)"
    using ok by (simp add: econfig_ok_def c w Let_def)
  from eclosing_mono_all [OF this ex(2)]
  have "list_all (list_all (eclosing_ok (dom (eSessions e')))) (snd d)"
    using ex(3,4) by (simp add: d)
  with ex(1) m' show "econfig_ok d"
    by (simp add: econfig_ok_def d w n_def Let_def ac_simps)
qed

lemma econfig_ok_init:
  assumes "all_of news ts < 2 ^ 64" "list_all (list_all einitial) ts"
  shows "econfig_ok (init_world url, ts)"
proof -
  have t: "list_all (eclosing_ok {}) t \<and> epending t = []" if "list_all einitial t" for t :: "'a einstr list"
    using that by (induction t) (auto simp: einitial_ok)
  have "concat (map epending ts) = []" using assms(2) t by (auto simp: list_all_iff)
  moreover have "list_all (list_all (eclosing_ok {})) ts" using assms(2) t by (auto simp: list_all_iff)
  ultimately show ?thesis
    using assms(1)
    by (simp add: econfig_ok_def init_world_def eworld_ok_def ids_fit_def new_engine_def eclosers_def total_def)
qed

section \<open>Closing\<close>

text \<open>
  After \<open>Close\<close> has taken its list, no session is added any more, and each one has been through the
  instruction \<open>x\<close> of \<open>stop\<close>, which makes \<open>D\<close> true, or still has it in front of it.
\<close>

definition closing_for :: "'c instr \<Rightarrow> ('c session \<Rightarrow> bool) \<Rightarrow> 'c econfig \<Rightarrow> bool" where
  "closing_for x D c \<longleftrightarrow>
     (\<exists>t \<in> set (snd c). EClose \<in> set t) \<or>
     eClosed (fst (fst c)) \<and>
     (\<forall>i s. eSessions (fst (fst c)) i = Some s \<longrightarrow> D s \<or> (\<exists>t \<in> set (snd c). EOn i x \<in> set t))"

definition achieves :: "'c instr \<Rightarrow> ('c session \<Rightarrow> bool) \<Rightarrow> bool" where
  "achieves x D \<longleftrightarrow>
     x \<in> set p_stop \<and> (\<forall>s. D s \<longrightarrow> D (s\<lparr>sCancelled := True\<rparr>)) \<and>
     (\<forall>now y b w front w'. exec now y b w = (front, w') \<longrightarrow> D (sesn w) \<or> y = x \<longrightarrow> D (sesn w'))"

lemma p_stop_simps: "p_stop = [ISetState StateStopped [], ICancel, ITakeClosers]"
  by (simp add: p_stop_def p_set_state_def p_shutdown_def)

lemma achieves_stop:
  "achieves (ISetState StateStopped []) (\<lambda>s. terminal (sState s))"
  "achieves ICancel sCancelled" "achieves ITakeClosers sClosed"
proof -
  have "terminal StateStopped" by (simp add: terminal_def)
  from achieves_terminal [OF this]
  show "achieves (ISetState StateStopped []) (\<lambda>s. terminal (sState s))"
    unfolding achieves_def by (intro conjI allI impI) (simp_all add: p_stop_simps)
  show "achieves ICancel sCancelled"
    unfolding achieves_def by (intro conjI allI impI) (simp_all add: p_stop_simps achieves_cancelled)
  show "achieves ITakeClosers sClosed"
    unfolding achieves_def by (intro conjI allI impI) (simp_all add: p_stop_simps achieves_closed)
qed

lemma eexec_achieves:
  assumes ach: "achieves x D" and ex: "eexec now b order y (e, ad) = (front, gos, (e', ad'))"
    and y: "y \<noteq> EClose" "eClosed e" and s': "eSessions e' i = Some s'"
  shows "eClosed e' \<and> (\<exists>s. eSessions e i = Some s \<and> (D s \<or> y = EOn i x \<longrightarrow> D s'))"
proof (cases y)
  case (ENew k f cs)
  with ex y s' show ?thesis by (auto simp: add_session_def)
next
  case (EOn j z)
  show ?thesis
  proof (cases "eSessions e j")
    case None
    with ex y s' EOn show ?thesis by auto
  next
    case (Some s)
    obtain fr w where fr: "exec now z b (gsys_of e ad s) = (fr, w)" by (metis prod.collapse)
    then have e': "e' = set_sys j w e" using ex EOn Some by auto
    have "D s \<or> z = x \<longrightarrow> D (sesn w)"
      using ach fr unfolding achieves_def by (metis gsys_of_def sys.select_convs(1))
    with Some y s' EOn show ?thesis by (auto simp: e' set_sys_def split: if_splits)
  qed
next
  case ECancel
  with ex y s' ach show ?thesis by (auto simp: achieves_def)
next
  case EPoll
  with ex y s' show ?thesis by (auto simp: poll_def poll_events_def split: prod.splits option.splits)
next
  case (EStop j)
  with ex y s' show ?thesis by (auto split: sum.splits)
next
  case (EDrop c)
  with ex y s' show ?thesis by auto
qed (use y in simp)

lemma estep_closing: "achieves x D \<Longrightarrow> closing_for x D c \<Longrightarrow> estep c d \<Longrightarrow> closing_for x D d"
proof (erule estep.cases)
  fix order now b y front gos rest ps qs and w w' :: "'a eworld"
  assume ach: "achieves x D" and cl: "closing_for x D c" and c: "c = (w, ps @ (y # rest) # qs)"
    and d: "d = (w', ps @ (front @ rest) # qs @ gos)"
    and order: "set order = dom (eSessions (fst w))" and e: "eexec now b order y w = (front, gos, w')"
  obtain e ad e' ad' where w: "w = (e, ad)" "w' = (e', ad')" by (metis surj_pair)
  show "closing_for x D d"
  proof (cases "y = EClose")
    case True
    have "\<exists>t \<in> set (snd d). EOn i x \<in> set t" if "eSessions e' i = Some s" for i s
    proof -
      have "i \<in> set order" using that True e order w by auto
      moreover have "x \<in> set p_stop" using ach by (simp add: achieves_def)
      moreover have "front = concat (map (\<lambda>i. map (EOn i) p_stop) order) @ [ECancel]" using True e w by auto
      ultimately have "EOn i x \<in> set front" by (auto intro!: bexI [of _ i])
      then show ?thesis by (auto simp: d)
    qed
    with True e w show ?thesis by (auto simp: closing_for_def d)
  next
    case False
    show ?thesis
    proof (cases "\<exists>t \<in> set (snd d). EClose \<in> set t")
      case True
      then show ?thesis by (simp add: closing_for_def)
    next
      case no: False
      then have "\<not> (\<exists>t \<in> set (snd c). EClose \<in> set t)" using False by (auto simp: c d)
      with cl have closed: "eClosed e"
        and ok: "\<And>i s. eSessions e i = Some s \<Longrightarrow> D s \<or> (\<exists>t \<in> set (snd c). EOn i x \<in> set t)"
        by (auto simp: closing_for_def c w)
      have "D s' \<or> (\<exists>t \<in> set (snd d). EOn i x \<in> set t)" if s': "eSessions e' i = Some s'" for i s'
      proof -
        from eexec_achieves [OF ach e [unfolded w] False closed s'] obtain s where
          s: "eSessions e i = Some s" "D s \<or> y = EOn i x \<longrightarrow> D s'" by blast
        from ok [OF s(1)] s(2) show ?thesis by (auto simp: c d)
      qed
      moreover have "eClosed e'"
        using e w closed False
        by (cases y) (auto simp: add_session_def set_sys_def poll_def poll_events_def
            split: sum.splits option.splits prod.splits)
      ultimately show ?thesis by (simp add: closing_for_def d w)
    qed
  qed
qed

text \<open>The context of the engine.\<close>

definition cancelling :: "'c econfig \<Rightarrow> bool" where
  "cancelling c \<longleftrightarrow>
     eCancelled (fst (fst c)) \<or> (\<exists>t \<in> set (snd c). EClose \<in> set t \<or> ECancel \<in> set t)"

lemma estep_cancelling: "cancelling c \<Longrightarrow> estep c d \<Longrightarrow> cancelling d"
proof (erule estep.cases)
  fix order now b y front gos rest ps qs and w w' :: "'a eworld"
  assume cl: "cancelling c" and c: "c = (w, ps @ (y # rest) # qs)"
    and d: "d = (w', ps @ (front @ rest) # qs @ gos)" and e: "eexec now b order y w = (front, gos, w')"
  obtain e ad e' ad' where w: "w = (e, ad)" "w' = (e', ad')" by (metis surj_pair)
  have "eCancelled e \<longrightarrow> eCancelled e'"
    using e w by (cases y) (auto simp: add_session_def set_sys_def poll_def poll_events_def Let_def
        split: sum.splits option.splits prod.splits if_splits)
  moreover have "y = EClose \<Longrightarrow> ECancel \<in> set front" "y = ECancel \<Longrightarrow> eCancelled e'"
    using e w by auto
  ultimately show "cancelling d"
    using cl by (auto simp: cancelling_def c d w)
qed

section \<open>Every schedule\<close>

lemma reachable_invariant:
  "estep\<^sup>*\<^sup>* c d \<Longrightarrow> I c \<Longrightarrow> (\<And>c d. I c \<Longrightarrow> estep c d \<Longrightarrow> I d) \<Longrightarrow> I d"
  by (induction rule: rtranclp_induct) auto

lemma efinished_concat: "efinished (w, us) \<Longrightarrow> concat (map epending us) = []"
  by (auto simp: efinished_def)

lemma efinished_none: "efinished (w, us) \<Longrightarrow> \<not> (\<exists>t \<in> set us. x \<in> set t)"
  by (auto simp: efinished_def)

text \<open>
  \<open>Close\<close> is complete, whatever it races with: from every state that some interleaving reaches, all
  goroutines can come to their end, and then nothing is left open.
\<close>

lemma close_complete:
  assumes "estep\<^sup>*\<^sup>* (init_world url, ts) ((e, ad), us)" "\<exists>t \<in> set ts. EClose \<in> set t"
    and "list_all (list_all einitial) ts" "all_of news ts < 2 ^ 64"
  shows "(\<exists>d. estep\<^sup>*\<^sup>* ((e, ad), us) d \<and> efinished d) \<and>
    (efinished ((e, ad), us) \<longrightarrow>
      eClosed e \<and> eCancelled e \<and> mset (eLog e) = mset ad \<and>
      (\<forall>i s. eSessions e i = Some s \<longrightarrow>
         terminal (sState s) \<and> sCancelled s \<and> sClosed s \<and> sClosers s = []))"
proof -
  let ?c = "(init_world url, ts)" and ?d = "((e, ad), us)"
  have ok: "econfig_ok ?d"
    using reachable_invariant [OF assms(1), of econfig_ok] econfig_ok_init [OF assms(4,3)] estep_ok by blast
  then have "\<exists>d. estep\<^sup>*\<^sup>* ?d d \<and> efinished d"
    by (intro estep_completes) (simp add: econfig_ok_def eworld_ok_def Let_def)
  moreover have "eClosed e \<and> eCancelled e \<and> mset (eLog e) = mset ad \<and>
      (\<forall>i s. eSessions e i = Some s \<longrightarrow> terminal (sState s) \<and> sCancelled s \<and> sClosed s \<and> sClosers s = [])"
    if f: "efinished ?d"
  proof -
    have start: "closing_for x D ?c" for x and D :: "'a session \<Rightarrow> bool"
      using assms(2) by (simp add: closing_for_def)
    have D: "eClosed e \<and> (\<forall>i s. eSessions e i = Some s \<longrightarrow> D s)" if "achieves x D" for x and D :: "'a session \<Rightarrow> bool"
      using reachable_invariant [where I = "closing_for x D", OF assms(1) start] estep_closing [OF that] efinished_none [OF f]
      by (fastforce simp: closing_for_def)
    have "cancelling ?d"
      using reachable_invariant [OF assms(1), of cancelling] estep_cancelling assms(2)
      by (auto simp: cancelling_def)
    then have "eCancelled e" using efinished_none [OF f] by (auto simp: cancelling_def)
    moreover have empty: "sClosers s = []" if "eSessions e i = Some s" for i s
      using ok that D [OF achieves_stop(3)] by (auto simp: econfig_ok_def eworld_ok_def Let_def)
    then have "eclosers e = {#}"
      unfolding eclosers_def by (intro total_zero) simp
    then have "mset (eLog e) = mset ad"
      using ok efinished_concat [OF f] by (simp add: econfig_ok_def Let_def)
    ultimately show ?thesis
      using D [OF achieves_stop(1)] D [OF achieves_stop(2)] D [OF achieves_stop(3)] empty by blast
  qed
  ultimately show ?thesis by blast
qed

text \<open>A given schedule: the order for \<open>Close\<close> and the goroutine that runs next.\<close>

definition edo :: "string list \<Rightarrow> nat \<Rightarrow> 'c econfig \<Rightarrow> 'c econfig" where
  "edo order n c =
     (case snd c ! n of
        [] \<Rightarrow> c
      | x # rest \<Rightarrow>
          (case eexec 5 True order x (fst c) of
             (front, gos, w) \<Rightarrow> (w, take n (snd c) @ (front @ rest) # drop (Suc n) (snd c) @ gos)))"

fun eruns :: "(string list \<times> nat) list \<Rightarrow> 'c econfig \<Rightarrow> 'c econfig \<Rightarrow> bool" where
  "eruns [] c d \<longleftrightarrow> d = c"
| "eruns ((order, n) # sched) c d \<longleftrightarrow>
     n < length (snd c) \<and> distinct order \<and> set order = dom (eSessions (fst (fst c))) \<and>
     eruns sched (edo order n c) d"

lemma edo_step:
  assumes "n < length (snd c)" "distinct order" "set order = dom (eSessions (fst (fst c)))"
  shows "estep\<^sup>*\<^sup>* c (edo order n c)"
proof (cases "snd c ! n")
  case Nil
  then show ?thesis by (simp add: edo_def)
next
  case (Cons x rest)
  obtain front gos w where e: "eexec 5 True order x (fst c) = (front, gos, w)" by (metis prod.collapse)
  have "c = (fst c, take n (snd c) @ (x # rest) # drop (Suc n) (snd c))"
    using assms(1) Cons by (metis id_take_nth_drop prod.collapse)
  moreover from estep.erun [OF assms(2,3) e]
  have "estep (fst c, take n (snd c) @ (x # rest) # drop (Suc n) (snd c)) (edo order n c)"
    by (simp add: edo_def Cons e)
  ultimately show ?thesis by (metis r_into_rtranclp)
qed

lemma eruns_steps: "eruns sched c d \<Longrightarrow> estep\<^sup>*\<^sup>* c d"
  by (induction sched c d rule: eruns.induct) (auto dest: edo_step intro: rtranclp_trans)

section \<open>A goroutine on its own\<close>

text \<open>Without interference the programs are the operations of \<open>Engine\<close>.\<close>

definition same_sys :: "'c gsys \<Rightarrow> 'c gsys \<Rightarrow> bool" where
  "same_sys v w \<longleftrightarrow>
     sesn v = sesn w \<and> queue v = queue w \<and> closedLog v = closedLog w \<and> gAdded v = gAdded w"

lemma exec_same:
  "same_sys v w \<Longrightarrow> exec now x b w = (front, w') \<Longrightarrow>
     \<exists>v'. exec now x b v = (front, v') \<and> same_sys v' w'"
  by (cases x) (auto simp: same_sys_def Let_def split: if_splits)

lemma set_sys_simps [simp]:
  "eSessions (set_sys i w e) = (eSessions e)(i \<mapsto> sesn w)" "set_sys i v (set_sys i w e) = set_sys i v e"
  by (simp_all add: set_sys_def)

lemma set_sys_same: "same_sys v w \<Longrightarrow> set_sys i v e = set_sys i w e"
  by (simp add: same_sys_def set_sys_def)

lemma eon_alone:
  assumes "distinct order" "set order = dom (eSessions e)" "eSessions e i = Some s"
    and "same_sys (gsys_of e ad s) w"
  shows "estep\<^sup>*\<^sup>* ((e, ad), [map (EOn i) p @ rest])
    ((set_sys i (alone now b p w) e, gAdded (alone now b p w)), [rest])"
  using assms
proof (induction now b p w arbitrary: e ad s rule: alone.induct)
  case (1 now b w)
  have "(eSessions e)(i \<mapsto> s) = eSessions e" using 1(3) by (simp add: fun_upd_idem)
  with 1(4) have "set_sys i w e = e" "gAdded w = ad"
    by (simp_all add: same_sys_def gsys_of_def set_sys_def)
  then show ?case by simp
next
  case (2 now b x p w)
  obtain front w' where w': "exec now x b w = (front, w')" by (metis prod.collapse)
  from exec_same [OF 2(5) w'] obtain v where
    v: "exec now x b (gsys_of e ad s) = (front, v)" "same_sys v w'" by blast
  let ?e = "set_sys i v e"
  have "estep ((e, ad), [] @ (EOn i x # map (EOn i) p @ rest) # [])
      ((?e, gAdded v), [] @ (map (EOn i) front @ map (EOn i) p @ rest) # [] @ [])"
    by (rule estep.erun [where order = order and now = now and b = b]) (use 2(2-4) v in simp_all)
  then have "estep ((e, ad), [map (EOn i) (x # p) @ rest]) ((?e, gAdded v), [map (EOn i) (front @ p) @ rest])"
    by simp
  moreover have "estep\<^sup>*\<^sup>* ((?e, gAdded v), [map (EOn i) (front @ p) @ rest])
      ((set_sys i (alone now b (front @ p) w') ?e, gAdded (alone now b (front @ p) w')), [rest])"
  proof (rule 2(1) [OF w' [symmetric] 2(2), of _ "sesn v"])
    show "set order = dom (eSessions ?e)" using 2(3,4) by auto
    show "eSessions ?e i = Some (sesn v)" by simp
    show "same_sys (gsys_of ?e (gAdded v) (sesn v)) w'"
      using v(2) by (simp add: same_sys_def gsys_of_def set_sys_def)
  qed
  ultimately show ?case using w' by (simp add: converse_rtranclp_into_rtranclp)
qed

lemma alone_stop_added: "gAdded (alone now b p_stop w) = gAdded w"
  by (simp add: p_stop_simps alone_close Let_def)

lemma estop_alone:
  assumes "distinct order" "set order = dom (eSessions e)" "eSessions e i = Some s"
  shows "estep\<^sup>*\<^sup>* ((e, ad), [map (EOn i) p_stop @ rest]) ((on_session i (stop now) e, ad), [rest])"
proof -
  let ?w = "alone now True p_stop (gsys_of e ad s)"
  have "sys.truncate (gsys_of e ad s) = session_sys e s"
    by (simp add: truncate_simps gsys_of_def session_sys_def)
  with alone_stop [of now True "gsys_of e ad s"] have t: "sys.truncate ?w = stop now (session_sys e s)"
    by simp
  then have "sesn ?w = sesn (stop now (session_sys e s))" "queue ?w = queue (stop now (session_sys e s))"
    "closedLog ?w = closedLog (stop now (session_sys e s))"
    by (simp_all add: truncate_simps flip: t)
  then have "set_sys i ?w e = on_session i (stop now) e"
    using assms(3) by (simp add: set_sys_def on_session_def Let_def)
  moreover have "gAdded ?w = ad" by (simp add: alone_stop_added gsys_of_def)
  moreover have "same_sys (gsys_of e ad s) (gsys_of e ad s)" by (simp add: same_sys_def)
  note eon_alone [OF assms this, of p_stop rest now True]
  ultimately show ?thesis by simp
qed

lemma estops_alone:
  assumes "distinct order" "set order = dom (eSessions e)" "set is \<subseteq> dom (eSessions e)"
  shows "estep\<^sup>*\<^sup>* ((e, ad), [concat (map (\<lambda>i. map (EOn i) p_stop) is) @ rest])
    ((fold (\<lambda>i. on_session i (stop now)) is e, ad), [rest])"
  using assms(2,3)
proof (induction "is" arbitrary: e)
  case (Cons i "is")
  then obtain s where s: "eSessions e i = Some s" by auto
  have "estep\<^sup>*\<^sup>* ((e, ad), [map (EOn i) p_stop @ concat (map (\<lambda>i. map (EOn i) p_stop) is) @ rest])
      ((on_session i (stop now) e, ad), [concat (map (\<lambda>i. map (EOn i) p_stop) is) @ rest])"
    by (rule estop_alone [OF assms(1) Cons.prems(1) s])
  moreover have "estep\<^sup>*\<^sup>* ((on_session i (stop now) e, ad), [concat (map (\<lambda>i. map (EOn i) p_stop) is) @ rest])
      ((fold (\<lambda>i. on_session i (stop now)) is (on_session i (stop now) e), ad), [rest])"
    by (rule Cons.IH) (use Cons.prems in simp_all)
  ultimately show ?case by (simp add: rtranclp_trans)
qed simp

section \<open>Refinement\<close>



end
