(* ===== verification/Go_Filepath.thy ===== *)
theory Go_Filepath
  imports Share_Mode
begin

text \<open>
  \<open>filepath.Rel\<close> on Unix, and clean paths as lists of elements: the facts about joining, splitting
  and relating such paths that the directory walks rest on.
\<close>

section \<open>Clean paths\<close>

definition cpath :: "bool \<Rightarrow> string list \<Rightarrow> string" where
  "cpath rooted es =
     (if rooted then CHR ''/'' # join_slash es else if es = [] then dot else join_slash es)"

abbreviation plain :: "string list \<Rightarrow> bool" where
  "plain es \<equiv> list_all plain_elem es"

lemma plain_noslash: "plain es \<Longrightarrow> \<forall>w \<in> set es. CHR ''/'' \<notin> set w"
  by (auto simp: list_all_iff plain_elem_def)

lemma split_plain: "plain es \<Longrightarrow> es \<noteq> [] \<Longrightarrow> split_slash (join_slash es) = es"
  by (rule split_join) (simp_all add: plain_noslash)

lemma split_slash_Cons [simp]: "split_slash (CHR ''/'' # s) = [] # split_slash s"
  by simp

lemma split_append_slash: "split_slash (s @ CHR ''/'' # t) = split_slash s @ split_slash t"
proof (induction s)
  case (Cons c s)
  then show ?case by (cases "split_slash s") auto
qed simp

lemma clean_plain: "plain es \<Longrightarrow> clean_elems rooted acc es = rev acc @ es"
  by (rule clean_elems_plain) (simp add: list_all_iff)

lemma clean_elems_append_plain:
  "plain es \<Longrightarrow> clean_elems rooted [] (es @ ws) = clean_elems rooted (rev es) ws"
proof (induction es arbitrary: ws rule: rev_induct)
  case (snoc e es)
  then have "clean_elems rooted [] (es @ e # ws) = clean_elems rooted (rev es) (e # ws)" by simp
  with snoc.prems show ?case by (simp add: plain_elem_def)
qed simp

lemma clean_elems_skip: "clean_elems rooted acc ([] # ws) = clean_elems rooted acc ws"
  by simp

lemma hd_join_plain: "plain es \<Longrightarrow> es \<noteq> [] \<Longrightarrow> join_slash es \<noteq> [] \<and> hd (join_slash es) \<noteq> CHR ''/''"
proof -
  assume p: "plain es" "es \<noteq> []"
  then have h: "hd es \<noteq> []" "CHR ''/'' \<notin> set (hd es)" by (cases es; simp add: plain_elem_def)+
  then have "hd (join_slash es) = hd (hd es)" using p by (intro hd_join_slash) auto
  moreover have "join_slash es \<noteq> []" using p h by (cases es rule: join_slash.cases) auto
  ultimately show ?thesis using h by (metis hd_in_set)
qed

lemma path_clean_parts:
  "p \<noteq> [] \<Longrightarrow> path_clean p =
     cpath (hd p = CHR ''/'') (clean_elems (hd p = CHR ''/'') [] (split_slash p))"
  by (simp add: path_clean_def cpath_def Let_def)

lemma path_clean_cpath [simp]:
  assumes "plain es"
  shows "path_clean (cpath rooted es) = cpath rooted es"
proof (cases "es = []")
  case True
  then show ?thesis by (simp add: cpath_def path_clean_def)
next
  case False
  with assms show ?thesis
    by (simp add: cpath_def path_clean_def clean_plain split_plain hd_join_plain)
qed

lemma cpath_nonempty [simp]: "plain es \<Longrightarrow> cpath rooted es \<noteq> []"
  using hd_join_plain [of es] by (auto simp: cpath_def)

lemma hd_cpath: "plain es \<Longrightarrow> hd (cpath rooted es) = CHR ''/'' \<longleftrightarrow> rooted"
  using hd_join_plain [of es] by (auto simp: cpath_def)

lemma clean_split_cpath:
  "plain es \<Longrightarrow> clean_elems r [] (split_slash (cpath rooted es) @ ws) = clean_elems r (rev es) ws"
proof (cases "es = []")
  case False
  assume "plain es"
  with False show ?thesis by (simp add: cpath_def split_plain clean_elems_append_plain)
qed (simp add: cpath_def)

lemma clean_elems_acc_plain: "plain fs \<Longrightarrow> clean_elems r (rev es) fs = es @ fs"
  by (simp add: clean_plain)

text \<open>Joining a clean path and a relative one made of plain elements.\<close>

lemma path_join_cpath:
  assumes "plain es" "plain fs" "fs \<noteq> []"
  shows "path_join [cpath rooted es, join_slash fs] = cpath rooted (es @ fs)"
proof -
  let ?p = "cpath rooted es @ CHR ''/'' # join_slash fs"
  have "path_join [cpath rooted es, join_slash fs] = path_clean ?p"
    using assms hd_join_plain [of fs] by (simp add: path_join_def)
  also have "\<dots> = cpath rooted (clean_elems rooted [] (split_slash ?p))"
    using assms(1) by (simp add: path_clean_parts hd_cpath)
  also have "clean_elems rooted [] (split_slash ?p) = es @ fs"
    using assms by (simp add: split_append_slash split_plain clean_split_cpath clean_elems_acc_plain)
  finally show ?thesis .
qed

text \<open>Joining three parts, the last one possibly \<open>.\<close>.\<close>

lemma path_join_cpath3:
  assumes "plain es" "plain_elem b" "plain fs"
  shows "path_join [cpath rooted es, b, cpath False fs] = cpath rooted (es @ b # fs)"
proof -
  let ?p = "cpath rooted es @ CHR ''/'' # b @ CHR ''/'' # cpath False fs"
  have "path_join [cpath rooted es, b, cpath False fs] = path_clean ?p"
    using assms by (simp add: path_join_def plain_elem_def)
  also have "\<dots> = cpath rooted (clean_elems rooted [] (split_slash ?p))"
    using assms(1) by (simp add: path_clean_parts hd_cpath)
  also have "split_slash ?p = split_slash (cpath rooted es) @ [b] @ split_slash (cpath False fs)"
    using assms(2) by (simp add: split_append_slash split_slash_append split_slash_single plain_elem_def)
  also have "clean_elems rooted [] (split_slash (cpath rooted es) @ [b] @ split_slash (cpath False fs)) =
      clean_elems rooted (b # rev es) (split_slash (cpath False fs))"
    using assms(1,2) by (simp add: clean_split_cpath plain_elem_def)
  also have "\<dots> = es @ b # fs"
    using assms(3) clean_elems_acc_plain [of fs rooted "es @ [b]"]
    by (cases "fs = []") (simp_all add: cpath_def split_plain)
  finally show ?thesis .
qed

lemma join_slash_snoc: "es \<noteq> [] \<Longrightarrow> join_slash (es @ [e]) = join_slash es @ CHR ''/'' # e"
  by (induction es rule: join_slash.induct) auto

lemma path_dir_cpath:
  assumes "plain es" "plain_elem e"
  shows "path_dir (cpath rooted (es @ [e])) = cpath rooted es"
proof -
  have no: "CHR ''/'' \<notin> set (rev e)" using assms(2) by (simp add: plain_elem_def)
  then have d: "dropWhile (\<lambda>c. c \<noteq> CHR ''/'') (rev e @ xs) = dropWhile (\<lambda>c. c \<noteq> CHR ''/'') xs" for xs
    by (intro dropWhile_append2) auto
  show ?thesis
  proof (cases "es = []")
    case True
    then show ?thesis
      using d [of "[CHR ''/'']"] d [of "[]"] no
      by (cases rooted) (simp_all add: path_dir_def cpath_def path_clean_def)
  next
    case False
    let ?q = "(if rooted then CHR ''/'' # join_slash es else join_slash es) @ ''/''"
    have "path_dir (cpath rooted (es @ [e])) = path_clean ?q"
      using False by (simp add: path_dir_def cpath_def join_slash_snoc d)
    also have "?q = cpath rooted es @ CHR ''/'' # []" using False by (simp add: cpath_def)
    also have "path_clean \<dots> = cpath rooted (clean_elems rooted [] (split_slash (cpath rooted es @ CHR ''/'' # [])))"
      using assms(1) by (simp add: path_clean_parts hd_cpath)
    also have "\<dots> = cpath rooted es"
      using assms(1) by (simp only: split_append_slash clean_split_cpath) simp
    finally show ?thesis .
  qed
qed

lemma path_base_cpath:
  assumes "plain es" "plain_elem e"
  shows "path_base (cpath rooted (es @ [e])) = e"
proof -
  define q where "q = (if es = [] then [] else if rooted then CHR ''/'' # join_slash es else join_slash es)"
  define pre where "pre = (if es = [] \<and> \<not> rooted then [] else q @ ''/'')"
  have p: "cpath rooted (es @ [e]) = pre @ e"
    by (simp add: cpath_def join_slash_snoc q_def pre_def)
  have pre: "pre = [] \<or> (\<exists>q. pre = q @ ''/'')" by (simp add: pre_def)
  have e: "e \<noteq> []" "CHR ''/'' \<notin> set e" using assms(2) by (simp_all add: plain_elem_def)
  then have "strip_slashes (pre @ e) = pre @ e"
    by (cases e rule: rev_cases) (auto simp: strip_slashes_def)
  moreover have "last (split_slash (pre @ e)) = e"
    using pre e split_slash_single [OF e(2)] by (auto simp: split_append_slash)
  ultimately show ?thesis using p e by (simp add: path_base_def)
qed

section \<open>Rel\<close>

text \<open>The elements of a cleaned path; \<open>.\<close> as a base has none.\<close>

definition rel_elems_of :: "string \<Rightarrow> string list" where
  "rel_elems_of p = filter (\<lambda>w. w \<noteq> []) (split_slash p)"

fun strip_common :: "string list \<Rightarrow> string list \<Rightarrow> string list \<times> string list" where
  "strip_common (b # bs) (t # ts) = (if b = t then strip_common bs ts else (b # bs, t # ts))"
| "strip_common bs ts = (bs, ts)"

definition path_rel :: "string \<Rightarrow> string \<Rightarrow> string res" where
  "path_rel base targ =
     (let b = path_clean base; t = path_clean targ;
          err = Inl (ErrFmt ''Rel: can't make %s relative to %s'' [FStr targ, FStr base]);
          b = (if b = dot then [] else b)
      in if path_clean base = t then Inr dot
         else if has_prefix b ''/'' \<noteq> has_prefix t ''/'' then err
         else case strip_common (rel_elems_of b) (rel_elems_of t) of
                (bs, ts) \<Rightarrow>
                  if bs \<noteq> [] \<and> hd bs = dotdot then err
                  else if bs \<noteq> [] then Inr (join_slash (replicate (length bs) dotdot @ ts))
                  else Inr (join_slash ts))"

lemma strip_common_append: "strip_common bs (bs @ ts) = ([], ts)"
  by (induction bs) (cases ts, auto)

lemma rel_elems_cpath: "plain es \<Longrightarrow> (rooted \<or> es \<noteq> []) \<Longrightarrow> rel_elems_of (cpath rooted es) = es"
proof -
  assume p: "plain es" and ne: "rooted \<or> es \<noteq> []"
  then have "filter (\<lambda>w. w \<noteq> []) es = es" by (auto simp: list_all_iff plain_elem_def filter_id_conv)
  with p ne show ?thesis
    by (cases "es = []") (auto simp: rel_elems_of_def cpath_def split_plain)
qed

lemma has_prefix_slash: "plain es \<Longrightarrow> has_prefix (cpath rooted es) ''/'' \<longleftrightarrow> rooted"
  using hd_cpath [of es rooted] cpath_nonempty [of es rooted]
  by (cases "cpath rooted es") (auto simp: has_prefix_def)

lemma cpath_inj:
  assumes "plain es" "plain fs" "cpath rooted es = cpath rooted fs"
  shows "es = fs"
proof -
  have dot_join: "join_slash gs \<noteq> dot" "join_slash gs \<noteq> []" if "plain gs" "gs \<noteq> []" for gs
  proof -
    show "join_slash gs \<noteq> []" using hd_join_plain [OF that] by simp
    show "join_slash gs \<noteq> dot"
    proof
      assume "join_slash gs = dot"
      then have "split_slash (join_slash gs) = [dot]" by simp
      with split_plain [OF that] that show False by (auto simp: plain_elem_def)
    qed
  qed
  show ?thesis
  proof (cases "es = [] \<or> fs = []")
    case True
    with assms dot_join [of es] dot_join [of fs] show ?thesis
      by (cases "es = []"; cases "fs = []"; cases rooted) (auto simp: cpath_def)
  next
    case False
    with assms have "join_slash es = join_slash fs" by (auto simp: cpath_def split: if_splits)
    with False assms(1,2) split_plain show ?thesis by metis
  qed
qed

text \<open>A path below a clean base, relative to it.\<close>

lemma path_rel_below:
  assumes "plain bs" "plain es"
  shows "path_rel (cpath rooted bs) (cpath rooted (bs @ es)) = Inr (cpath False es)"
proof -
  have p: "plain (bs @ es)" using assms by simp
  show ?thesis
  proof (cases "es = []")
    case True
    with assms show ?thesis by (simp add: path_rel_def cpath_def [of False "[]"])
  next
    case False
    have ne: "cpath rooted bs \<noteq> cpath rooted (bs @ es)"
      using cpath_inj [OF assms(1) p] False by auto
    have b: "rel_elems_of (if cpath rooted bs = dot then [] else cpath rooted bs) = bs"
    proof (cases "cpath rooted bs = dot")
      case True
      then have "cpath rooted bs = cpath rooted []" 
        using has_prefix_slash [OF assms(1), of rooted] by (cases rooted) (auto simp: cpath_def has_prefix_def)
      then have "bs = []" using cpath_inj [OF assms(1), of "[]"] by simp
      with True show ?thesis by (simp add: rel_elems_of_def)
    next
      case not_dot: False
      then have "rooted \<or> bs \<noteq> []" by (auto simp: cpath_def)
      with not_dot rel_elems_cpath [OF assms(1)] show ?thesis by simp
    qed
    have r: "has_prefix (if cpath rooted bs = dot then [] else cpath rooted bs) ''/'' \<longleftrightarrow> rooted"
      using has_prefix_slash [OF assms(1), of rooted] by (auto simp: has_prefix_def)
    have t: "rel_elems_of (cpath rooted (bs @ es)) = bs @ es"
      using rel_elems_cpath [OF p] False by simp
    have "cpath False es = join_slash es" using False by (simp add: cpath_def)
    with ne b r t show ?thesis
      using path_clean_cpath [OF assms(1), of rooted] path_clean_cpath [OF p, of rooted]
        has_prefix_slash [OF p, of rooted]
      by (simp add: path_rel_def Let_def strip_common_append)
  qed
qed

end
