(* ===== verification/Share_Progress.thy ===== *)
theory Share_Progress
  imports Go_Float Session_Steps Share_Handlers
begin

text \<open>
  Transfer progress: \<open>countingFile\<close> and \<open>rate\<close> (\<open>core/engine/fileshare/handlers.go\<close>), the reader
  and writer of the client (\<open>core/engine/fileshare/client.go\<close>), and the throttled emitter of progress
  events (\<open>core/engine/files.go\<close>). Byte counts are 64-bit in the code; the file sizes and offsets
  they come from are far below the limit, so they are integers here. Rates are floats, the seconds they come from are given.
\<close>

section \<open>Progress reports\<close>

record progress =
  pgPath :: string
  pgBytes :: int
  pgTotal :: int
  pgDirection :: string
  pgRate :: rat
  pgDone :: bool

definition DirUpload :: string where "DirUpload = ''up''"
definition DirDownload :: string where "DirDownload = ''down''"

text \<open>\<open>rate\<close>: the seconds since the start are given.\<close>

definition byte_rate :: "int \<Rightarrow> rat \<Rightarrow> rat" where
  "byte_rate bytes d = (if d \<le> 0 then 0 else round64 (round64 (of_int bytes) / d))"

section \<open>Files served by a share\<close>

text \<open>The mutable part of a \<open>countingFile\<close> is its high-water mark.\<close>

record count_file =
  cfPath :: string
  cfTotal :: int
  cfDirection :: string
  cfBytes :: int

definition advance :: "int \<Rightarrow> rat \<Rightarrow> count_file \<Rightarrow> count_file \<times> progress" where
  "advance hi d c =
     (let hi = (if 0 \<le> cfTotal c \<and> cfTotal c < hi then cfTotal c else hi);
          c = (if cfBytes c < hi then c\<lparr>cfBytes := hi\<rparr> else c);
          b = cfBytes c
      in (c, \<lparr>pgPath = cfPath c, pgBytes = b, pgTotal = cfTotal c, pgDirection = cfDirection c,
              pgRate = byte_rate b d, pgDone = False\<rparr>))"

text \<open>\<open>ReadAt\<close> and \<open>WriteAt\<close>: \<open>n\<close> bytes were transferred at offset \<open>off\<close>.\<close>

definition transfer_at :: "int \<Rightarrow> int \<Rightarrow> rat \<Rightarrow> count_file \<Rightarrow> count_file \<times> progress" where
  "transfer_at off n d c = advance (off + n) d c"

definition close_count :: "rat \<Rightarrow> count_file \<Rightarrow> progress" where
  "close_count d c =
     (let b = cfBytes c; tot = (if cfTotal c < 0 then b else cfTotal c)
      in \<lparr>pgPath = cfPath c, pgBytes = b, pgTotal = tot, pgDirection = cfDirection c,
          pgRate = byte_rate b d, pgDone = True\<rparr>)"

text \<open>The reports of a file from its opening to its closing: transfers as (offset, count, seconds).\<close>

fun transfers :: "(int \<times> int \<times> rat) list \<Rightarrow> count_file \<Rightarrow> count_file \<times> progress list" where
  "transfers [] c = (c, [])"
| "transfers ((off, n, d) # ts) c =
     (case transfer_at off n d c of
        (c, p) \<Rightarrow> (case transfers ts c of (c, ps) \<Rightarrow> (c, p # ps)))"

definition file_reports :: "(int \<times> int \<times> rat) list \<Rightarrow> rat \<Rightarrow> count_file \<Rightarrow> progress list" where
  "file_reports ts d c = (case transfers ts c of (c, ps) \<Rightarrow> ps @ [close_count d c])"

section \<open>Streams of the client\<close>

text \<open>
  \<open>progressReader\<close> and \<open>progressWriter\<close>: one call moved \<open>n\<close> bytes. They differ only in \<open>finish\<close>:
  the reader fills in an unknown total after a success. \<open>cb\<close> says whether there is a callback.
\<close>

definition stream_chunk :: "bool \<Rightarrow> int \<Rightarrow> rat \<Rightarrow> progress \<Rightarrow> progress \<times> progress list" where
  "stream_chunk cb n d p =
     (if 0 < n
      then let b = pgBytes p + n; p = p\<lparr>pgBytes := b, pgRate := byte_rate b d\<rparr>
           in (p, if cb then [p] else [])
      else (p, []))"

definition finish_read :: "bool \<Rightarrow> bool \<Rightarrow> progress \<Rightarrow> progress list" where
  "finish_read cb ok p =
     (if \<not> cb then []
      else let p = p\<lparr>pgDone := True\<rparr>
           in [if ok \<and> pgTotal p < 0 then p\<lparr>pgTotal := pgBytes p\<rparr> else p])"

definition finish_write :: "bool \<Rightarrow> bool \<Rightarrow> progress \<Rightarrow> progress list" where
  "finish_write cb ok p = (if \<not> cb then [] else [p\<lparr>pgDone := True\<rparr>])"

fun stream_chunks :: "bool \<Rightarrow> (int \<times> rat) list \<Rightarrow> progress \<Rightarrow> progress \<times> progress list" where
  "stream_chunks cb [] p = (p, [])"
| "stream_chunks cb ((n, d) # cs) p =
     (case stream_chunk cb n d p of
        (p, out) \<Rightarrow> (case stream_chunks cb cs p of (p, out') \<Rightarrow> (p, out @ out')))"

section \<open>The throttled emitter\<close>

text \<open>
  \<open>progressEmitter\<close>: the time of the last event per file. A missing entry is Go's zero time, from
  which any clock reading is further away than 100 ms. Times are in milliseconds.
\<close>

type_synonym emitter = "string \<Rightarrow> int option"

definition progress_event :: "string \<Rightarrow> progress \<Rightarrow> event" where
  "progress_event sid p =
     [''type'' \<mapsto> JStr ''progress'', ''session_id'' \<mapsto> JStr sid, ''file'' \<mapsto> JStr (pgPath p),
      ''bytes'' \<mapsto> JInt (pgBytes p), ''total'' \<mapsto> JInt (pgTotal p),
      ''direction'' \<mapsto> JStr (pgDirection p), ''done'' \<mapsto> JBool (pgDone p),
      ''rate_bps'' \<mapsto> JNum (pgRate p)]"

definition throttle :: "int \<Rightarrow> progress \<Rightarrow> emitter \<Rightarrow> bool \<times> emitter" where
  "throttle now p prev =
     (if \<not> pgDone p \<and> (case prev (pgPath p) of None \<Rightarrow> False | Some t \<Rightarrow> now - t < 100)
      then (False, prev)
      else (True, if pgDone p then prev(pgPath p := None) else prev(pgPath p \<mapsto> now)))"

text \<open>The calls that get through, each with its time.\<close>

fun emitted :: "(int \<times> progress) list \<Rightarrow> emitter \<Rightarrow> (int \<times> progress) list" where
  "emitted [] prev = []"
| "emitted ((now, p) # ps) prev =
     (case throttle now p prev of
        (go, prev) \<Rightarrow> (if go then [(now, p)] else []) @ emitted ps prev)"

section \<open>Lemmas\<close>

definition clip :: "int \<Rightarrow> int \<Rightarrow> int" where
  "clip tot hi = (if 0 \<le> tot then min hi tot else hi)"

lemma advance_bytes:
  "advance hi d c = (c', p) \<Longrightarrow>
     cfBytes c' = max (cfBytes c) (clip (cfTotal c) hi) \<and> cfTotal c' = cfTotal c \<and>
     pgBytes p = cfBytes c' \<and> pgTotal p = cfTotal c \<and> \<not> pgDone p"
  by (auto simp: advance_def clip_def Let_def split: if_splits)

text \<open>The high-water mark after some transfers is the largest end seen, cut off at the total.\<close>

lemma transfers_reports:
  "transfers ts c = (c', ps) \<Longrightarrow>
     cfTotal c' = cfTotal c \<and>
     cfBytes c' = fold max (map (\<lambda>(off, n, d). clip (cfTotal c) (off + n)) ts) (cfBytes c) \<and>
     sorted (cfBytes c # map pgBytes ps @ [cfBytes c']) \<and>
     list_all (\<lambda>p. pgTotal p = cfTotal c \<and> \<not> pgDone p) ps"
proof (induction ts arbitrary: c ps)
  case Nil
  then show ?case by simp
next
  case (Cons t ts)
  obtain off n d where t: "t = (off, n, d)" by (cases t)
  obtain c1 p where a: "advance (off + n) d c = (c1, p)" by (cases "advance (off + n) d c")
  obtain ps1 where r: "transfers ts c1 = (c', ps1)" "ps = p # ps1"
    using Cons.prems by (auto simp: t transfer_at_def a split: prod.splits)
  show ?case
    using Cons.IH [OF r(1)] advance_bytes [OF a] r(2) by (auto simp: t max.commute)
qed

lemma fold_max_le: "fold max xs (a :: int) \<le> b \<longleftrightarrow> a \<le> b \<and> list_all (\<lambda>x. x \<le> b) xs"
  by (induction xs arbitrary: a) auto

lemma clip_le: "0 \<le> tot \<Longrightarrow> clip tot hi \<le> tot"
  by (simp add: clip_def)

text \<open>Events of one file are 100 ms apart; \<open>t\<close> is the time of the previous one.\<close>

fun spaced :: "int option \<Rightarrow> (int \<times> progress) list \<Rightarrow> bool" where
  "spaced t [] = True"
| "spaced t ((now, p) # es) =
     (if pgDone p then spaced None es
      else (case t of None \<Rightarrow> True | Some u \<Rightarrow> 100 \<le> now - u) \<and> spaced (Some now) es)"

definition of_file :: "string \<Rightarrow> int \<times> progress \<Rightarrow> bool" where
  "of_file f e \<longleftrightarrow> pgPath (snd e) = f"

lemma emitted_spaced: "spaced (prev f) (filter (of_file f) (emitted calls prev))"
proof (induction calls arbitrary: prev)
  case (Cons c calls)
  obtain now p where c: "c = (now, p)" by (cases c)
  obtain go prev' where t: "throttle now p prev = (go, prev')" by (cases "throttle now p prev")
  have e: "emitted (c # calls) prev = (if go then [(now, p)] else []) @ emitted calls prev'"
    by (simp add: c t)
  note IH = Cons.IH [of prev']
  show ?case
  proof (cases "pgPath p = f")
    case True
    then consider "pgDone p" "go" "prev' f = None"
      | "\<not> pgDone p" "go" "prev' f = Some now" "case prev f of None \<Rightarrow> True | Some u \<Rightarrow> 100 \<le> now - u"
      | "\<not> go" "prev' = prev"
      using t by (auto simp: throttle_def split: if_splits option.splits)
    then show ?thesis
      by cases (use IH True in \<open>simp_all add: e of_file_def [abs_def]\<close>)
  next
    case False
    then have "prev' f = prev f" using t by (auto simp: throttle_def split: if_splits)
    with False IH show ?thesis by (simp add: e of_file_def [abs_def])
  qed
qed simp

lemma emitted_done: "filter (pgDone \<circ> snd) (emitted calls prev) = filter (pgDone \<circ> snd) calls"
proof (induction calls arbitrary: prev)
  case (Cons c calls)
  obtain now p where c: "c = (now, p)" by (cases c)
  obtain go prev' where t: "throttle now p prev = (go, prev')" by (cases "throttle now p prev")
  have "pgDone p \<Longrightarrow> go" using t by (auto simp: throttle_def split: if_splits)
  with Cons.IH [of prev'] c t show ?case by auto
qed simp

lemma emitted_subseq: "subseq (emitted calls prev) calls"
proof (induction calls arbitrary: prev)
  case (Cons c calls)
  obtain now p where c: "c = (now, p)" by (cases c)
  obtain go prev' where t: "throttle now p prev = (go, prev')" by (cases "throttle now p prev")
  with Cons.IH [of prev'] c show ?case by auto
qed simp

section \<open>Properties\<close>



text \<open>
  C40. The emitter thins out progress events and loses nothing that matters: what it emits is a
  subsequence of the calls, all final reports are among it, and two reports of the same file
  with no final one between them are at least 100 ms apart.
\<close>

theorem progress_throttled:
  "subseq (emitted calls (\<lambda>_. None)) calls \<and>
   filter (pgDone \<circ> snd) (emitted calls (\<lambda>_. None)) = filter (pgDone \<circ> snd) calls \<and>
   spaced None (filter (of_file f) (emitted calls (\<lambda>_. None)))"
  using emitted_subseq emitted_done emitted_spaced [of "\<lambda>_. None" f calls] by simp

lemma stream_accounts:
  "stream_chunks cb cs p = (p', out) \<Longrightarrow>
     pgBytes p' = pgBytes p + sum_list (filter (\<lambda>n. 0 < n) (map fst cs)) \<and>
     length out = (if cb then length (filter (\<lambda>n. 0 < n) (map fst cs)) else 0)"
proof (induction cs arbitrary: p out)
  case (Cons c cs)
  obtain n d where c: "c = (n, d)" by (cases c)
  obtain p1 o1 where s: "stream_chunk cb n d p = (p1, o1)" by (cases "stream_chunk cb n d p")
  obtain o2 where r: "stream_chunks cb cs p1 = (p', o2)" "out = o1 @ o2"
    using Cons.prems by (auto simp: c s split: prod.splits)
  show ?case
    using Cons.IH [OF r(1)] s r(2) by (auto simp: c stream_chunk_def Let_def split: if_splits)
qed simp

end
