(* ===== verification/Share_Client.thy ===== *)
theory Share_Client
  imports Go_Filepath Share_Progress
begin

text \<open>
  The SFTP client (\<open>core/engine/fileshare/client.go\<close>): listing, uploading and downloading files and
  trees. The SFTP connection and the local file system are arguments: what each call answers,
  and for the walks the sequence of entries they deliver. The results are the error, if any, and
  the calls that create something, in order.
\<close>

section \<open>Opening and closing\<close>

text \<open>The connections that a client consists of.\<close>

datatype client_part = SftpPart | SSHPart | ConnPart

text \<open>
  \<open>NewClient\<close>, given the errors of the SSH handshake and of opening the SFTP subsystem: its error and
  what it closes itself. The connection it was given stays with the caller.
\<close>

definition new_client :: "gerror option \<Rightarrow> gerror option \<Rightarrow> gerror option \<times> client_part list" where
  "new_client handshake sftp =
     (case handshake of
        Some err \<Rightarrow> (Some (ErrWrap ''ssh handshake: %w'' [] err), [])
      | None \<Rightarrow> (case sftp of
          Some err \<Rightarrow> (Some (ErrWrap ''open sftp: %w'' [] err), [SSHPart])
        | None \<Rightarrow> (None, [])))"

text \<open>\<open>Close\<close>: the error is the one of the SSH connection.\<close>

definition close_client :: "(client_part \<Rightarrow> gerror option) \<Rightarrow> gerror option \<times> client_part list" where
  "close_client cls = (cls SSHPart, [SftpPart, SSHPart, ConnPart])"

section \<open>Listing\<close>

text \<open>\<open>os.FileMode.String\<close>: one letter per set type bit, then the nine permission bits.\<close>

unbundle bit_operations_syntax

definition flag_chars :: "nat \<Rightarrow> string \<Rightarrow> 32 word \<Rightarrow> string" where
  "flag_chars hi cs m =
     concat (map (\<lambda>(i, c). if bit m (hi - i) then [c] else []) (enumerate 0 cs))"

definition perm_chars :: "32 word \<Rightarrow> string" where
  "perm_chars m = map (\<lambda>(i, c). if bit m (8 - i) then c else CHR ''-'') (enumerate 0 ''rwxrwxrwx'')"

definition mode_text :: "32 word \<Rightarrow> string" where
  "mode_text m =
     (let t = flag_chars 31 ''dalTLDpSugct?'' m in (if t = [] then ''-'' else t) @ perm_chars m)"

record entry =
  enName :: string
  enSize :: int
  enIsDir :: bool
  enModMS :: int
  enMode :: string
  enIsLink :: bool
  enDirpath :: string

definition entry_of :: "string \<Rightarrow> finfo \<Rightarrow> entry" where
  "entry_of dir fi =
     \<lparr>enName = fiName fi, enSize = fiSize fi, enIsDir = fiIsDir fi, enModMS = fiModMS fi,
      enMode = mode_text (fiMode fi), enIsLink = (fiMode fi AND ModeSymlink \<noteq> 0), enDirpath = dir\<rparr>"

definition client_list :: "(string \<Rightarrow> finfo list res) \<Rightarrow> string \<Rightarrow> entry list res" where
  "client_list readDir dir =
     (let dir = (if dir = [] then dot else dir)
      in case readDir dir of Inl err \<Rightarrow> Inl err | Inr infos \<Rightarrow> Inr (map (entry_of dir) infos))"

section \<open>What happened\<close>

text \<open>A directory was made, a file was created or truncated, a progress report was given.\<close>

datatype act = MakeDir string | MakeFile string | Report progress

fun made_file :: "act \<Rightarrow> string option" where
  "made_file (MakeFile p) = Some p"
| "made_file _ = None"

definition files_made :: "act list \<Rightarrow> string list" where
  "files_made acts = List.map_filter made_file acts"

text \<open>The end of a copy: the first error among the copy, closing the target and the context.\<close>

definition copy_error :: "gerror option \<Rightarrow> gerror option \<Rightarrow> gerror option \<Rightarrow> gerror option" where
  "copy_error copy cls ctx =
     (let err = copy; err = (if err = None then cls else err)
      in if err = None then ctx else err)"

datatype entry_kind = EDir | ERegular int | EOther

text \<open>
  One step of a walk: \<open>ctx.Err()\<close> before it, the error delivered, the path, and what is there; a
  regular file has its size (or, for uploads, the error of \<open>Info\<close>).
\<close>

record walk_step =
  wsCtx :: "gerror option"
  wsErr :: "gerror option"
  wsPath :: string
  wsKind :: entry_kind
  wsInfoErr :: "gerror option"

section \<open>Uploading\<close>

text \<open>
  The answers of \<open>os.Stat\<close> (directory and size), \<open>filepath.WalkDir\<close>, \<open>os.Open\<close>, the remote
  \<open>MkdirAll\<close> and \<open>OpenFile\<close>, the copy (chunks with seconds, error), closing the remote file, and
  \<open>ctx.Err()\<close> after the copy.
\<close>

record upload_env =
  ueStat :: "string \<Rightarrow> (bool \<times> int) res"
  ueWalk :: "string \<Rightarrow> walk_step list"
  ueOpen :: "string \<Rightarrow> gerror option"
  ueMkdirAll :: "string \<Rightarrow> gerror option"
  ueOpenFile :: "string \<Rightarrow> gerror option"
  ueCopy :: "string \<Rightarrow> (int \<times> rat) list \<times> gerror option"
  ueClose :: "string \<Rightarrow> gerror option"
  ueCtx :: "string \<Rightarrow> gerror option"

definition upload_file ::
    "upload_env \<Rightarrow> bool \<Rightarrow> string \<Rightarrow> string \<Rightarrow> int \<Rightarrow> gerror option \<times> act list" where
  "upload_file env cb local remote sz =
     (case ueOpen env local of
        Some err \<Rightarrow> (Some err, [])
      | None \<Rightarrow>
          let dir = path_dir remote;
              mk = (if dir \<noteq> dot \<and> dir \<noteq> ''/'' then [MakeDir dir] else [])
          in case ueOpenFile env remote of
               Some err \<Rightarrow> (Some err, mk)
             | None \<Rightarrow>
                 let (chunks, cerr) = ueCopy env local;
                     (p, reports) = stream_chunks cb chunks
                       \<lparr>pgPath = remote, pgBytes = 0, pgTotal = sz, pgDirection = DirUpload,
                        pgRate = 0, pgDone = False\<rparr>;
                     err = copy_error cerr (ueClose env remote) (ueCtx env local)
                 in (err, mk @ MakeFile remote # map Report (reports @ finish_read cb (err = None) p)))"

text \<open>The callback of \<open>WalkDir\<close>, applied to the entries until it returns an error.\<close>

fun upload_walk ::
    "upload_env \<Rightarrow> bool \<Rightarrow> string \<Rightarrow> string \<Rightarrow> walk_step list \<Rightarrow> gerror option \<times> act list" where
  "upload_walk env cb local remoteDir [] = (None, [])"
| "upload_walk env cb local remoteDir (it # its) =
     (let continue_with = (\<lambda>(err, acts). case err of
            Some e \<Rightarrow> (Some e, acts)
          | None \<Rightarrow> (case upload_walk env cb local remoteDir its of (e, acts') \<Rightarrow> (e, acts @ acts')))
      in case wsErr it of
           Some err \<Rightarrow> (Some err, [])
         | None \<Rightarrow> (case wsCtx it of
             Some err \<Rightarrow> (Some err, [])
           | None \<Rightarrow> (case path_rel local (wsPath it) of
               Inl err \<Rightarrow> (Some err, [])
             | Inr relp \<Rightarrow>
                 let remote = path_join [remoteDir, path_base local, relp]
                 in case wsKind it of
                      EDir \<Rightarrow> continue_with (ueMkdirAll env remote, [MakeDir remote])
                    | EOther \<Rightarrow> continue_with (None, [])
                    | ERegular sz \<Rightarrow>
                        (case wsInfoErr it of
                           Some err \<Rightarrow> (Some err, [])
                         | None \<Rightarrow> continue_with (upload_file env cb (wsPath it) remote sz)))))"

definition upload :: "upload_env \<Rightarrow> bool \<Rightarrow> string \<Rightarrow> string \<Rightarrow> gerror option \<times> act list" where
  "upload env cb local remoteDir =
     (let remoteDir = (if remoteDir = [] then dot else remoteDir)
      in case ueStat env local of
           Inl err \<Rightarrow> (Some err, [])
         | Inr (isDir, sz) \<Rightarrow>
             if \<not> isDir then upload_file env cb local (path_join [remoteDir, path_base local]) sz
             else upload_walk env cb local remoteDir (ueWalk env local))"

section \<open>Downloading\<close>

record download_env =
  deList :: "string \<Rightarrow> finfo list res"
  deStat :: "string \<Rightarrow> (bool \<times> int) res"
  deWalk :: "string \<Rightarrow> walk_step list"
  deOpen :: "string \<Rightarrow> gerror option"
  deMkdirAll :: "string \<Rightarrow> gerror option"
  deCreate :: "string \<Rightarrow> gerror option"
  deCopy :: "string \<Rightarrow> (int \<times> rat) list \<times> gerror option"
  deClose :: "string \<Rightarrow> gerror option"
  deCtx :: "string \<Rightarrow> gerror option"

definition download_file ::
    "download_env \<Rightarrow> bool \<Rightarrow> string \<Rightarrow> string \<Rightarrow> int \<Rightarrow> gerror option \<times> act list" where
  "download_file env cb remote local sz =
     (case deOpen env remote of
        Some err \<Rightarrow> (Some err, [])
      | None \<Rightarrow> (case deMkdirAll env (path_dir local) of
          Some err \<Rightarrow> (Some err, [MakeDir (path_dir local)])
        | None \<Rightarrow> (case deCreate env local of
            Some err \<Rightarrow> (Some err, [MakeDir (path_dir local)])
          | None \<Rightarrow>
              let (chunks, cerr) = deCopy env remote;
                  (p, reports) = stream_chunks cb chunks
                    \<lparr>pgPath = remote, pgBytes = 0, pgTotal = sz, pgDirection = DirDownload,
                     pgRate = 0, pgDone = False\<rparr>;
                  err = copy_error cerr (deClose env local) (deCtx env remote)
              in (err, [MakeDir (path_dir local), MakeFile local] @
                    map Report (reports @ finish_write cb (err = None) p)))))"

fun download_walk ::
    "download_env \<Rightarrow> bool \<Rightarrow> string \<Rightarrow> string \<Rightarrow> walk_step list \<Rightarrow> gerror option \<times> act list" where
  "download_walk env cb localDir remote [] = (None, [])"
| "download_walk env cb localDir remote (it # its) =
     (let continue_with = (\<lambda>(err, acts). case err of
            Some e \<Rightarrow> (Some e, acts)
          | None \<Rightarrow> (case download_walk env cb localDir remote its of (e, acts') \<Rightarrow> (e, acts @ acts')))
      in case wsCtx it of
           Some err \<Rightarrow> (Some err, [])
         | None \<Rightarrow> (case wsErr it of
             Some err \<Rightarrow> (Some err, [])
           | None \<Rightarrow> (case path_rel (path_dir remote) (wsPath it) of
               Inl err \<Rightarrow> (Some err, [])
             | Inr relp \<Rightarrow>
                 let lp = path_join [localDir, relp]
                 in case wsKind it of
                      EDir \<Rightarrow> continue_with (deMkdirAll env lp, [MakeDir lp])
                    | EOther \<Rightarrow> continue_with (None, [])
                    | ERegular sz \<Rightarrow> continue_with (download_file env cb (wsPath it) lp sz))))"

text \<open>One download after the other until one fails or does not return (\<open>None\<close>).\<close>

fun run_each ::
    "('a \<Rightarrow> (gerror option \<times> act list) option) \<Rightarrow> 'a list \<Rightarrow> (gerror option \<times> act list) option" where
  "run_each f [] = Some (None, [])"
| "run_each f (x # xs) =
     (case f x of
        None \<Rightarrow> None
      | Some (Some err, acts) \<Rightarrow> Some (Some err, acts)
      | Some (None, acts) \<Rightarrow> map_option (\<lambda>(e, acts'). (e, acts @ acts')) (run_each f xs))"

text \<open>
  \<open>Download\<close> calls itself for the entries of the root; the first argument bounds the depth of these
  calls, and \<open>None\<close> means that it was not enough.
\<close>

fun download ::
    "nat \<Rightarrow> download_env \<Rightarrow> bool \<Rightarrow> string \<Rightarrow> string \<Rightarrow> (gerror option \<times> act list) option" where
  "download 0 env cb localDir remote = None"
| "download (Suc n) env cb localDir remote =
     (let remote = path_clean remote
      in if remote = dot \<or> remote = ''/'' \<or> remote = []
         then case client_list (deList env) dot of
                Inl err \<Rightarrow> Some (Some err, [])
              | Inr entries \<Rightarrow> run_each (\<lambda>name. download n env cb localDir name) (map enName entries)
         else case deStat env remote of
                Inl err \<Rightarrow> Some (Some err, [])
              | Inr (isDir, sz) \<Rightarrow>
                  if \<not> isDir
                  then Some (download_file env cb remote (path_join [localDir, path_base remote]) sz)
                  else Some (download_walk env cb localDir remote (deWalk env remote)))"


section \<open>Where files end up\<close>

fun confined :: "bool \<Rightarrow> string list \<Rightarrow> act \<Rightarrow> bool" where
  "confined r ls (MakeDir p) = (\<exists>fs. plain fs \<and> p = cpath r (ls @ fs))"
| "confined r ls (MakeFile p) = (\<exists>fs. plain fs \<and> fs \<noteq> [] \<and> p = cpath r (ls @ fs))"
| "confined r ls (Report _) = True"

lemma files_made_simps [simp]:
  "files_made [] = []" "files_made (MakeFile p # acts) = p # files_made acts"
  "files_made (MakeDir p # acts) = files_made acts" "files_made (Report g # acts) = files_made acts"
  "files_made (acts @ acts') = files_made acts @ files_made acts'"
  "files_made (map Report gs) = []"
  by (simp_all add: files_made_def List.map_filter_def comp_def)

lemma confined_reports [simp]: "list_all (confined r ls) (map Report gs)"
  by (simp add: list_all_iff)

text \<open>A transfer that failed, or that made exactly the files \<open>ps\<close>; all of it confined.\<close>

definition transfer_ok :: "bool \<Rightarrow> string list \<Rightarrow> string list \<Rightarrow> gerror option \<times> act list \<Rightarrow> bool" where
  "transfer_ok r ls ps res \<longleftrightarrow>
     list_all (confined r ls) (snd res) \<and> (fst res = None \<longrightarrow> files_made (snd res) = ps)"

lemma transfer_ok_fail [simp]: "transfer_ok r ls ps (Some e, [])"
  by (simp add: transfer_ok_def)

lemma transfer_ok_append:
  "transfer_ok r ls ps (e1, a1) \<Longrightarrow> transfer_ok r ls qs (e2, a2) \<Longrightarrow>
     transfer_ok r ls (ps @ qs) (case e1 of Some e \<Rightarrow> (Some e, a1) | None \<Rightarrow> (e2, a1 @ a2))"
  by (cases e1) (simp_all add: transfer_ok_def)

lemma confined_dir: "plain fs \<Longrightarrow> confined r ls (MakeDir (cpath r (ls @ fs)))"
  by auto

lemma confined_file: "plain fs \<Longrightarrow> fs \<noteq> [] \<Longrightarrow> confined r ls (MakeFile (cpath r (ls @ fs)))"
  by auto

lemma download_file_ok:
  assumes "plain ls" "plain fs" "fs \<noteq> []"
  shows "transfer_ok r ls [cpath r (ls @ fs)] (download_file env cb remote (cpath r (ls @ fs)) sz)"
proof -
  obtain gs g where fs: "fs = gs @ [g]" using assms(3) by (cases fs rule: rev_cases) auto
  have d: "path_dir (cpath r (ls @ fs)) = cpath r (ls @ gs)"
    using path_dir_cpath [of "ls @ gs" g r] assms(1,2) fs by simp
  have c: "confined r ls (MakeDir (cpath r (ls @ gs)))" "confined r ls (MakeFile (cpath r (ls @ fs)))"
    using assms(2,3) fs confined_dir [of gs] confined_file [of fs] by simp_all
  show ?thesis
    using c by (simp add: download_file_def d Let_def transfer_ok_def del: confined.simps
        split: option.split prod.split)
qed

text \<open>
  A walk over the tree at \<open>bs @ [b]\<close>: each step with the elements of its path below that point.
\<close>

definition tree_walk :: "bool \<Rightarrow> string list \<Rightarrow> (string list \<times> walk_step) list \<Rightarrow> bool" where
  "tree_walk q es steps \<longleftrightarrow>
     list_all (\<lambda>(fs, it). plain fs \<and> wsPath it = cpath q (es @ fs)) steps"

definition regular :: "(string list \<times> walk_step) list \<Rightarrow> string list list" where
  "regular steps = map fst (filter (\<lambda>(fs, it). case wsKind it of ERegular sz \<Rightarrow> True | _ \<Rightarrow> False) steps)"

lemma tree_walk_simps [simp]:
  "tree_walk q es []"
  "tree_walk q es ((fs, it) # steps) \<longleftrightarrow> plain fs \<and> wsPath it = cpath q (es @ fs) \<and> tree_walk q es steps"
  by (simp_all add: tree_walk_def)

lemma regular_simps [simp]:
  "regular [] = []"
  "regular ((fs, it) # steps) =
     (case wsKind it of ERegular sz \<Rightarrow> [fs] | _ \<Rightarrow> []) @ regular steps"
  by (simp_all add: regular_def split: entry_kind.split)

lemma download_target:
  assumes "plain ls" "plain bs" "plain_elem b" "plain fs"
  shows "path_rel (path_dir (cpath q (bs @ [b]))) (cpath q ((bs @ [b]) @ fs)) = Inr (join_slash (b # fs))"
    "path_join [cpath r ls, join_slash (b # fs)] = cpath r (ls @ b # fs)"
  using path_rel_below [of bs "b # fs" q] path_dir_cpath [of bs b q] path_join_cpath [of ls "b # fs" r] assms
  by (simp_all add: cpath_def [of False])

lemma download_walk_ok:
  assumes "plain ls" "plain bs" "plain_elem b"
  shows "tree_walk q (bs @ [b]) steps \<Longrightarrow>
    transfer_ok r ls (map (\<lambda>fs. cpath r (ls @ b # fs)) (regular steps))
      (download_walk env cb (cpath r ls) (cpath q (bs @ [b])) (map snd steps))"
proof (induction steps)
  case Nil
  then show ?case by (simp add: transfer_ok_def)
next
  case (Cons st steps)
  obtain fs it where st: "st = (fs, it)" by (cases st)
  have fs: "plain fs" "wsPath it = cpath q ((bs @ [b]) @ fs)" "tree_walk q (bs @ [b]) steps"
    using Cons.prems(1) by (simp_all add: st)
  obtain e2 a2 where rest:
    "download_walk env cb (cpath r ls) (cpath q (bs @ [b])) (map snd steps) = (e2, a2)"
    by (cases "download_walk env cb (cpath r ls) (cpath q (bs @ [b])) (map snd steps)")
  have IH: "transfer_ok r ls (map (\<lambda>fs. cpath r (ls @ b # fs)) (regular steps)) (e2, a2)"
    using Cons.IH [OF fs(3)] by (simp add: rest)
  note t = download_target(1) [OF assms fs(1), where q = q] download_target(2) [OF assms fs(1), where r = r]
  let ?lp = "cpath r (ls @ b # fs)"
  obtain e1 a1 where now: "(case wsKind it of EDir \<Rightarrow> (deMkdirAll env ?lp, [MakeDir ?lp])
      | EOther \<Rightarrow> (None, []) | ERegular sz \<Rightarrow> download_file env cb (wsPath it) ?lp sz) = (e1, a1)"
    by (metis surj_pair)
  have ok1: "transfer_ok r ls (case wsKind it of ERegular sz \<Rightarrow> [?lp] | _ \<Rightarrow> []) (e1, a1)"
  proof (cases "wsKind it")
    case (ERegular sz)
    with now download_file_ok [OF assms(1), of "b # fs" r env cb "wsPath it" sz] assms(3) fs(1)
    show ?thesis by simp
  qed (use now confined_dir [of "b # fs" r ls] assms(3) fs(1) in
      \<open>auto simp: transfer_ok_def simp del: confined.simps\<close>)
  have step: "download_walk env cb (cpath r ls) (cpath q (bs @ [b])) (map snd (st # steps)) =
      (case wsCtx it of Some e \<Rightarrow> (Some e, []) | None \<Rightarrow> (case wsErr it of Some e \<Rightarrow> (Some e, [])
       | None \<Rightarrow> (case e1 of Some e \<Rightarrow> (Some e, a1) | None \<Rightarrow> (e2, a1 @ a2))))"
    using t now by (auto simp: st fs(2) rest Let_def split: option.split entry_kind.splits)
  have "map (\<lambda>fs. cpath r (ls @ b # fs)) (regular (st # steps)) =
      (case wsKind it of ERegular sz \<Rightarrow> [?lp] | _ \<Rightarrow> []) @ map (\<lambda>fs. cpath r (ls @ b # fs)) (regular steps)"
    by (simp add: st split: entry_kind.split)
  with transfer_ok_append [OF ok1 IH] show ?case
    unfolding step by (simp split: option.split)
qed


lemma upload_file_ok:
  assumes "plain ds" "plain fs" "fs \<noteq> []"
  shows "transfer_ok r ds [cpath r (ds @ fs)] (upload_file env cb local (cpath r (ds @ fs)) sz)"
proof -
  obtain gs g where fs: "fs = gs @ [g]" using assms(3) by (cases fs rule: rev_cases) auto
  have d: "path_dir (cpath r (ds @ fs)) = cpath r (ds @ gs)"
    using path_dir_cpath [of "ds @ gs" g r] assms(1,2) fs by simp
  have c: "confined r ds (MakeDir (cpath r (ds @ gs)))" "confined r ds (MakeFile (cpath r (ds @ fs)))"
    using assms(2,3) fs confined_dir [of gs] confined_file [of fs] by simp_all
  show ?thesis
    using c by (simp add: upload_file_def d Let_def transfer_ok_def del: confined.simps
        split: option.split prod.split)
qed

lemma upload_walk_ok:
  assumes "plain ds" "plain bs" "plain_elem b"
  shows "tree_walk q (bs @ [b]) steps \<Longrightarrow>
    transfer_ok r ds (map (\<lambda>fs. cpath r (ds @ b # fs)) (regular steps))
      (upload_walk env cb (cpath q (bs @ [b])) (cpath r ds) (map snd steps))"
proof (induction steps)
  case Nil
  then show ?case by (simp add: transfer_ok_def)
next
  case (Cons st steps)
  obtain fs it where st: "st = (fs, it)" by (cases st)
  have fs: "plain fs" "wsPath it = cpath q ((bs @ [b]) @ fs)" "tree_walk q (bs @ [b]) steps"
    using Cons.prems(1) by (simp_all add: st)
  obtain e2 a2 where rest:
    "upload_walk env cb (cpath q (bs @ [b])) (cpath r ds) (map snd steps) = (e2, a2)"
    by (cases "upload_walk env cb (cpath q (bs @ [b])) (cpath r ds) (map snd steps)")
  have IH: "transfer_ok r ds (map (\<lambda>fs. cpath r (ds @ b # fs)) (regular steps)) (e2, a2)"
    using Cons.IH [OF fs(3)] by (simp add: rest)
  have t: "path_rel (cpath q (bs @ [b])) (cpath q ((bs @ [b]) @ fs)) = Inr (cpath False fs)"
    "path_base (cpath q (bs @ [b])) = b"
    "path_join [cpath r ds, b, cpath False fs] = cpath r (ds @ b # fs)"
    using path_rel_below [of "bs @ [b]" fs q] path_base_cpath [OF assms(2,3)]
      path_join_cpath3 [OF assms(1,3) fs(1)] assms fs(1) by simp_all
  let ?rp = "cpath r (ds @ b # fs)"
  obtain e1 a1 where now: "(case wsKind it of EDir \<Rightarrow> (ueMkdirAll env ?rp, [MakeDir ?rp])
      | EOther \<Rightarrow> (None, [])
      | ERegular sz \<Rightarrow> (case wsInfoErr it of Some e \<Rightarrow> (Some e, [])
          | None \<Rightarrow> upload_file env cb (wsPath it) ?rp sz)) = (e1, a1)"
    by (metis surj_pair)
  have ok1: "transfer_ok r ds (case wsKind it of ERegular sz \<Rightarrow> [?rp] | _ \<Rightarrow> []) (e1, a1)"
  proof (cases "wsKind it")
    case (ERegular sz)
    with now upload_file_ok [OF assms(1), of "b # fs" r env cb "wsPath it" sz] assms(3) fs(1)
    show ?thesis by (cases "wsInfoErr it") (simp_all, metis transfer_ok_fail)
  qed (use now confined_dir [of "b # fs" r ds] assms(3) fs(1) in
      \<open>auto simp: transfer_ok_def simp del: confined.simps\<close>)
  have step: "upload_walk env cb (cpath q (bs @ [b])) (cpath r ds) (map snd (st # steps)) =
      (case wsErr it of Some e \<Rightarrow> (Some e, []) | None \<Rightarrow> (case wsCtx it of Some e \<Rightarrow> (Some e, [])
       | None \<Rightarrow> (case e1 of Some e \<Rightarrow> (Some e, a1) | None \<Rightarrow> (e2, a1 @ a2))))"
    using t now by (auto simp: st fs(2) rest Let_def split: option.split entry_kind.splits option.splits)
  have "map (\<lambda>fs. cpath r (ds @ b # fs)) (regular (st # steps)) =
      (case wsKind it of ERegular sz \<Rightarrow> [?rp] | _ \<Rightarrow> []) @ map (\<lambda>fs. cpath r (ds @ b # fs)) (regular steps)"
    by (simp add: st split: entry_kind.split)
  with transfer_ok_append [OF ok1 IH] show ?case
    unfolding step by (simp split: option.split)
qed

lemma cpath_root: "plain rs \<Longrightarrow>
  (cpath q rs = dot \<or> cpath q rs = ''/'' \<or> cpath q rs = []) \<longleftrightarrow> rs = []"
proof
  assume "plain rs" "cpath q rs = dot \<or> cpath q rs = ''/'' \<or> cpath q rs = []"
  then have "cpath q rs = cpath q []"
    using has_prefix_slash [of rs q] hd_join_plain [of rs] by (cases q) (auto simp: cpath_def has_prefix_def split: if_splits)
  with \<open>plain rs\<close> show "rs = []" using cpath_inj [of rs "[]" q] by simp
qed (simp add: cpath_def)

text \<open>
  What the SFTP library promises of a server's answers: names in a listing are single path
  elements (it takes the base name and drops \<open>.\<close> and \<open>..\<close>), and a walk stays below its start.
\<close>

definition tame_server :: "download_env \<Rightarrow> bool" where
  "tame_server env \<longleftrightarrow>
     (\<forall>infos. deList env dot = Inr infos \<longrightarrow> plain (map fiName infos)) \<and>
     (\<forall>q rs. plain rs \<longrightarrow> rs \<noteq> [] \<longrightarrow> (\<exists>steps. deWalk env (cpath q rs) = map snd steps \<and> tree_walk q rs steps))"

lemma download_below_root:
  assumes "tame_server env" "plain ls" "path_clean remote = cpath q rs" "plain rs" "rs \<noteq> []"
  shows "\<exists>res. download (Suc n) env cb (cpath r ls) remote = Some res \<and>
    list_all (confined r ls) (snd res)"
proof -
  obtain bs b where rs: "rs = bs @ [b]" using assms(5) by (cases rs rule: rev_cases) auto
  have p: "plain bs" "plain_elem b" using assms(4) rs by simp_all
  obtain steps where steps: "deWalk env (cpath q rs) = map snd steps" "tree_walk q rs steps"
    using assms(1,4,5) unfolding tame_server_def by blast
  have base: "path_join [cpath r ls, path_base (cpath q rs)] = cpath r (ls @ [b])"
    using path_base_cpath [OF p] path_join_cpath [OF assms(2), of "[b]" r] p rs by simp
  have f: "list_all (confined r ls) (snd (download_file env cb x (cpath r (ls @ [b])) sz))" for x sz
    using download_file_ok [OF assms(2), of "[b]" r env cb x sz] p by (simp add: transfer_ok_def)
  have w: "list_all (confined r ls) (snd (download_walk env cb (cpath r ls) (cpath q rs) (deWalk env (cpath q rs))))"
    using download_walk_ok [OF assms(2) p] steps rs by (simp add: transfer_ok_def)
  show ?thesis
    using cpath_root [OF assms(4), of q] assms(5) f w
    by (auto simp: assms(3) base Let_def simp del: split_paired_Ex split: sum.split)
qed

lemma run_each_confined:
  assumes "\<And>x. x \<in> set xs \<Longrightarrow> \<exists>res. f x = Some res \<and> list_all P (snd res)"
  shows "\<exists>res. run_each f xs = Some res \<and> list_all P (snd res)"
  using assms
proof (induction xs)
  case (Cons x xs)
  obtain e a where x: "f x = Some (e, a)" "list_all P a" using Cons.prems by fastforce
  obtain e' a' where "run_each f xs = Some (e', a')" "list_all P a'" using Cons by fastforce
  with x show ?case by (cases e) auto
qed simp

lemma path_clean_name: "plain_elem w \<Longrightarrow> path_clean w = cpath False [w]"
  using path_clean_cpath [of "[w]" False] by (simp add: cpath_def)


text \<open>
  A server that lists an entry whose name cleans to the root makes \<open>Download\<close> of the root call
  itself for ever: no depth of calls is enough. Only the name filter of the SFTP library stands
  in the way.
\<close>

lemma download_root_diverges:
  assumes "path_clean remote = dot \<or> path_clean remote = ''/''"
    and "deList env dot = Inr (fi # infos)"
    and "path_clean (fiName fi) = dot \<or> path_clean (fiName fi) = ''/''"
  shows "download n env cb localDir remote = None"
  using assms(1)
proof (induction n arbitrary: remote)
  case (Suc n)
  have "download n env cb localDir (fiName fi) = None" using Suc.IH assms(3) by blast
  with Suc.prems assms(2) show ?case
    by (auto simp: client_list_def entry_of_def Let_def)
qed simp

section \<open>Properties\<close>


text \<open>
  C27. Trees keep their shape. Uploading the local tree \<open>b\<close> puts each of its regular files at the same
  relative path below \<open>b\<close> in the remote directory, in the order of the walk, and makes nothing
  else; downloading a remote tree does the same below the local directory. So what was uploaded and
  is listed again by the server comes back with the same relative paths.
\<close>

theorem trees_keep_their_shape:
  assumes "plain bs" "plain_elem b" "plain ds" "plain ls" "tree_walk q (bs @ [b]) us"
    and "ueStat uenv (cpath q (bs @ [b])) = Inr (True, sz)"
    and "ueWalk uenv (cpath q (bs @ [b])) = map snd us"
    and "deStat denv (cpath r (ds @ [b])) = Inr (True, sz')"
    and "deWalk denv (cpath r (ds @ [b])) = map snd vs" "tree_walk r (ds @ [b]) vs"
    and "regular vs = regular us"
  shows "transfer_ok r ds (map (\<lambda>fs. cpath r (ds @ b # fs)) (regular us))
      (upload uenv cb (cpath q (bs @ [b])) (cpath r ds)) \<and>
    (\<exists>res. download (Suc n) denv cb (cpath t ls) (cpath r (ds @ [b])) = Some res \<and>
       transfer_ok t ls (map (\<lambda>fs. cpath t (ls @ b # fs)) (regular us)) res)"
proof
  have "cpath r ds \<noteq> []" using assms(3) by simp
  then show "transfer_ok r ds (map (\<lambda>fs. cpath r (ds @ b # fs)) (regular us))
      (upload uenv cb (cpath q (bs @ [b])) (cpath r ds))"
    using upload_walk_ok [OF assms(3,1,2,5)] assms(6,7) by (simp add: upload_def)
next
  have p: "plain (ds @ [b])" using assms(2,3) by simp
  have "transfer_ok t ls (map (\<lambda>fs. cpath t (ls @ b # fs)) (regular us))
      (download_walk denv cb (cpath t ls) (cpath r (ds @ [b])) (map snd vs))"
    using download_walk_ok [OF assms(4,3,2,10)] assms(11) by simp
  then show "\<exists>res. download (Suc n) denv cb (cpath t ls) (cpath r (ds @ [b])) = Some res \<and>
      transfer_ok t ls (map (\<lambda>fs. cpath t (ls @ b # fs)) (regular us)) res"
    using cpath_root [OF p, of r] path_clean_cpath [OF p, of r] assms(8,9)
    by (simp add: Let_def del: split_paired_Ex)
qed

text \<open>A server with one folder \<open>pics\<close> that holds one file.\<close>

definition demo_steps :: "(string list \<times> walk_step) list" where
  "demo_steps =
     [([], \<lparr>wsCtx = None, wsErr = None, wsPath = ''pics'', wsKind = EDir, wsInfoErr = None\<rparr>),
      ([''a''], \<lparr>wsCtx = None, wsErr = None, wsPath = ''pics/a'', wsKind = ERegular 3, wsInfoErr = None\<rparr>)]"

definition demo_denv :: download_env where
  "demo_denv =
     \<lparr>deList = (\<lambda>d. Inr [\<lparr>fiName = ''pics'', fiSize = 0, fiMode = ModeDir, fiModMS = 0, fiIsDir = True\<rparr>]),
      deStat = (\<lambda>p. Inr (True, 0)), deWalk = (\<lambda>p. if p = ''pics'' then map snd demo_steps else []),
      deOpen = (\<lambda>_. None), deMkdirAll = (\<lambda>_. None), deCreate = (\<lambda>_. None),
      deCopy = (\<lambda>_. ([(3, 1)], None)), deClose = (\<lambda>_. None), deCtx = (\<lambda>_. None)\<rparr>"

definition demo_uenv :: upload_env where
  "demo_uenv =
     \<lparr>ueStat = (\<lambda>p. Inr (True, 0)), ueWalk = (\<lambda>p. map snd demo_steps), ueOpen = (\<lambda>_. None),
      ueMkdirAll = (\<lambda>_. None), ueOpenFile = (\<lambda>_. None), ueCopy = (\<lambda>_. ([(3, 1)], None)),
      ueClose = (\<lambda>_. None), ueCtx = (\<lambda>_. None)\<rparr>"

lemma demo_walk: "tree_walk False [''pics''] demo_steps" "regular demo_steps = [[''a'']]"
  by (simp_all add: demo_steps_def cpath_def plain_elem_def)

lemma demo_tame: "tame_server demo_denv"
proof -
  have "\<exists>steps. deWalk demo_denv (cpath q rs) = map snd steps \<and> tree_walk q rs steps"
    if "plain rs" "rs \<noteq> []" for q rs
  proof (cases "cpath q rs = ''pics''")
    case True
    then have "cpath q rs = cpath False [''pics'']" by (simp add: cpath_def)
    moreover have "\<not> q" using True has_prefix_slash [OF that(1), of q] by (auto simp: has_prefix_def)
    ultimately have "rs = [''pics'']" "\<not> q"
      using cpath_inj [OF that(1), of "[''pics'']" False] by (auto simp: plain_elem_def)
    then show ?thesis using True demo_walk(1) by (auto simp: demo_denv_def)
  next
    case False
    then show ?thesis by (intro exI [of _ "[]"]) (simp add: demo_denv_def)
  qed
  then show ?thesis by (simp add: tame_server_def demo_denv_def plain_elem_def)
qed


theorem trees_keep_their_shape_witness:
  "files_made (snd (upload demo_uenv True ''pics'' ''.'')) = [''pics/a''] \<and>
   (\<exists>res. download 1 demo_denv True ''/home'' ''pics'' = Some res \<and> files_made (snd res) = [''/home/pics/a''])"
proof -
  have w: "tree_walk False ([] @ [''pics'']) demo_steps" using demo_walk(1) by simp
  have e: "fst (upload demo_uenv True ''pics'' ''.'') = None"
    "map_option fst (download 1 demo_denv True ''/home'' ''pics'') = Some None"
    using upload_walk_ok [of "[]" "[]" "''pics''"]
    by (simp_all add: upload_def demo_uenv_def demo_denv_def demo_steps_def path_rel_def path_clean_def
        path_join_def path_base_def path_dir_def strip_slashes_def rel_elems_of_def has_prefix_def
        upload_file_def download_file_def copy_error_def stream_chunk_def Let_def)
  have c: "cpath False [''pics''] = ''pics''" "cpath False [] = ''.''" "cpath True [''home''] = ''/home''"
    "cpath False [''pics'', ''a''] = ''pics/a''" "cpath True [''home'', ''pics'', ''a''] = ''/home/pics/a''"
    by (simp_all add: cpath_def)
  have "transfer_ok False [] [cpath False [''pics'', ''a'']] (upload demo_uenv True ''pics'' ''.'') \<and>
     (\<exists>res. download (Suc 0) demo_denv True ''/home'' ''pics'' = Some res \<and>
       transfer_ok True [''home''] [cpath True [''home'', ''pics'', ''a'']] res)"
    using trees_keep_their_shape [of "[]" "''pics''" "[]" "[''home'']" False demo_steps demo_uenv 0
        demo_denv False 0 demo_steps True 0 True] w demo_walk(2)
    by (simp add: c demo_uenv_def demo_denv_def plain_elem_def del: download.simps split_paired_Ex)
  with e c show ?thesis by (auto simp: transfer_ok_def simp del: download.simps)
qed

end
