(* ===== verification/File_Jobs.thy ===== *)
theory File_Jobs
  imports Tunnel Share_Client
begin

text \<open>
  The file commands of the engine (\<open>core/engine/files.go\<close>): connecting to a share, \<open>send_files\<close>
  and \<open>download\<close> with their background jobs, and the synchronous \<open>list_remote\<close>. The network, the
  SFTP connection and the file systems are arguments, as in \<open>Share_Client\<close>.
\<close>

section \<open>Connecting to a share\<close>

text \<open>
  The attempts of the handshake, the error of the dial, and the errors of the SSH handshake and of
  the SFTP subsystem.
\<close>

record share_net =
  snWarm :: "nat \<Rightarrow> attempt"
  snDial :: "gerror option"
  snHandshake :: "gerror option"
  snSFTP :: "gerror option"

text \<open>The error of \<open>NewClient\<close>.\<close>

definition snClient :: "share_net \<Rightarrow> gerror option" where
  "snClient sn = fst (new_client (snHandshake sn) (snSFTP sn))"

definition conn_of :: "string \<Rightarrow> string" where
  "conn_of sid = ''conn '' @ sid"

definition file_client_of :: "string \<Rightarrow> string" where
  "file_client_of sid = ''file client '' @ sid"

text \<open>\<open>openShare\<close>: the error, if any, what it closes itself, and the retries that it logs.\<close>

definition open_share :: "string \<Rightarrow> share_net \<Rightarrow> gerror option \<times> string list \<times> (nat \<times> gerror) list" where
  "open_share sid sn =
     (case warm_client (snWarm sn) of
        (Some err, pings, logs) \<Rightarrow> (Some err, [client_of sid], logs)
      | (None, pings, logs) \<Rightarrow>
          (case snDial sn of
             Some err \<Rightarrow> (Some (ErrWrap ''connect to file service: %w'' [] err), [client_of sid], logs)
           | None \<Rightarrow>
               (case snClient sn of
                  Some err \<Rightarrow>
                    (Some (ErrWrap ''open file service: %w'' [] err), [conn_of sid, client_of sid], logs)
                | None \<Rightarrow> (None, [], logs))))"

section \<open>Background jobs\<close>

text \<open>The emitter's events for reports that arrive at the given times.\<close>

fun run_emitter :: "string \<Rightarrow> (int \<times> progress) list \<Rightarrow> emitter \<Rightarrow> event list \<times> emitter" where
  "run_emitter sid [] prev = ([], prev)"
| "run_emitter sid ((now, p) # ps) prev =
     (case throttle now p prev of
        (go, prev) \<Rightarrow>
          (case run_emitter sid ps prev of
             (evs, prev) \<Rightarrow> ((if go then [progress_event sid p] else []) @ evs, prev)))"

text \<open>
  One transfer: its path, its error and its progress reports with their times. The loop ends at the
  first error, silently when the session's context is done by then.
\<close>

type_synonym transfer = "string \<times> gerror option \<times> (int \<times> progress) list"

fun p_transfers ::
    "(gerror \<Rightarrow> string) \<Rightarrow> string \<Rightarrow> string \<Rightarrow> transfer list \<Rightarrow> emitter \<Rightarrow> string instr list \<Rightarrow>
     string instr list" where
  "p_transfers render sid fmt [] prev fin = fin"
| "p_transfers render sid fmt ((p, err, reports) # ts) prev fin =
     (case run_emitter sid reports prev of
        (evs, prev) \<Rightarrow>
          map IPush evs @
          (case err of
             None \<Rightarrow> p_transfers render sid fmt ts prev fin
           | Some e \<Rightarrow> [IIfDone [] (p_fail sid (render (ErrWrap fmt [FStr p] e)))]))"

text \<open>
  The goroutine of a job; \<open>doing\<close> and \<open>finished\<close> are its state details, \<open>fmt\<close> the format of its
  error. A failing \<open>openShare\<close> leads to \<open>fail\<close> without a look at the context.
\<close>

definition p_job ::
    "(gerror \<Rightarrow> string) \<Rightarrow> string \<Rightarrow> string \<Rightarrow> string \<Rightarrow> string \<Rightarrow> share_net \<Rightarrow> transfer list \<Rightarrow>
     string instr list" where
  "p_job render sid doing fmt finish sn ts =
     (case open_share sid sn of
        (err, dropped, logs) \<Rightarrow>
          [ISetState StateStarting ''connecting''] @ map (\<lambda>l. IPush (retry_log sid l)) logs @
          map IOther dropped @
          (case err of
             Some e \<Rightarrow> p_fail sid (render e)
           | None \<Rightarrow>
               [IAddCloser (client_of sid), IAddCloser (file_client_of sid), ISetState StateRunning doing] @
               p_transfers render sid fmt ts Map.empty (p_set_state StateDone finish @ p_shutdown)))"

text \<open>The reports among what a transfer does, with the clock readings of the callback.\<close>

definition reports_of :: "act list \<Rightarrow> progress list" where
  "reports_of acts = List.map_filter (\<lambda>a. case a of Report p \<Rightarrow> Some p | _ \<Rightarrow> None) acts"

definition transfer_of :: "(string \<Rightarrow> int list) \<Rightarrow> string \<Rightarrow> gerror option \<times> act list \<Rightarrow> transfer" where
  "transfer_of clock p res = (p, fst res, zip (clock p) (reports_of (snd res)))"

definition p_send ::
    "(gerror \<Rightarrow> string) \<Rightarrow> string \<Rightarrow> share_net \<Rightarrow> (string \<Rightarrow> upload_env) \<Rightarrow> (string \<Rightarrow> int list) \<Rightarrow>
     string list \<Rightarrow> string \<Rightarrow> string instr list" where
  "p_send render sid sn env clock paths remoteDir =
     p_job render sid ''uploading'' ''upload %s: %w'' ''uploaded'' sn
       (map (\<lambda>p. transfer_of clock p (upload (env p) True p remoteDir)) paths)"

text \<open>The downloads of a job up to the first failure; \<open>None\<close> when one of them does not return.\<close>

fun recv_transfers ::
    "(string \<Rightarrow> download_env) \<Rightarrow> (string \<Rightarrow> int list) \<Rightarrow> string \<Rightarrow> string list \<Rightarrow> transfer list option" where
  "recv_transfers env clock localDir [] = Some []"
| "recv_transfers env clock localDir (p # ps) =
     (case download 2 (env p) True localDir p of
        None \<Rightarrow> None
      | Some (Some err, acts) \<Rightarrow> Some [transfer_of clock p (Some err, acts)]
      | Some (None, acts) \<Rightarrow>
          map_option (\<lambda>ts. transfer_of clock p (None, acts) # ts) (recv_transfers env clock localDir ps))"

definition p_recv ::
    "(gerror \<Rightarrow> string) \<Rightarrow> string \<Rightarrow> share_net \<Rightarrow> (string \<Rightarrow> download_env) \<Rightarrow> (string \<Rightarrow> int list) \<Rightarrow>
     string list \<Rightarrow> string \<Rightarrow> string instr list option" where
  "p_recv render sid sn env clock paths localDir =
     map_option (p_job render sid ''downloading'' ''download %s: %w'' ''downloaded'' sn)
       (recv_transfers env clock localDir paths)"

section \<open>The commands\<close>

record send_args =
  sdToken :: string
  sdPaths :: "string list"
  sdRemoteDir :: string

record list_args =
  lsToken :: string
  lsDir :: string

record download_args =
  dlToken :: string
  dlRemotePaths :: "string list"
  dlLocalDir :: string

fun stat_each :: "(string \<Rightarrow> 'i res) \<Rightarrow> string list \<Rightarrow> gerror option" where
  "stat_each stat [] = None"
| "stat_each stat (p # ps) =
     (case stat p of
        Inl err \<Rightarrow> Some (err_code CodeBadRequest ''%v'' [FErr err])
      | Inr _ \<Rightarrow> stat_each stat ps)"

text \<open>
  The commands up to the start of the job: the answer and the \<open>setInfo\<close> calls of the command
  goroutine. \<open>stat\<close> says whether a local path is a directory.
\<close>

definition send_files ::
    "int \<Rightarrow> (string \<Rightarrow> string res) \<Rightarrow> (string \<Rightarrow> bool res) \<Rightarrow> send_args \<Rightarrow> string engine \<Rightarrow>
     (event \<times> string instr list) res \<times> string engine" where
  "send_files now tok stat a e =
     (if sdPaths a = [] then (Inl (err_code CodeBadRequest ''no paths given'' []), e)
      else case stat_each stat (sdPaths a) of
        Some err \<Rightarrow> (Inl err, e)
      | None \<Rightarrow> (case tok (sdToken a) of
          Inl err \<Rightarrow> (Inl err, e)
        | Inr cb \<Rightarrow> (case add_session now KindSend e of
            (Inl err, e) \<Rightarrow> (Inl err, e)
          | (Inr sid, e) \<Rightarrow>
              (Inr ([''session_id'' \<mapsto> JStr sid],
                    [ISetInfo ''paths'' (JStrs (sdPaths a)), ISetInfo ''remote_dir'' (JStr (sdRemoteDir a))]),
               e))))"

definition download_cmd ::
    "int \<Rightarrow> (string \<Rightarrow> string res) \<Rightarrow> (string \<Rightarrow> bool res) \<Rightarrow> download_args \<Rightarrow> string engine \<Rightarrow>
     (event \<times> string instr list) res \<times> string engine" where
  "download_cmd now tok stat a e =
     (if dlRemotePaths a = [] then (Inl (err_code CodeBadRequest ''no remote_paths given'' []), e)
      else if stat (dlLocalDir a) \<noteq> Inr True
      then (Inl (err_code CodeBadRequest ''local_dir %q is not a directory'' [FStr (dlLocalDir a)]), e)
      else case tok (dlToken a) of
             Inl err \<Rightarrow> (Inl err, e)
           | Inr cb \<Rightarrow> (case add_session now KindRecv e of
               (Inl err, e) \<Rightarrow> (Inl err, e)
             | (Inr sid, e) \<Rightarrow>
                 (Inr ([''session_id'' \<mapsto> JStr sid],
                       [ISetInfo ''remote_paths'' (JStrs (dlRemotePaths a)),
                        ISetInfo ''local_dir'' (JStr (dlLocalDir a))]), e)))"

text \<open>
  \<open>list_remote\<close>: the deferred calls close the file client, the client and the session's own
  resources. \<open>readDir\<close> is the listing of the SFTP connection.
\<close>

definition list_remote ::
    "(gerror \<Rightarrow> string) \<Rightarrow> int \<Rightarrow> (string \<Rightarrow> string res) \<Rightarrow> share_net \<Rightarrow> (string \<Rightarrow> finfo list res) \<Rightarrow>
     list_args \<Rightarrow> string engine \<Rightarrow> entry list res \<times> string engine" where
  "list_remote render now tok sn readDir a e =
     (case tok (lsToken a) of
        Inl err \<Rightarrow> (Inl err, e)
      | Inr cb \<Rightarrow> (case add_session now KindRecv e of
          (Inl err, e) \<Rightarrow> (Inl err, e)
        | (Inr sid, e) \<Rightarrow>
            (case open_share sid sn of
               (err, dropped, logs) \<Rightarrow>
                 let opened = on_session sid
                       (fold close_one dropped \<circ> fold (\<lambda>l. emit now (retry_log sid l)) logs) e;
                     finish = (\<lambda>cs st d. on_session sid (shutdown \<circ> fold close_one cs \<circ> set_state now st d) opened);
                     both = [file_client_of sid, client_of sid]
                 in case err of
                      Some err \<Rightarrow>
                        (Inl (err_code CodeInternal ''%v'' [FErr err]), finish [] StateFailed (render err))
                    | None \<Rightarrow>
                        (case client_list readDir (lsDir a) of
                           Inl err \<Rightarrow>
                             (Inl (err_code CodeInternal ''list %q: %v'' [FStr (lsDir a), FErr err]),
                              finish both StateFailed (render err))
                         | Inr entries \<Rightarrow> (Inr entries, finish both StateDone [])))))"

section \<open>Lemmas\<close>

lemma calm_simps [simp]:
  "calm []" "calm (p @ q) \<longleftrightarrow> calm p \<and> calm q"
  "calm (x # p) \<longleftrightarrow> closes_none x \<and> adds_none x \<and> calm p"
  "calm (p_fail sid msg)" "calm (map IPush evs)" "calm (map (\<lambda>l. IPush (f l)) ls)"
  "calm (p_set_state st d)" "calm p_shutdown"
  by (auto simp: calm_def p_set_state_def p_shutdown_def)

lemma calm_transfers: "calm fin \<Longrightarrow> calm (p_transfers render sid fmt ts prev fin)"
proof (induction ts arbitrary: prev)
  case (Cons t ts)
  have "calm (p_fail sid msg)" for msg by simp
  then have "list_all closes_none (p_fail sid msg)" "list_all adds_none (p_fail sid msg)" for msg
    by (simp_all add: calm_def)
  with Cons show ?case
    by (cases t) (auto split: prod.split option.split)
qed simp

text \<open>What a job opens: always a client, and further what the network lets it open.\<close>

definition job_resources :: "string \<Rightarrow> share_net \<Rightarrow> string list" where
  "job_resources sid sn =
     client_of sid #
     (if fst (warm_client (snWarm sn)) \<noteq> None \<or> snDial sn \<noteq> None then []
      else if snClient sn \<noteq> None then [conn_of sid] else [file_client_of sid])"

lemma open_share_resources:
  "mset (fst (snd (open_share sid sn))) =
     (if fst (open_share sid sn) = None then {#} else mset (job_resources sid sn))"
  "fst (open_share sid sn) = None \<Longrightarrow> job_resources sid sn = [client_of sid, file_client_of sid]"
  by (auto simp: open_share_def job_resources_def split: prod.splits option.splits)

lemma adding_other [simp]:
  "adding (map IOther cs) = cs" "list_all adding_ok (map IOther cs)" "list_all closes_none (map IOther cs)"
  by (induction cs) auto

lemma job_simple:
  "list_all closes_none (p_job render sid doing fmt fin sn ts)"
  "list_all adding_ok (p_job render sid doing fmt fin sn ts)"
  "mset (adding (p_job render sid doing fmt fin sn ts)) = mset (job_resources sid sn)"
proof -
  obtain err dropped logs where o: "open_share sid sn = (err, dropped, logs)" by (metis prod.collapse)
  let ?rest = "case err of Some e \<Rightarrow> p_fail sid (render e)
     | None \<Rightarrow> [IAddCloser (client_of sid), IAddCloser (file_client_of sid), ISetState StateRunning doing] @
         p_transfers render sid fmt ts Map.empty (p_set_state StateDone fin @ p_shutdown)"
  have t: "calm (p_transfers render sid fmt ts Map.empty (p_set_state StateDone fin @ p_shutdown))"
    by (rule calm_transfers) simp
  have l: "calm (map (\<lambda>l. IPush (retry_log sid l)) logs)" by simp
  have e: "list_all closes_none ?rest \<and> list_all adding_ok ?rest \<and>
      adding ?rest = (if err = None then [client_of sid, file_client_of sid] else [])"
    using calm_ok [OF t] adding_calm [OF t] by (auto split: option.split)
  have j: "p_job render sid doing fmt fin sn ts =
      ISetState StateStarting ''connecting'' # map (\<lambda>l. IPush (retry_log sid l)) logs @ map IOther dropped @ ?rest"
    by (simp add: p_job_def o)
  note facts = e calm_ok [OF l] adding_calm [OF l]
  show "list_all closes_none (p_job render sid doing fmt fin sn ts)"
    "list_all adding_ok (p_job render sid doing fmt fin sn ts)"
    "mset (adding (p_job render sid doing fmt fin sn ts)) = mset (job_resources sid sn)"
    using open_share_resources [of sid sn] facts unfolding j by (auto simp: o split: if_splits)
qed

section \<open>A job on its own\<close>

text \<open>Pushing events changes neither the session nor what is closed.\<close>

lemma alone_push:
  "sesn (alone now b (map IPush evs) w) = sesn w" "closedLog (alone now b (map IPush evs) w) = closedLog w"
  by (induction evs arbitrary: w) simp_all

lemma alone_logs:
  "sesn (alone now b (map (\<lambda>l. IPush (f l)) ls) w) = sesn w"
  "closedLog (alone now b (map (\<lambda>l. IPush (f l)) ls) w) = closedLog w"
  by (induction ls arbitrary: w) simp_all

lemma alone_other:
  "sesn (alone now b (map IOther cs) w) = sesn w"
  "closedLog (alone now b (map IOther cs) w) = closedLog w @ cs"
  by (induction cs arbitrary: w) simp_all

text \<open>The end of a session that is still active and whose resources nobody has taken.\<close>

definition ended :: "sstate \<Rightarrow> string \<Rightarrow> string gsys \<Rightarrow> string gsys \<Rightarrow> bool" where
  "ended st d w w' \<longleftrightarrow>
     sState (sesn w') = st \<and> sDetail (sesn w') = d \<and> sCancelled (sesn w') \<and> sClosed (sesn w') \<and>
     sClosers (sesn w') = [] \<and> closedLog w' = closedLog w @ rev (sClosers (sesn w))"

lemma active_not_terminal: "active s \<Longrightarrow> \<not> terminal (sState s)"
  by (auto simp: active_def terminal_def)

lemma alone_end:
  assumes "active (sesn w)" "\<not> sClosed (sesn w)" "terminal st"
  shows "ended st d w (alone now b (p_set_state st d @ p_shutdown) w)"
  using assms active_not_terminal [OF assms(1)]
  by (auto simp: p_set_state_def p_shutdown_def ended_def alone_close state_change_def Let_def)

lemma alone_fail:
  assumes "active (sesn w)" "\<not> sClosed (sesn w)"
  shows "ended StateFailed msg w (alone now b (p_fail sid msg) w)"
proof -
  let ?e = "error_event sid ''session_failed'' msg"
  let ?w = "w\<lparr>queue := push now ?e (queue w), gPushed := gPushed w @ [?e]\<rparr>"
  have "ended StateFailed msg ?w (alone now b (p_set_state StateFailed msg @ p_shutdown) ?w)"
    by (rule alone_end) (use assms in \<open>simp_all add: terminal_def\<close>)
  then show ?thesis by (simp add: p_fail_def ended_def)
qed

text \<open>The first failure among some transfers.\<close>

fun first_failure :: "transfer list \<Rightarrow> (string \<times> gerror) option" where
  "first_failure [] = None"
| "first_failure ((p, err, reports) # ts) =
     (case err of Some e \<Rightarrow> Some (p, e) | None \<Rightarrow> first_failure ts)"

lemma alone_transfers:
  assumes "active (sesn w)" "\<not> sClosed (sesn w)" "\<not> sCancelled (sesn w)"
  shows "case first_failure ts of
      None \<Rightarrow> ended StateDone d w
        (alone now b (p_transfers render sid fmt ts prev (p_set_state StateDone d @ p_shutdown)) w)
    | Some (p, e) \<Rightarrow> ended StateFailed (render (ErrWrap fmt [FStr p] e)) w
        (alone now b (p_transfers render sid fmt ts prev (p_set_state StateDone d @ p_shutdown)) w)"
  using assms
proof (induction ts arbitrary: w prev)
  case Nil
  then show ?case using alone_end [of w StateDone d now b] by (simp add: terminal_def)
next
  case (Cons t ts)
  obtain p err reports where t: "t = (p, err, reports)" by (cases t)
  obtain evs prev' where e: "run_emitter sid reports prev = (evs, prev')" by (metis prod.collapse)
  let ?w = "alone now b (map IPush evs) w"
  have same: "sesn ?w = sesn w" "closedLog ?w = closedLog w" by (simp_all add: alone_push)
  have ended: "ended st d w = ended st d ?w" for st d by (simp add: ended_def same fun_eq_iff)
  show ?case
  proof (cases err)
    case None
    with Cons.IH [of ?w prev'] Cons.prems show ?thesis
      by (simp add: t e same alone_append ended split: option.splits prod.splits)
  next
    case (Some err)
    with alone_fail [of ?w] Cons.prems show ?thesis
      by (simp add: t e same alone_append ended)
  qed
qed

text \<open>
  C18. A background job that nobody interferes with runs to its end: it ends \<open>done\<close> exactly when the
  share could be opened and every transfer succeeded, and \<open>failed\<close> with the first error
  otherwise, in either case cancelled and with everything it opened closed, the file client before
  the client.
\<close>

theorem job_outcome:
  "let w = alone now b (p_job render sid doing fmt fin sn ts) (init_gsys (new_session t sid k));
       s = sesn w
   in sCancelled s \<and> sClosed s \<and> sClosers s = [] \<and> closedLog w = rev (job_resources sid sn) \<and>
      (sState s, sDetail s) =
        (case fst (open_share sid sn) of
           Some e \<Rightarrow> (StateFailed, render e)
         | None \<Rightarrow> (case first_failure ts of
             Some (p, e) \<Rightarrow> (StateFailed, render (ErrWrap fmt [FStr p] e))
           | None \<Rightarrow> (StateDone, fin)))"
proof -
  obtain err dropped logs where o: "open_share sid sn = (err, dropped, logs)" by (metis prod.collapse)
  define w1 where "w1 = alone now b ([ISetState StateStarting ''connecting''] @
      map (\<lambda>l. IPush (retry_log sid l)) logs @ map IOther dropped) (init_gsys (new_session t sid k))"
  have w1: "active (sesn w1)" "\<not> sClosed (sesn w1)" "\<not> sCancelled (sesn w1)"
      "sClosers (sesn w1) = []" "closedLog w1 = dropped"
    by (simp_all add: w1_def alone_append alone_logs alone_other init_gsys_def new_session_def
        state_change_def terminal_def active_def Let_def)
  show ?thesis
  proof (cases err)
    case (Some e)
    have d: "dropped = rev (job_resources sid sn)"
      using o Some by (auto simp: open_share_def job_resources_def split: prod.splits option.splits)
    have "alone now b (p_job render sid doing fmt fin sn ts) (init_gsys (new_session t sid k)) =
        alone now b (p_fail sid (render e)) w1"
      by (simp only: w1_def p_job_def o Some prod.case option.case alone_append append_assoc)
    with alone_fail [OF w1(1,2), of "render e" now b sid] w1(4,5) show ?thesis
      by (simp add: ended_def o Some d Let_def)
  next
    case None
    have d: "dropped = []" "rev (job_resources sid sn) = [file_client_of sid, client_of sid]"
      using o None by (auto simp: open_share_def job_resources_def split: prod.splits option.splits)
    define w2 where "w2 = alone now b
      [IAddCloser (client_of sid), IAddCloser (file_client_of sid), ISetState StateRunning doing] w1"
    have w2: "active (sesn w2)" "\<not> sClosed (sesn w2)" "\<not> sCancelled (sesn w2)"
        "sClosers (sesn w2) = [client_of sid, file_client_of sid]" "closedLog w2 = []"
      using w1 d(1) active_not_terminal [OF w1(1)]
      by (simp_all add: w2_def state_change_def active_def terminal_def Let_def)
    have j: "alone now b (p_job render sid doing fmt fin sn ts) (init_gsys (new_session t sid k)) =
        alone now b (p_transfers render sid fmt ts Map.empty (p_set_state StateDone fin @ p_shutdown)) w2"
      by (simp only: w2_def w1_def p_job_def o None prod.case option.case alone_append append_assoc)
    show ?thesis
      using alone_transfers [OF w2(1-3), where ts = ts and d = fin and fmt = fmt and prev = Map.empty
          and render = render and sid = sid and now = now and b = b] w2(4,5)
      by (simp add: j ended_def o None d(2) Let_def split: option.splits prod.splits)
  qed
qed

text \<open>
  C20. Stopping a file job frees everything. The command goroutine still filling in the session, the
  job with any network and any transfers, and \<open>stop\<close> run concurrently in any order: once they have
  ended the session is over, its context cancelled, and everything that the job opened, whether it
  got as far as handing it to the session or not, has been closed exactly once.
\<close>

theorem job_resources_closed:
  assumes "reach (init_gsys (new_session now sid k),
      [map (\<lambda>(i, v). ISetInfo i v) infos, p_stop, p_job render sid doing fmt fin sn ts]) (w, us)"
    and "finished (w, us)"
  shows "terminal (sState (sesn w)) \<and> sCancelled (sesn w) \<and>
    mset (closedLog w) = mset (job_resources sid sn)"
proof -
  have c: "calm (map (\<lambda>(i, v). ISetInfo i v) infos :: string instr list)" by (induction infos) auto
  from calm_ok [OF c] adding_calm [OF c]
    session_resources_closed [OF assms] job_simple [of render sid doing fmt fin sn ts]
  show ?thesis by simp
qed

text \<open>What a listing leaves in the engine, when it got as far as a session.\<close>

lemma fold_close: "fold close_one cs w = w\<lparr>closedLog := closedLog w @ cs\<rparr>"
  by (induction cs arbitrary: w) (simp_all add: close_one_def)

lemma fold_emit:
  "sesn (fold (\<lambda>l. emit now (f l)) ls w) = sesn w" "closedLog (fold (\<lambda>l. emit now (f l)) ls w) = closedLog w"
  by (induction ls arbitrary: w) (simp_all add: emit_def)

lemma list_remote_effect:
  "case list_remote render now tok sn readDir a e of
     (res, e') \<Rightarrow>
       (isl res \<and> e' = e) \<or>
       (let sid = session_id KindRecv (eNextID e + 1); s = the (eSessions e' sid)
        in eSessions e' = (eSessions e)(sid \<mapsto> s) \<and> sState s = (case res of Inl err \<Rightarrow> StateFailed | Inr entries \<Rightarrow> StateDone) \<and>
          sCancelled s \<and> sClosed s \<and> sClosers s = [] \<and> eLog e' = eLog e @ rev (job_resources sid sn))"
proof (cases "tok (lsToken a)")
  case (Inl err)
  then show ?thesis by (simp add: list_remote_def)
next
  case (Inr cb)
  show ?thesis
  proof (cases "eClosed e")
    case True
    with Inr show ?thesis by (simp add: list_remote_def add_session_def)
  next
    case False
    define sid where "sid = session_id KindRecv (eNextID e + 1)"
    obtain err dropped logs where o: "open_share sid sn = (err, dropped, logs)" by (metis prod.collapse)
    have d: "dropped = (if err = None then [] else rev (job_resources sid sn))"
        "err = None \<Longrightarrow> rev (job_resources sid sn) = [file_client_of sid, client_of sid]"
      using o by (auto simp: open_share_def job_resources_def split: prod.splits option.splits)
    show ?thesis
      using False Inr d
      by (auto simp: list_remote_def add_session_def Let_def o sid_def [symmetric] on_session_def
          session_sys_def fold_close fold_emit set_state_def state_change_def terminal_def new_session_def
          shutdown_def cancel_def emit_def split: option.split sum.split)
  qed
qed

text \<open>
  C38. Listing a remote directory leaves nothing running. Either no session was made and the engine is
  as before, or there is one new session, in state \<open>done\<close> exactly when entries are returned and
  \<open>failed\<close> otherwise, with its context cancelled and all that was opened for it closed.
\<close>

theorem list_remote_leaves_nothing:
  "case list_remote render now tok sn readDir a e of
     (res, e') \<Rightarrow>
       (isl res \<and> e' = e) \<or>
       (let sid = session_id KindRecv (eNextID e + 1); s = the (eSessions e' sid)
        in eSessions e' = (eSessions e)(sid \<mapsto> s) \<and> sState s = (case res of Inl err \<Rightarrow> StateFailed | Inr entries \<Rightarrow> StateDone) \<and>
          sCancelled s \<and> sClosed s \<and> sClosers s = [] \<and> eLog e' = eLog e @ rev (job_resources sid sn))"
  by (rule list_remote_effect)

text \<open>
  A user who stops a job while it is still connecting gets an error event for it: \<open>openShare\<close> returns
  the error of the cancelled context and the job calls \<open>fail\<close> without the test that the transfer
  loop and \<open>clientWarmup\<close> make. The session itself stays \<open>stopped\<close>.
\<close>

lemma stopped_job_reports_failure:
  assumes "atBefore (snWarm sn 0) = Some ErrCanceled"
  shows "\<exists>w. reach (init_gsys (new_session now sid k), [p_stop, p_job render sid doing fmt fin sn ts])
      (w, [[], []]) \<and>
    sState (sesn w) = StateStopped \<and>
    last (gPushed w) = error_event sid ''session_failed'' (render ErrCanceled)"
proof -
  let ?c = "(init_gsys (new_session now sid k), [p_stop, p_job render sid doing fmt fin sn ts])"
  let ?s = "scheduled now (map (\<lambda>i. (i, True)) (replicate 2 1 @ replicate 5 0 @ replicate 6 1)) ?c"
  have o: "open_share sid sn = (Some ErrCanceled, [client_of sid], [])"
    using assms by (simp add: open_share_def warm_client_def warm_limits_def)
  have "reach ?c (fst ?s, snd ?s)" by (simp only: prod.collapse scheduled_reach)
  moreover have "snd ?s = [[], []]" "sState (sesn (fst ?s)) = StateStopped"
    "last (gPushed (fst ?s)) = error_event sid ''session_failed'' (render ErrCanceled)"
    by (simp_all add: numeral_eq_Suc p_job_def o p_fail_def demo_run_defs)
  ultimately show ?thesis by metis
qed

text \<open>A job whose file client cannot be opened, stopped halfway.\<close>

definition demo_share :: share_net where
  "demo_share =
     \<lparr>snWarm = (\<lambda>_. \<lparr>atBefore = None, atPing = None, atAfter = None\<rparr>), snDial = None, snHandshake = None,
      snSFTP = Some ErrEOF\<rparr>"

definition demo_job_threads :: "string instr list list" where
  "demo_job_threads =
     [map (\<lambda>(i, v). ISetInfo i v) [(''remote_dir'', JStr [])], p_stop,
      p_job (\<lambda>_. []) ''send-1'' ''uploading'' ''upload %s: %w'' ''uploaded'' demo_share []]"

definition demo_job_run :: "string config" where
  "demo_job_run =
     scheduled 5 (map (\<lambda>i. (i, True)) ([0, 2, 2, 2, 1, 1, 2, 1, 1] @ replicate 6 2))
       (init_gsys (new_session 0 ''send-1'' KindSend), demo_job_threads)"

lemma demo_job_eval: "snd demo_job_run = [[], [], []]"
  by (simp add: demo_job_run_def demo_job_threads_def demo_run_defs p_job_def open_share_def
      demo_share_def snClient_def new_client_def warm_client_def warm_limits_def p_fail_def numeral_eq_Suc)

theorem job_resources_closed_witness:
  "mset (closedLog (fst demo_job_run)) = {#client_of ''send-1'', conn_of ''send-1''#}"
proof -
  have "reach (init_gsys (new_session 0 ''send-1'' KindSend), demo_job_threads)
      (fst demo_job_run, snd demo_job_run)"
    unfolding prod.collapse demo_job_run_def by (rule scheduled_reach)
  from job_resources_closed [OF this [unfolded demo_job_threads_def]] show ?thesis
    by (simp add: demo_job_eval finished_def job_resources_def demo_share_def snClient_def new_client_def
        warm_client_def warm_limits_def)
qed

end
