(* ===== verification/Engine_Life.thy ===== *)
theory Engine_Life
  imports Engine_Steps Start_Server File_Jobs
begin

text \<open>
  The commands of the application as programs of \<open>Engine_Steps\<close>: what each of them does after it has
  registered its session, and which goroutines it starts. With them, the end of the engine is
  complete whatever the application has been doing.
\<close>

section \<open>Listing as a program\<close>

text \<open>\<open>listRemote\<close> after the registration of its session; \<open>listing\<close> is the outcome of \<open>List\<close>.\<close>

definition p_list_remote ::
    "(gerror \<Rightarrow> string) \<Rightarrow> string \<Rightarrow> share_net \<Rightarrow> entry list res \<Rightarrow> string instr list" where
  "p_list_remote render sid sn listing =
     (case open_share sid sn of
        (err, dropped, logs) \<Rightarrow>
          map (\<lambda>l. IPush (retry_log sid l)) logs @ map IOther dropped @
          (case err of
             Some e \<Rightarrow> p_set_state StateFailed (render e)
           | None \<Rightarrow>
               (case listing of
                  Inl err \<Rightarrow> p_set_state StateFailed (render err)
                | Inr entries \<Rightarrow> p_set_state StateDone []) @
               [IOther (file_client_of sid), IOther (client_of sid)]) @
          p_shutdown)"

section \<open>The commands\<close>

text \<open>
  What a goroutine of the application can ask of the engine, with every outcome of the network and of
  the other side. Connections are not looked into. A server whose share cannot be opened fails its
  session at once.
\<close>

inductive code_command :: "string einstr \<Rightarrow> bool" where
  forward: "code_command (ENew k
     (\<lambda>i. (forward_setup i port addr a,
       p_accept_loop render i (accepts :: unit res list) # p_client_warmup render i obs disco #
       map (p_forward_conn render i (faRemotePort a)) (conns :: (unit res \<times> (nat \<times> gerror) list) list)))
     [listener_at addr])"
| socks: "code_command (ENew KindSocks
     (\<lambda>i. (socks_setup i port addr, [p_socks_serve i served, p_client_warmup render i obs disco]))
     [listener_at addr])"
| server: "code_command (ENew KindServer
     (\<lambda>i. (server_setup env i b m pl, [p_server render i start token])) [])"
| server_failed: "code_command (ENew KindServer (\<lambda>i. (p_fail i msg, [])) [])"
| file_job: "code_command (ENew k
     (\<lambda>i. (map (\<lambda>(n, v). ISetInfo n v) infos, [p_job render i doing fmt finish sn (ts i)])) [])"
| listing: "code_command (ENew KindRecv (\<lambda>i. (p_list_remote render i sn entries, [])) [])"
| stop_one: "code_command (EStop i)"
| poll_one: "code_command EPoll"
| close_all: "code_command EClose"

inductive_simps code_command_close: "code_command EClose"

lemma setup_simple:
  "list_all closes_none (socks_setup i port addr)"
  "list_all closes_none (server_setup env i b m pl)"
  "list_all closes_none (p_server render i start token)"
  by (simp_all add: socks_setup_def server_setup_def p_server_def p_set_token_def split: option.split)

lemma infos_simple: "list_all closes_none (map (\<lambda>(n, v). ISetInfo n v) infos)"
  by (induction infos) auto

lemma list_remote_simple: "list_all closes_none (p_list_remote render i sn listing)"
  by (auto simp: p_list_remote_def p_set_state_def p_shutdown_def split: prod.split option.split sum.split)

lemma conns_simple: "list_all (list_all closes_none) (map (p_forward_conn render i p) conns)"
  by (induction conns) (simp_all add: forward_conn_simple)

lemma code_command_ok: "code_command x \<Longrightarrow> einitial x"
  by (induction rule: code_command.induct)
    (simp_all add: forward_setup_simple warmup_simple accept_loop_simple conns_simple setup_simple
      infos_simple list_remote_simple job_simple calm_ok del: list_all_length)

section \<open>Properties\<close>


text \<open>A proxy whose session is registered, and closed before it has its listener.\<close>

definition demo_lost :: "nat \<Rightarrow> attempt" where
  "demo_lost n = \<lparr>atBefore = Some ErrCanceled, atPing = None, atAfter = None\<rparr>"

definition demo_race :: "string einstr list list" where
  "demo_race =
     [[ENew KindSocks
        (\<lambda>i. (socks_setup i 1080 ''a'',
          [p_socks_serve i (Some ErrNetClosed), p_client_warmup (\<lambda>_. ''gone'') i demo_lost (Inl ErrCanceled)]))
        [listener_at ''a'']], [EClose]]"

definition demo_race_end :: "string econfig" where
  "demo_race_end = fold (\<lambda>(order, n). edo order n)
     ([([], 0)] @ map (Pair [''socks-1'']) [0, 1, 1, 1, 1, 1, 1, 0, 0, 0, 0, 2, 3, 3, 1])
     (init_world [], demo_race)"

lemmas demo_race_defs = demo_race_end_def demo_race_def edo_def init_world_def new_engine_def add_session_def
  session_id_def itoa_def nat_str.simps Let_def gsys_of_def set_sys_def new_session_def p_stop_simps
  state_change_def terminal_def socks_setup_def p_socks_serve_def p_client_warmup_def warm_client_def
  warm_limits_def demo_lost_def client_of_def listener_at_def

lemma demo_race_eval:
  "snd demo_race_end = [[], [], [], []]"
  "eLog (fst (fst demo_race_end)) = [''client socks-1'', ''listener a'']"
  by (simp_all add: demo_race_defs)

lemma dom_one: "dom (\<lambda>i. if i = a then Some x else None) = {a}"
  by (auto simp: dom_def)

lemma demo_race_steps: "estep\<^sup>*\<^sup>* (init_world [], demo_race) demo_race_end"
proof (rule eruns_steps)
  show "eruns ([([], 0)] @ map (Pair [''socks-1'']) [0, 1, 1, 1, 1, 1, 1, 0, 0, 0, 0, 2, 3, 3, 1])
      (init_world [], demo_race) demo_race_end"
    by (simp add: demo_race_defs dom_one)
qed


end
