(* ===== verification/Go_Json.thy ===== *)
theory Go_Json
  imports Go_Float
begin

text \<open>
  \<open>encoding/json\<close> as the engine uses it, on JSON values instead of text: storing a value into a
  variable of a Go type (\<open>Unmarshal\<close>) and the value of a Go variable (\<open>Marshal\<close>). Numbers keep
  their literal. A decoder gets the old content of the variable, because \<open>null\<close> and missing
  keys leave it alone. An error is reported at the end of \<open>Unmarshal\<close> and no caller looks at the
  half-filled variable, so a decoder just fails.
\<close>

datatype json =
    JNull
  | JBoolean bool
  | JNumber string
  | JString string
  | JArray "json list"
  | JObject "(string \<times> json) list"

type_synonym 'a decoder = "json \<Rightarrow> 'a \<Rightarrow> 'a res"

definition type_error :: gerror where
  "type_error = ErrText ''json: cannot unmarshal value into Go variable''"

section \<open>Basic types\<close>

definition dec_string :: "string decoder" where
  "dec_string j old = (case j of JString s \<Rightarrow> Inr s | JNull \<Rightarrow> Inr old | _ \<Rightarrow> Inl type_error)"

definition dec_bool :: "bool decoder" where
  "dec_bool j old = (case j of JBoolean b \<Rightarrow> Inr b | JNull \<Rightarrow> Inr old | _ \<Rightarrow> Inl type_error)"

text \<open>An \<open>int\<close> takes only integer literals that fit 64 bits: \<open>1.0\<close> and \<open>1e3\<close> are refused.\<close>

definition dec_int :: "int decoder" where
  "dec_int j old =
     (case j of
        JNumber lit \<Rightarrow> (case atoi lit of Some i \<Rightarrow> Inr i | None \<Rightarrow> Inl type_error)
      | JNull \<Rightarrow> Inr old
      | _ \<Rightarrow> Inl type_error)"

text \<open>The value of a number literal: digits, fraction and exponent.\<close>

definition number_val :: "string \<Rightarrow> rat" where
  "number_val lit =
     (let neg = (lit \<noteq> [] \<and> hd lit = CHR ''-'');
          body = (if neg then tl lit else lit);
          mant = takeWhile (\<lambda>c. c \<noteq> CHR ''e'' \<and> c \<noteq> CHR ''E'') body;
          ex = drop (Suc (length mant)) body;
          ip = takeWhile (\<lambda>c. c \<noteq> CHR ''.'') mant;
          fp = drop (Suc (length ip)) mant;
          e = (case atoi ex of Some e \<Rightarrow> e | None \<Rightarrow> 0) - int (length fp);
          m = of_nat (digits_val (ip @ fp));
          v = (if 0 \<le> e then m * 10 ^ nat e else m / 10 ^ nat (- e))
      in if neg then - v else v)"

definition dec_float :: "rat decoder" where
  "dec_float j old =
     (case j of
        JNumber lit \<Rightarrow>
          let x = round64 (number_val lit) in if \<bar>x\<bar> < float_limit then Inr x else Inl type_error
      | JNull \<Rightarrow> Inr old
      | _ \<Rightarrow> Inl type_error)"

section \<open>Slices, pointers and structs\<close>

text \<open>Elements are decoded over the old ones, as far as there are any.\<close>

fun dec_elems :: "'a decoder \<Rightarrow> 'a \<Rightarrow> json list \<Rightarrow> 'a list \<Rightarrow> 'a list res" where
  "dec_elems dec zero [] old = Inr []"
| "dec_elems dec zero (j # js) old =
     (case dec j (if old = [] then zero else hd old) of
        Inl err \<Rightarrow> Inl err
      | Inr x \<Rightarrow> (case dec_elems dec zero js (tl old) of Inl err \<Rightarrow> Inl err | Inr xs \<Rightarrow> Inr (x # xs)))"

definition dec_slice :: "'a decoder \<Rightarrow> 'a \<Rightarrow> 'a list decoder" where
  "dec_slice dec zero j old =
     (case j of JArray js \<Rightarrow> dec_elems dec zero js old | JNull \<Rightarrow> Inr [] | _ \<Rightarrow> Inl type_error)"

definition dec_pointer :: "'a decoder \<Rightarrow> 'a \<Rightarrow> 'a option decoder" where
  "dec_pointer dec zero j old =
     (if j = JNull then Inr None
      else case dec j (case old of None \<Rightarrow> zero | Some x \<Rightarrow> x) of
             Inl err \<Rightarrow> Inl err
           | Inr x \<Rightarrow> Inr (Some x))"

text \<open>
  Names of keys are compared exactly first and then ignoring case; for the ASCII names of the
  engine the letters outside ASCII that fold to one of them are the long s and the Kelvin sign.
\<close>

definition fold_char :: "char \<Rightarrow> char" where
  "fold_char c =
     (let n = of_char c in if 65 \<le> n \<and> n \<le> (90 :: nat) then char_of (n + 32) else c)"

text \<open>The argument of \<open>fold_runes\<close> is the number of bytes of the current rune still to drop.\<close>

primrec fold_runes :: "nat \<Rightarrow> string \<Rightarrow> string" where
  "fold_runes skip [] = []"
| "fold_runes skip (c # s) =
     (if 0 < skip then fold_runes (skip - 1) s
      else if c = CHR 0xC5 \<and> take 1 s = [CHR 0xBF] then CHR ''s'' # fold_runes 1 s
      else if c = CHR 0xE2 \<and> take 2 s = [CHR 0x84, CHR 0xAA] then CHR ''k'' # fold_runes 2 s
      else fold_char c # fold_runes 0 s)"

definition fold_name :: "string \<Rightarrow> string" where
  "fold_name s = fold_runes 0 s"

type_synonym 'r fields = "(string \<times> (json \<Rightarrow> 'r \<Rightarrow> 'r res)) list"

definition find_field :: "'r fields \<Rightarrow> string \<Rightarrow> (json \<Rightarrow> 'r \<Rightarrow> 'r res) option" where
  "find_field fields k =
     (case map_of fields k of
        Some f \<Rightarrow> Some f
      | None \<Rightarrow> map_option snd (find (\<lambda>(n, f). fold_name n = fold_name k) fields))"

fun dec_members :: "'r fields \<Rightarrow> (string \<times> json) list \<Rightarrow> 'r \<Rightarrow> 'r res" where
  "dec_members fields [] r = Inr r"
| "dec_members fields ((k, v) # kvs) r =
     (case find_field fields k of
        None \<Rightarrow> dec_members fields kvs r
      | Some f \<Rightarrow> (case f v r of Inl err \<Rightarrow> Inl err | Inr r \<Rightarrow> dec_members fields kvs r))"

definition dec_struct :: "'r fields \<Rightarrow> 'r decoder" where
  "dec_struct fields j old =
     (case j of JObject kvs \<Rightarrow> dec_members fields kvs old | JNull \<Rightarrow> Inr old | _ \<Rightarrow> Inl type_error)"

text \<open>One field of a struct, from a decoder of its type and its selector and update.\<close>

definition field :: "'a decoder \<Rightarrow> ('r \<Rightarrow> 'a) \<Rightarrow> ('a \<Rightarrow> 'r \<Rightarrow> 'r) \<Rightarrow> json \<Rightarrow> 'r \<Rightarrow> 'r res" where
  "field dec get upd j r = (case dec j (get r) of Inl err \<Rightarrow> Inl err | Inr x \<Rightarrow> Inr (upd x r))"

section \<open>Values\<close>

definition enc_int :: "int \<Rightarrow> json" where
  "enc_int i = JNumber (itoa i)"

definition enc_float :: "rat \<Rightarrow> json" where
  "enc_float x = JNumber (float_text x)"

text \<open>Members with \<open>omitempty\<close> are left out when the condition is false.\<close>

definition opt_member :: "bool \<Rightarrow> string \<Rightarrow> json \<Rightarrow> (string \<times> json) list" where
  "opt_member present k v = (if present then [(k, v)] else [])"

section \<open>Facts\<close>

lemma dec_string_enc [simp]: "dec_string (JString s) old = Inr s"
  by (simp add: dec_string_def)

lemma dec_bool_enc [simp]: "dec_bool (JBoolean b) old = Inr b"
  by (simp add: dec_bool_def)

definition int64 :: "int \<Rightarrow> bool" where
  "int64 i \<longleftrightarrow> min_int \<le> i \<and> i \<le> max_int"

lemma dec_int_enc [simp]: "int64 i \<Longrightarrow> dec_int (enc_int i) old = Inr i"
  by (simp add: dec_int_def enc_int_def atoi_itoa int64_def)

lemma dec_elems_enc:
  "(\<And>x old. x \<in> set xs \<Longrightarrow> dec (enc x) old = Inr x) \<Longrightarrow> dec_elems dec zero (map enc xs) old = Inr xs"
  by (induction xs arbitrary: old) auto

lemma dec_slice_enc:
  "(\<And>x old. x \<in> set xs \<Longrightarrow> dec (enc x) old = Inr x) \<Longrightarrow> dec_slice dec zero (JArray (map enc xs)) old = Inr xs"
  by (simp add: dec_slice_def dec_elems_enc)

lemma dec_strings_enc [simp]: "dec_slice dec_string zero (JArray (map JString ss)) old = Inr ss"
  by (simp add: dec_slice_enc)

lemma dec_ints_enc [simp]: "list_all int64 is \<Longrightarrow> dec_slice dec_int zero (JArray (map enc_int is)) old = Inr is"
  by (simp add: dec_slice_enc list_all_iff)

text \<open>An object is decoded member by member.\<close>

lemma dec_struct_object [simp]: "dec_struct fields (JObject kvs) r = dec_members fields kvs r"
  by (simp add: dec_struct_def)

lemma dec_members_known:
  "map_of fields k = Some f \<Longrightarrow>
     dec_members fields ((k, v) # kvs) r = (case f v r of Inl err \<Rightarrow> Inl err | Inr r \<Rightarrow> dec_members fields kvs r)"
  by (simp add: find_field_def)

lemma dec_members_opt:
  "map_of fields k = Some f \<Longrightarrow>
     dec_members fields (opt_member b k v @ kvs) r =
       (if b then case f v r of Inl err \<Rightarrow> Inl err | Inr r \<Rightarrow> dec_members fields kvs r
        else dec_members fields kvs r)"
  by (simp add: opt_member_def dec_members_known del: dec_members.simps)

section \<open>Floats are read back\<close>

lemma is_digit_exp: "\<not> is_digit CHR ''e''" "\<not> is_digit CHR ''E''"
  by (simp_all add: is_digit_def)

text \<open>A literal with its integer part, its fraction and its exponent.\<close>

definition fraction :: "string \<Rightarrow> string" where
  "fraction fp = (if fp = [] then [] else CHR ''.'' # fp)"

lemma digits_neq: "list_all is_digit ds \<Longrightarrow> \<not> is_digit c \<Longrightarrow> x \<in> set ds \<Longrightarrow> x \<noteq> c"
  by (auto simp: list_all_iff)

lemma atoi_nil: "atoi [] = None"
  by (simp add: atoi_def)

lemma number_val_parts:
  assumes "list_all is_digit ip" "ip \<noteq> []" "list_all is_digit fp"
    and ex: "ex = [] \<and> e = 0 \<or> (\<exists>es. ex = CHR ''e'' # es \<and> atoi es = Some e)"
  shows "number_val (ip @ fraction fp @ ex) = of_nat (digits_val (ip @ fp)) * 10 powi (e - int (length fp))"
    "number_val (CHR ''-'' # ip @ fraction fp @ ex) = - of_nat (digits_val (ip @ fp)) * 10 powi (e - int (length fp))"
proof -
  let ?body = "ip @ fraction fp @ ex"
  let ?mant = "takeWhile (\<lambda>c. c \<noteq> CHR ''e'' \<and> c \<noteq> CHR ''E'') ?body"
  have no_e: "x \<noteq> CHR ''e'' \<and> x \<noteq> CHR ''E''" if "x \<in> set (ip @ fraction fp)" for x
    using that assms(1,3) is_digit_exp by (auto simp: fraction_def list_all_iff split: if_splits)
  have m: "?mant = ip @ fraction fp"
    using no_e ex takeWhile_append2 [of "ip @ fraction fp" "\<lambda>c. c \<noteq> CHR ''e'' \<and> c \<noteq> CHR ''E''" ex] by auto
  have d: "drop (Suc (length (ip @ fraction fp))) ?body = tl ex"
    using ex by auto
  have e: "(case atoi (tl ex) of Some e \<Rightarrow> e | None \<Rightarrow> 0) = e"
    using ex atoi_nil by auto
  have i: "takeWhile (\<lambda>c. c \<noteq> CHR ''.'') (ip @ fraction fp) = ip"
    using assms(1) by (auto simp: fraction_def list_all_iff takeWhile_append)
  have f: "drop (Suc (length ip)) (ip @ fraction fp) = fp" by (simp add: fraction_def)
  have h: "hd ?body \<noteq> CHR ''-''" using assms(1,2) by (cases ip) auto
  have v: "(if 0 \<le> n then m * 10 ^ nat n else m / 10 ^ nat (- n)) = m * (10 :: rat) powi n" for m n
    by (simp add: power_int_def field_simps)
  have "?body \<noteq> []" using assms(2) by simp
  with h show "number_val ?body = of_nat (digits_val (ip @ fp)) * 10 powi (e - int (length fp))"
    unfolding number_val_def Let_def by (simp only: m d e i f v simp_thms if_False append_is_Nil_conv)
  show "number_val (CHR ''-'' # ?body) = - of_nat (digits_val (ip @ fp)) * 10 powi (e - int (length fp))"
    unfolding number_val_def Let_def list.sel
    by (simp only: m d e i f v simp_thms if_True list.distinct mult_minus_left)
qed

text \<open>Both formats have such parts.\<close>

definition float_parts :: "string \<Rightarrow> nat \<times> int \<Rightarrow> bool" where
  "float_parts t dk \<longleftrightarrow>
     (\<exists>ip fp ex e. t = ip @ fraction fp @ ex \<and> list_all is_digit ip \<and> ip \<noteq> [] \<and>
        (hd ip = CHR ''0'' \<longrightarrow> length ip = 1) \<and> list_all is_digit fp \<and>
        (ex = [] \<and> e = 0 \<or>
         (\<exists>es. ex = CHR ''e'' # es \<and> atoi es = Some e \<and>
            (\<exists>c ds. es = c # ds \<and> c \<in> {CHR ''+'', CHR ''-''} \<and> ds \<noteq> [] \<and> list_all is_digit ds))) \<and>
        of_nat (digits_val (ip @ fp)) * 10 powi (e - int (length fp)) = dec_value dk)"

lemma float_parts_value:
  assumes "float_parts t dk"
  shows "number_val t = dec_value dk" "number_val (CHR ''-'' # t) = - dec_value dk"
proof -
  from assms obtain ip fp ex e where
    t: "t = ip @ fraction fp @ ex" and p: "list_all is_digit ip" "ip \<noteq> []" "list_all is_digit fp"
      "ex = [] \<and> e = 0 \<or> (\<exists>es. ex = CHR ''e'' # es \<and> atoi es = Some e)"
    and v: "of_nat (digits_val (ip @ fp)) * 10 powi (e - int (length fp)) = dec_value dk"
    unfolding float_parts_def by blast
  from number_val_parts [OF p] v show "number_val t = dec_value dk" "number_val (CHR ''-'' # t) = - dec_value dk"
    unfolding t mult_minus_left by (simp_all only:)
qed

lemma nat_str_lead: "n \<noteq> 0 \<Longrightarrow> hd (nat_str n) \<noteq> CHR ''0''"
proof (induction n rule: nat_str.induct)
  case (1 n)
  show ?case
  proof (cases "n < 10")
    case True
    then have "digit_val (digit_char n) = n" by simp
    moreover have "digit_val CHR ''0'' = 0" by (simp add: digit_val_def)
    ultimately have "digit_char n \<noteq> CHR ''0''" using 1(2) by auto
    with True show ?thesis by (simp add: nat_str.simps [of n])
  next
    case False
    with 1(1) show ?thesis by (simp add: nat_str.simps [of n] div_eq_0_iff)
  qed
qed

lemma zero_digit: "is_digit CHR ''0''"
  by (simp add: is_digit_def)

lemma text_f_parts: "d \<noteq> 0 \<Longrightarrow> float_parts (text_f d k) (d, k)"
proof -
  assume d: "d \<noteq> 0"
  let ?ds = "nat_str d" and ?n = "nat (- k)"
  note ds = nat_str_digits [of d] and lead = nat_str_lead [OF d]
  consider (whole) "0 \<le> k" | (inner) "k < 0" "?n < length ?ds" | (small) "k < 0" "length ?ds \<le> ?n" by linarith
  then show ?thesis
  proof cases
    case whole
    then have "of_nat (digits_val (?ds @ replicate (nat k) (CHR ''0''))) = dec_value (d, k)"
      by (simp add: digits_val_append dec_value_def power_int_def)
    with whole ds lead zero_digit show ?thesis
      unfolding float_parts_def text_f_def
      by (intro exI [of _ "?ds @ replicate (nat k) (CHR ''0'')"] exI [of _ "[]"] exI [of _ 0])
        (auto simp: fraction_def Let_def list_all_iff hd_append)
  next
    case inner
    let ?ip = "take (length ?ds - ?n) ?ds" and ?fp = "drop (length ?ds - ?n) ?ds"
    have "length ?fp = ?n" "?fp \<noteq> []" "?ip \<noteq> []" "hd ?ip = hd ?ds" using inner by (auto simp: hd_take)
    moreover have "list_all is_digit ?ip" "list_all is_digit ?fp"
      using ds by (auto simp: list_all_iff dest: in_set_takeD in_set_dropD)
    moreover have "of_nat (digits_val (?ip @ ?fp)) * 10 powi (0 - int ?n) = dec_value (d, k)"
      using inner by (simp add: dec_value_def)
    ultimately show ?thesis
      using inner lead unfolding float_parts_def text_f_def
      by (intro exI [of _ ?ip] exI [of _ ?fp] exI [of _ "[]"] exI [of _ 0])
        (auto simp: fraction_def Let_def)
  next
    case small
    let ?fp = "replicate (?n - length ?ds) (CHR ''0'') @ ?ds"
    have "length ?fp = ?n" using small by simp
    moreover have "list_all is_digit ?fp" using ds zero_digit by (auto simp: list_all_iff)
    moreover have "digits_val (CHR ''0'' # ?fp) = d"
      using digits_val_append [of "[CHR ''0'']" ?fp] by (simp add: digits_val_append) (simp add: digits_val_def digit_val_def)
    then have "of_nat (digits_val (CHR ''0'' # ?fp)) * 10 powi (0 - int ?n) = dec_value (d, k)"
      using small by (simp only: dec_value_def) simp
    ultimately show ?thesis
      using small zero_digit unfolding float_parts_def text_f_def
      by (intro exI [of _ "''0''"] exI [of _ ?fp] exI [of _ "[]"] exI [of _ 0])
        (auto simp: fraction_def Let_def)
  qed
qed

lemma text_e_parts:
  assumes "d \<noteq> 0" "- 1074 \<le> k" "k + int (length (nat_str d)) - 1 < 1026"
  shows "float_parts (text_e d k) (d, k)"
proof -
  obtain c ds where cd: "nat_str d = c # ds" by (cases "nat_str d") auto
  have dig: "is_digit c" "list_all is_digit ds" using nat_str_digits [of d] cd by auto
  let ?ex = "k + int (length ds)"
  let ?es = "(if ?ex < 0 then CHR ''-'' else CHR ''+'') # nat_str (nat \<bar>?ex\<bar>)"
  have es: "atoi ?es = Some ?ex"
    using assms(2,3) cd
    by (auto simp: atoi_def Let_def min_int_def max_int_def nat_str_digits)
  have "of_nat (digits_val ([c] @ ds)) * 10 powi (?ex - int (length ds)) = dec_value (d, k)"
    using digits_val_nat_str [of d] cd by (simp add: dec_value_def)
  moreover have "text_e d k = [c] @ fraction ds @ CHR ''e'' # ?es"
    using cd by (simp add: text_e_def fraction_def Let_def add_diff_eq)
  moreover have "\<exists>x xs. ?es = x # xs \<and> x \<in> {CHR ''+'', CHR ''-''} \<and> xs \<noteq> [] \<and> list_all is_digit xs"
    using nat_str_digits by auto
  ultimately show ?thesis
    using es dig unfolding float_parts_def
    by (intro exI [of _ "[c]"] exI [of _ ds] exI [of _ "CHR ''e'' # ?es"] exI [of _ ?ex]) auto
qed

lemma shortest_nonzero: "round64 x = x \<Longrightarrow> 0 < x \<Longrightarrow> fst (shortest x) \<noteq> 0"
proof
  assume x: "round64 x = x" "0 < x" "fst (shortest x) = 0"
  then have "dec_value (shortest x) = 0" by (simp add: dec_value_def)
  with shortest_reads [OF x(1,2)] x(2) show False by simp
qed

lemma pos_text_parts:
  assumes "round64 x = x" "0 < x" "x < float_limit"
  shows "float_parts (pos_text x) (shortest x)"
proof -
  obtain d k where s: "shortest x = (d, k)" by (cases "shortest x")
  have d: "d \<noteq> 0" using shortest_nonzero [OF assms(1,2)] s by simp
  have "- 1074 \<le> k" using shortest_place [of x] s by simp
  with text_e_parts [OF d this shortest_size [OF assms s]] text_f_parts [OF d, of k] show ?thesis
    by (simp add: pos_text_def s)
qed

text \<open>Every float is read back as it was.\<close>

lemma dec_float_enc [simp]:
  assumes "float64 x"
  shows "dec_float (enc_float x) old = Inr x"
proof -
  have "round64 (number_val (float_text x)) = x"
  proof (cases x "0 :: rat" rule: linorder_cases)
    case equal
    have "number_val ''0'' = 0" using number_val_parts(1) [of "''0''" "[]" "[]" 0] zero_digit
      by (simp add: fraction_def digits_val_def digit_val_def)
    with equal show ?thesis by (simp add: float_text_def)
  next
    case less
    then have "round64 (- x) = - x" "0 < - x" "- x < float_limit" using assms by (auto simp: float64_def)
    from float_parts_value(2) [OF pos_text_parts [OF this]] shortest_reads [OF this(1,2)] less show ?thesis
      by (simp add: float_text_def)
  next
    case greater
    then have "round64 x = x" "0 < x" "x < float_limit" using assms by (auto simp: float64_def)
    from float_parts_value(1) [OF pos_text_parts [OF this]] shortest_reads [OF this(1,2)] greater show ?thesis
      by (simp add: float_text_def)
  qed
  with assms show ?thesis by (simp add: dec_float_def enc_float_def float64_def Let_def)
qed

end
