(* ===== verification/Go_Json_Text.thy ===== *)
theory Go_Json_Text
  imports Go_Json Go_Strings
begin

text \<open>
  The text of JSON, as \<open>encoding/json\<close> reads and writes it: \<open>json_print\<close> is \<open>Marshal\<close>'s compact output
  with its HTML escapes, \<open>json_scan\<close> the syntax check and reading of \<open>Unmarshal\<close>, with its limit on
  nesting. Strings are Go strings, bytes that need not be UTF-8. What is printed is read back.
\<close>

section \<open>UTF-8\<close>

definition byte_of :: "char \<Rightarrow> nat" where
  "byte_of c = of_char c"

definition cont_byte :: "char \<Rightarrow> bool" where
  "cont_byte c \<longleftrightarrow> 0x80 \<le> byte_of c \<and> byte_of c \<le> 0xBF"

text \<open>The range of the second byte after a first byte that needs more than one more.\<close>

definition second_range :: "nat \<Rightarrow> nat \<times> nat" where
  "second_range b =
     (if b = 0xE0 then (0xA0, 0xBF) else if b = 0xED then (0x80, 0x9F)
      else if b = 0xF0 then (0x90, 0xBF) else if b = 0xF4 then (0x80, 0x8F) else (0x80, 0xBF))"

definition second_ok :: "char \<Rightarrow> char \<Rightarrow> bool" where
  "second_ok c d \<longleftrightarrow>
     (case second_range (byte_of c) of (lo, hi) \<Rightarrow> lo \<le> byte_of d \<and> byte_of d \<le> hi)"

text \<open>The length of the first rune; 0 when the bytes are no UTF-8 (\<open>utf8.DecodeRune\<close>).\<close>

fun rune_len :: "string \<Rightarrow> nat" where
  "rune_len [] = 0"
| "rune_len (c # s) =
     (let b = byte_of c
      in if b < 0x80 then 1
         else if 0xC2 \<le> b \<and> b \<le> 0xDF then
           (case s of d # _ \<Rightarrow> if cont_byte d then 2 else 0 | [] \<Rightarrow> 0)
         else if 0xE0 \<le> b \<and> b \<le> 0xEF then
           (case s of d # e # _ \<Rightarrow> if second_ok c d \<and> cont_byte e then 3 else 0 | _ \<Rightarrow> 0)
         else if 0xF0 \<le> b \<and> b \<le> 0xF4 then
           (case s of d # e # f # _ \<Rightarrow> if second_ok c d \<and> cont_byte e \<and> cont_byte f then 4 else 0 | _ \<Rightarrow> 0)
         else 0)"

text \<open>U+FFFD, which stands in for bytes that are no UTF-8.\<close>

definition replacement :: string where
  "replacement = [CHR 0xEF, CHR 0xBF, CHR 0xBD]"

definition utf8_encode :: "nat \<Rightarrow> string" where
  "utf8_encode n =
     map char_of
       (if n < 0x80 then [n]
        else if n < 0x800 then [0xC0 + n div 64, 0x80 + n mod 64]
        else if n < 0x10000 then [0xE0 + n div 4096, 0x80 + n div 64 mod 64, 0x80 + n mod 64]
        else [0xF0 + n div 262144, 0x80 + n div 4096 mod 64, 0x80 + n div 64 mod 64, 0x80 + n mod 64])"

lemma rune_len_le: "rune_len s \<le> length s"
  by (induction s rule: rune_len.induct) (auto simp: Let_def split: list.split)

text \<open>The rune at the beginning and the rest: bytes that are no UTF-8 are taken one by one.\<close>

definition first_rune :: "string \<Rightarrow> string" where
  "first_rune s = (if rune_len s = 0 then replacement else take (rune_len s) s)"

definition next_rune :: "string \<Rightarrow> string" where
  "next_rune s = (if rune_len s = 0 then tl s else drop (rune_len s) s)"

lemma next_rune_less [simp, termination_simp]: "length (next_rune (c # s)) < Suc (length s)"
  by (simp add: next_rune_def)

text \<open>The string as JSON can represent it.\<close>

fun to_valid :: "string \<Rightarrow> string" where
  "to_valid [] = []"
| "to_valid (c # s) = first_rune (c # s) @ to_valid (next_rune (c # s))"

declare to_valid.simps(2) [simp del]

definition valid_utf8 :: "string \<Rightarrow> bool" where
  "valid_utf8 s \<longleftrightarrow> to_valid s = s"

lemma to_valid_ascii [simp]: "byte_of c < 0x80 \<Longrightarrow> to_valid (c # s) = c # to_valid s"
  by (simp add: to_valid.simps first_rune_def next_rune_def Let_def)

lemma valid_utf8_ascii: "list_all (\<lambda>c. byte_of c < 0x80) s \<Longrightarrow> valid_utf8 s"
  by (induction s) (simp_all add: valid_utf8_def)

section \<open>Strings\<close>

definition hex_digit :: "nat \<Rightarrow> char" where
  "hex_digit n = (if n < 10 then char_of (48 + n) else char_of (87 + n))"

definition hex_val :: "char \<Rightarrow> nat option" where
  "hex_val c =
     (let b = byte_of c
      in if 48 \<le> b \<and> b \<le> 57 then Some (b - 48)
         else if 97 \<le> b \<and> b \<le> 102 then Some (b - 87)
         else if 65 \<le> b \<and> b \<le> 70 then Some (b - 55)
         else None)"

definition quote_mark :: char where "quote_mark = CHR 0x22"
definition backslash :: char where "backslash = CHR 0x5C"

text \<open>The escapes of ASCII characters.\<close>

definition escape_char :: "char \<Rightarrow> string" where
  "escape_char c =
     (if c = quote_mark \<or> c = backslash then [backslash, c]
      else if c = CHR 0x08 then [backslash, CHR ''b'']
      else if c = CHR 0x0C then [backslash, CHR ''f'']
      else if c = CHR 0x0A then [backslash, CHR ''n'']
      else if c = CHR 0x0D then [backslash, CHR ''r'']
      else if c = CHR 0x09 then [backslash, CHR ''t'']
      else if byte_of c < 0x20 \<or> c \<in> set ''<>&''
      then [backslash, CHR ''u'', CHR ''0'', CHR ''0'', hex_digit (byte_of c div 16), hex_digit (byte_of c mod 16)]
      else [c])"

text \<open>Longer runes are copied, except for the line separators U+2028 and U+2029.\<close>

definition print_rune :: "string \<Rightarrow> string" where
  "print_rune s =
     (if rune_len s = 0 then backslash # ''ufffd''
      else if rune_len s = 1 then escape_char (hd s)
      else if take 3 s = [CHR 0xE2, CHR 0x80, CHR 0xA8] then backslash # ''u2028''
      else if take 3 s = [CHR 0xE2, CHR 0x80, CHR 0xA9] then backslash # ''u2029''
      else take (rune_len s) s)"

fun print_chars :: "string \<Rightarrow> string" where
  "print_chars [] = []"
| "print_chars (c # s) = print_rune (c # s) @ print_chars (next_rune (c # s))"

declare print_chars.simps(2) [simp del]

definition print_string :: "string \<Rightarrow> string" where
  "print_string s = quote_mark # print_chars s @ [quote_mark]"

definition syntax_error :: gerror where
  "syntax_error = ErrText ''json: syntax error''"

text \<open>Four hexadecimal digits; a high surrogate needs an escaped low one behind it.\<close>

fun hex4 :: "string \<Rightarrow> nat option" where
  "hex4 (a # b # c # d # s) =
     (case (hex_val a, hex_val b, hex_val c, hex_val d) of
        (Some a, Some b, Some c, Some d) \<Rightarrow> Some (((a * 16 + b) * 16 + c) * 16 + d)
      | _ \<Rightarrow> None)"
| "hex4 _ = None"

definition low_surrogate :: "string \<Rightarrow> nat option" where
  "low_surrogate s =
     (if take 2 s = [backslash, CHR ''u'']
      then (case hex4 (drop 2 s) of
              Some u \<Rightarrow> if 0xDC00 \<le> u \<and> u \<le> 0xDFFF then Some u else None
            | None \<Rightarrow> None)
      else None)"

definition simple_escape :: "char \<Rightarrow> char option" where
  "simple_escape c =
     map_of [(quote_mark, quote_mark), (backslash, backslash), (CHR ''/'', CHR ''/''), (CHR ''b'', CHR 0x08),
       (CHR ''f'', CHR 0x0C), (CHR ''n'', CHR 0x0A), (CHR ''r'', CHR 0x0D), (CHR ''t'', CHR 0x09)] c"

definition unescape :: "nat \<Rightarrow> string \<Rightarrow> string \<times> string" where
  "unescape u s =
     (if 0xD800 \<le> u \<and> u \<le> 0xDFFF
      then (case (if u \<le> 0xDBFF then low_surrogate s else None) of
              Some v \<Rightarrow> (utf8_encode (0x10000 + (u - 0xD800) * 1024 + (v - 0xDC00)), drop 6 s)
            | None \<Rightarrow> (replacement, s))
      else (utf8_encode u, s))"

text \<open>One character of a string literal: its bytes and the rest.\<close>

definition scan_rune :: "string \<Rightarrow> (string \<times> string) res" where
  "scan_rune s =
     (if hd s = backslash
      then (case tl s of
              [] \<Rightarrow> Inl syntax_error
            | c # r \<Rightarrow>
                if c = CHR ''u''
                then (case hex4 r of None \<Rightarrow> Inl syntax_error | Some u \<Rightarrow> Inr (unescape u (drop 4 r)))
                else (case simple_escape c of None \<Rightarrow> Inl syntax_error | Some e \<Rightarrow> Inr ([e], r)))
      else if byte_of (hd s) < 0x20 then Inl syntax_error
      else Inr (first_rune s, next_rune s))"

lemma scan_rune_shorter:
  assumes "scan_rune (c # s) = Inr (x, r)"
  shows "length r \<le> length s"
proof -
  have "length (snd (unescape u t)) \<le> length t" for u t
    by (auto simp: unescape_def split: option.split)
  then have u: "length (snd (unescape u (drop 4 t))) \<le> length t" for u t
    by (metis (no_types) diff_le_self dual_order.trans length_drop)
  have n: "length (next_rune (c # s)) \<le> length s"
    using next_rune_less [of c s] by linarith
  from assms u n show ?thesis
    by (auto simp: scan_rune_def split: if_splits list.splits option.splits) (metis le_SucI snd_conv)+
qed

text \<open>The contents of a string literal up to its closing quote, and the rest.\<close>

function scan_string :: "string \<Rightarrow> (string \<times> string) res" where
  "scan_string [] = Inl syntax_error"
| "scan_string (c # s) =
     (if c = quote_mark then Inr ([], s)
      else case scan_rune (c # s) of
        Inl err \<Rightarrow> Inl err
      | Inr (x, r) \<Rightarrow> map_sum id (\<lambda>(y, r). (x @ y, r)) (scan_string r))"
  by pat_completeness auto
termination
  by (relation "measure length") (auto dest: scan_rune_shorter)

declare scan_string.simps(2) [simp del]

lemma map_sum_Inr: "map_sum f g x = Inr y \<longleftrightarrow> (\<exists>z. x = Inr z \<and> y = g z)"
  by (cases x) auto

lemma scan_string_shorter: "scan_string s = Inr (x, r) \<Longrightarrow> length r < length s"
proof (induction s arbitrary: x r rule: scan_string.induct)
  case (2 c s)
  show ?case
  proof (cases "c = quote_mark")
    case True
    with 2(2) show ?thesis by (simp add: scan_string.simps)
  next
    case False
    with 2(2) obtain y r1 z where
      s: "scan_rune (c # s) = Inr (y, r1)" "scan_string r1 = Inr (z, r)"
      by (auto simp: scan_string.simps(2) map_sum_Inr split: sum.splits)
    from 2(1) [OF False s(1) refl s(2)] scan_rune_shorter [OF s(1)] show ?thesis by simp
  qed
qed simp

section \<open>Strings are read back\<close>

lemma rune_len_cases:
  "rune_len (c # s) = 0 \<or> byte_of c < 0x80 \<and> rune_len (c # s) = 1 \<or>
   0x80 \<le> byte_of c \<and> 2 \<le> rune_len (c # s)"
  by (auto simp: Let_def split: list.split)

lemma rune_len_take: "rune_len s \<noteq> 0 \<Longrightarrow> rune_len (take (rune_len s) s @ t) = rune_len s"
  by (cases s) (auto simp: Let_def numeral_eq_Suc split: list.splits if_splits)

lemma hex_val_digit: "n < 16 \<Longrightarrow> hex_val (hex_digit n) = Some n"
  by (auto simp: hex_val_def hex_digit_def byte_of_def Let_def)

lemma byte_of_less: "byte_of c < 256"
  by (simp add: byte_of_def of_char_def) 

definition short_escaped :: "char \<Rightarrow> bool" where
  "short_escaped c \<longleftrightarrow> c = quote_mark \<or> c = backslash \<or> c \<in> set [CHR 0x08, CHR 0x0C, CHR 0x0A, CHR 0x0D, CHR 0x09]"

lemma escape_char_cases:
  obtains (short) "short_escaped c"
    | (code) "escape_char c = [backslash, CHR ''u'', CHR ''0'', CHR ''0'',
        hex_digit (byte_of c div 16), hex_digit (byte_of c mod 16)]"
    | (plain) "escape_char c = [c]" "c \<noteq> quote_mark" "c \<noteq> backslash" "0x20 \<le> byte_of c"
proof (cases "short_escaped c")
  case False
  then show ?thesis
    by (cases "byte_of c < 0x20 \<or> c \<in> set ''<>&''")
      (rule code, simp add: escape_char_def short_escaped_def, rule plain,
        simp_all add: escape_char_def short_escaped_def)
qed (rule short)

lemma scan_escape:
  assumes "byte_of c < 0x80"
  shows "scan_rune (escape_char c @ t) = Inr ([c], t)" "escape_char c \<noteq> []" "hd (escape_char c) \<noteq> quote_mark"
proof -
  show "escape_char c \<noteq> []" by (simp add: escape_char_def)
  show "hd (escape_char c) \<noteq> quote_mark"
    by (simp add: escape_char_def backslash_def quote_mark_def)
  from escape_char_cases [of c] show "scan_rune (escape_char c @ t) = Inr ([c], t)"
  proof cases
    case short
    then show ?thesis unfolding short_escaped_def list.set insert_iff empty_iff
      by (elim disjE) (simp_all add: escape_char_def scan_rune_def simple_escape_def backslash_def quote_mark_def)
  next
    case code
    have h: "hex_val (hex_digit (byte_of c div 16)) = Some (byte_of c div 16)"
      "hex_val (hex_digit (byte_of c mod 16)) = Some (byte_of c mod 16)"
      "hex_val CHR ''0'' = Some 0"
      using byte_of_less [of c] by (simp_all add: hex_val_digit) (simp add: hex_val_def byte_of_def)
    have u: "unescape (byte_of c) t = ([c], t)"
      using assms by (simp add: unescape_def utf8_encode_def) (simp add: byte_of_def)
    show ?thesis using u by (simp add: code scan_rune_def h div_mult_mod_eq)
  next
    case plain
    have "rune_len (c # t) = 1" using assms by (simp add: Let_def)
    with plain show ?thesis by (simp add: scan_rune_def first_rune_def next_rune_def del: rune_len.simps)
  qed
qed

lemma scan_rune_print:
  "scan_rune (print_rune (c # s) @ t) = Inr (first_rune (c # s), t)"
  "print_rune (c # s) \<noteq> []" "hd (print_rune (c # s)) \<noteq> quote_mark"
proof -
  have "scan_rune (print_rune (c # s) @ t) = Inr (first_rune (c # s), t) \<and>
      print_rune (c # s) \<noteq> [] \<and> hd (print_rune (c # s)) \<noteq> quote_mark"
    using rune_len_cases [of c s]
  proof (elim disjE conjE)
    assume z: "rune_len (c # s) = 0"
    have char: "char_of (239 :: nat) = CHR 0xEF" "char_of (191 :: nat) = CHR 0xBF" "char_of (189 :: nat) = CHR 0xBD"
      by code_simp+
    have h: "hex4 (''fffd'' @ t) = Some 0xFFFD" by (simp add: hex_val_def byte_of_def)
    show ?thesis using h
      by (simp add: print_rune_def z scan_rune_def unescape_def utf8_encode_def first_rune_def
          replacement_def backslash_def quote_mark_def char del: rune_len.simps hex4.simps)
  next
    assume "byte_of c < 0x80" "rune_len (c # s) = 1"
    then show ?thesis
      using scan_escape [of c] by (simp add: print_rune_def first_rune_def del: rune_len.simps)
  next
    assume b: "0x80 \<le> byte_of c" and n: "2 \<le> rune_len (c # s)"
    have char: "char_of (226 :: nat) = CHR 0xE2" "char_of (128 :: nat) = CHR 0x80"
        "char_of (168 :: nat) = CHR 0xA8" "char_of (169 :: nat) = CHR 0xA9"
      by code_simp+
    have h: "hex4 (''2028'' @ t) = Some 0x2028" "hex4 (''2029'' @ t) = Some 0x2029"
      by (simp_all add: hex_val_def byte_of_def)
    have sep: "rune_len (c # s) = 3" if "take 3 (c # s) = [CHR 0xE2, CHR 0x80, d]" for d
      using that n by (auto simp: numeral_eq_Suc Let_def byte_of_def split: list.splits if_splits)
    have plain: "print_rune (c # s) = take (rune_len (c # s)) (c # s)"
      if "take 3 (c # s) \<noteq> [CHR 0xE2, CHR 0x80, CHR 0xA8]" "take 3 (c # s) \<noteq> [CHR 0xE2, CHR 0x80, CHR 0xA9]"
    proof -
      have "rune_len (c # s) \<noteq> 0" "rune_len (c # s) \<noteq> 1" using n by linarith+
      with that show ?thesis by (simp only: print_rune_def if_False)
    qed
    consider "take 3 (c # s) = [CHR 0xE2, CHR 0x80, CHR 0xA8]"
      | "take 3 (c # s) = [CHR 0xE2, CHR 0x80, CHR 0xA9]"
      | "print_rune (c # s) = take (rune_len (c # s)) (c # s)"
      using plain by blast
    then show ?thesis
    proof cases
      case 1
      have r: "rune_len (c # s) = 3" by (rule sep [OF 1])
      have pr: "print_rune (c # s) = backslash # ''u2028''"
        unfolding print_rune_def r 1 by simp
      have fr: "first_rune (c # s) = [CHR 0xE2, CHR 0x80, CHR 0xA8]"
        unfolding first_rune_def r 1 by simp
      from h show ?thesis unfolding pr fr
        by (simp add: scan_rune_def unescape_def utf8_encode_def backslash_def quote_mark_def char
            del: hex4.simps)
    next
      case 2
      have r: "rune_len (c # s) = 3" by (rule sep [OF 2])
      have pr: "print_rune (c # s) = backslash # ''u2029''"
        unfolding print_rune_def r 2 by simp
      have fr: "first_rune (c # s) = [CHR 0xE2, CHR 0x80, CHR 0xA9]"
        unfolding first_rune_def r 2 by simp
      from h show ?thesis unfolding pr fr
        by (simp add: scan_rune_def unescape_def utf8_encode_def backslash_def quote_mark_def char
            del: hex4.simps)
    next
      case 3
      obtain s' where s': "print_rune (c # s) = c # s'" using 3 n by (cases "rune_len (c # s)") (auto simp del: rune_len.simps)
      have "c \<noteq> backslash" "c \<noteq> quote_mark" "\<not> byte_of c < 0x20"
        using b by (auto simp: backslash_def quote_mark_def byte_of_def)
      moreover have "rune_len (print_rune (c # s) @ t) = rune_len (c # s)"
        "length (print_rune (c # s)) = rune_len (c # s)"
        unfolding 3 using n rune_len_le [of "c # s"] by (auto intro: rune_len_take simp del: rune_len.simps)
      moreover from this have "first_rune (print_rune (c # s) @ t) = print_rune (c # s)"
        "next_rune (print_rune (c # s) @ t) = t" "first_rune (c # s) = print_rune (c # s)"
        using n unfolding 3 by (simp_all add: first_rune_def next_rune_def del: rune_len.simps)
      ultimately show ?thesis
        by (simp add: s' scan_rune_def del: rune_len.simps)
    qed
  qed
  then show "scan_rune (print_rune (c # s) @ t) = Inr (first_rune (c # s), t)"
    "print_rune (c # s) \<noteq> []" "hd (print_rune (c # s)) \<noteq> quote_mark" by auto
qed

lemma scan_string_print: "scan_string (print_chars s @ quote_mark # t) = Inr (to_valid s, t)"
proof (induction s rule: print_chars.induct)
  case 1
  show ?case by (simp add: scan_string.simps(2))
next
  case (2 c s)
  let ?more = "print_chars (next_rune (c # s)) @ quote_mark # t"
  obtain d r where p: "print_rune (c # s) = d # r" "d \<noteq> quote_mark"
    using scan_rune_print(2,3) [of c s] by (cases "print_rune (c # s)") auto
  have "scan_rune (d # r @ ?more) = Inr (first_rune (c # s), ?more)"
    using scan_rune_print(1) [of c s ?more] p by simp
  with 2 p show ?case
    by (simp add: print_chars.simps(2) to_valid.simps(2) scan_string.simps(2))
qed

text \<open>What is printed has no control characters.\<close>

lemma hex_digit_graphic: "n < 16 \<Longrightarrow> 0x20 \<le> byte_of (hex_digit n)"
  by (simp add: hex_digit_def byte_of_def)

lemma escape_char_graphic:
  assumes "d \<in> set (escape_char c)"
  shows "0x20 \<le> byte_of d"
proof (cases c rule: escape_char_cases)
  case short
  with assms show ?thesis unfolding short_escaped_def list.set insert_iff empty_iff
    by (elim disjE) (auto simp: escape_char_def backslash_def quote_mark_def byte_of_def)
next
  case code
  have "byte_of c div 16 < 16" "byte_of c mod 16 < 16" using byte_of_less [of c] by simp_all
  from this [THEN hex_digit_graphic] show ?thesis
    using assms by (auto simp: code backslash_def byte_of_def)
next
  case plain
  with assms show ?thesis by simp
qed

lemma second_ok_high: "second_ok c d \<Longrightarrow> 0x80 \<le> byte_of d"
  by (simp add: second_ok_def second_range_def split: if_splits)

lemma rune_bytes_high:
  assumes "2 \<le> rune_len (c # s)" "x \<in> set (take (rune_len (c # s)) (c # s))"
  shows "0x80 \<le> byte_of x"
proof -
  have c: "0x80 \<le> byte_of c" using assms(1) rune_len_cases [of c s] by auto
  consider d r where "s = d # r" "rune_len (c # s) = 2" "cont_byte d"
    | d e r where "s = d # e # r" "rune_len (c # s) = 3" "second_ok c d" "cont_byte e"
    | d e f r where "s = d # e # f # r" "rune_len (c # s) = 4" "second_ok c d" "cont_byte e" "cont_byte f"
    using assms(1) by (auto simp: Let_def split: if_splits list.splits)
  then show ?thesis
  proof cases
    case 1
    with assms(2) c show ?thesis by (auto simp: cont_byte_def simp del: rune_len.simps)
  next
    case 2
    with assms(2) c show ?thesis
      by (auto simp: cont_byte_def numeral_eq_Suc dest: second_ok_high simp del: rune_len.simps)
  next
    case 3
    with assms(2) c show ?thesis
      by (auto simp: cont_byte_def numeral_eq_Suc dest: second_ok_high simp del: rune_len.simps)
  qed
qed

lemma print_chars_graphic: "c \<in> set (print_chars s) \<Longrightarrow> 0x20 \<le> byte_of c"
proof (induction s rule: print_chars.induct)
  case (2 x s)
  have "0x20 \<le> byte_of d" if d: "d \<in> set (print_rune (x # s))" for d
    using rune_len_cases [of x s]
  proof (elim disjE conjE)
    assume "rune_len (x # s) = 0"
    with d show ?thesis by (auto simp: print_rune_def backslash_def byte_of_def simp del: rune_len.simps)
  next
    assume "byte_of x < 0x80" "rune_len (x # s) = 1"
    with d show ?thesis using escape_char_graphic [of d x] by (simp add: print_rune_def del: rune_len.simps)
  next
    assume n: "0x80 \<le> byte_of x" "2 \<le> rune_len (x # s)"
    then have "print_rune (x # s) \<in> {backslash # ''u2028'', backslash # ''u2029'', take (rune_len (x # s)) (x # s)}"
      by (simp add: print_rune_def del: rune_len.simps take_Suc_Cons)
    with d rune_bytes_high [OF n(2), of d] show ?thesis
      by (auto simp: backslash_def byte_of_def simp del: rune_len.simps)
  qed
  with 2 show ?case by (auto simp: print_chars.simps(2))
qed simp

section \<open>Tokens\<close>

datatype token =
    TBeginArray | TEndArray | TBeginObject | TEndObject | TComma | TColon
  | TNull | TTrue | TFalse | TNumber string | TString string

definition number_char :: "char \<Rightarrow> bool" where
  "number_char c \<longleftrightarrow> is_digit c \<or> c \<in> set ''+-.eE''"

text \<open>\<open>-?(0|[1-9][0-9]*)(\.[0-9]+)?([eE][+-]?[0-9]+)?\<close>\<close>

definition valid_exponent :: "string \<Rightarrow> bool" where
  "valid_exponent s \<longleftrightarrow>
     (case s of [] \<Rightarrow> True
      | c # r \<Rightarrow>
          let ds = (case r of d # r' \<Rightarrow> if d = CHR ''+'' \<or> d = CHR ''-'' then r' else r | [] \<Rightarrow> [])
          in (c = CHR ''e'' \<or> c = CHR ''E'') \<and> ds \<noteq> [] \<and> list_all is_digit ds)"

definition valid_fraction :: "string \<Rightarrow> bool" where
  "valid_fraction s \<longleftrightarrow>
     (if s \<noteq> [] \<and> hd s = CHR ''.''
      then takeWhile is_digit (tl s) \<noteq> [] \<and> valid_exponent (dropWhile is_digit (tl s))
      else valid_exponent s)"

definition valid_number :: "string \<Rightarrow> bool" where
  "valid_number s \<longleftrightarrow>
     (let s = (if s \<noteq> [] \<and> hd s = CHR ''-'' then tl s else s); ds = takeWhile is_digit s
      in ds \<noteq> [] \<and> (hd ds = CHR ''0'' \<longrightarrow> length ds = 1) \<and> valid_fraction (dropWhile is_digit s))"

definition is_space :: "char \<Rightarrow> bool" where
  "is_space c \<longleftrightarrow> c = CHR 0x20 \<or> c = CHR 0x09 \<or> c = CHR 0x0A \<or> c = CHR 0x0D"

definition punctuation :: "char \<Rightarrow> token option" where
  "punctuation c =
     map_of [(CHR ''['', TBeginArray), (CHR '']'', TEndArray), (CHR ''{'', TBeginObject),
       (CHR ''}'', TEndObject), (CHR '','', TComma), (CHR '':'', TColon)] c"

definition keyword :: "string \<Rightarrow> (token \<times> nat) option" where
  "keyword s =
     (if has_prefix s ''null'' then Some (TNull, 3)
      else if has_prefix s ''true'' then Some (TTrue, 3)
      else if has_prefix s ''false'' then Some (TFalse, 4)
      else None)"

text \<open>The next token after its first character has been seen, and the rest.\<close>

definition lex_token :: "char \<Rightarrow> string \<Rightarrow> (token \<times> string) res" where
  "lex_token c s =
     (case punctuation c of
        Some t \<Rightarrow> Inr (t, s)
      | None \<Rightarrow>
          if c = quote_mark then map_sum id (\<lambda>(x, r). (TString x, r)) (scan_string s)
          else if number_char c
          then (let lit = c # takeWhile number_char s
                in if valid_number lit then Inr (TNumber lit, dropWhile number_char s) else Inl syntax_error)
          else (case keyword (c # s) of
                  Some (t, n) \<Rightarrow> Inr (t, drop n s)
                | None \<Rightarrow> Inl syntax_error))"

lemma lex_token_shorter: "lex_token c s = Inr (t, r) \<Longrightarrow> length r \<le> length s"
  using scan_string_shorter [of s] length_dropWhile_le [of number_char s]
  by (auto simp: lex_token_def Let_def map_sum_Inr less_imp_le split: option.splits if_splits)

definition prepend :: "'a list \<Rightarrow> 'a list res \<Rightarrow> 'a list res" where
  "prepend xs r = (case r of Inl err \<Rightarrow> Inl err | Inr ys \<Rightarrow> Inr (xs @ ys))"

function lex_json :: "string \<Rightarrow> token list res" where
  "lex_json [] = Inr []"
| "lex_json (c # s) =
     (if is_space c then lex_json s
      else case lex_token c s of
        Inl err \<Rightarrow> Inl err
      | Inr (t, r) \<Rightarrow> prepend [t] (lex_json r))"
  by pat_completeness auto
termination
  by (relation "measure length") (auto dest: lex_token_shorter)

declare lex_json.simps(2) [simp del]

section \<open>Values\<close>

text \<open>
  The reader keeps the open arrays and objects on a stack, whose height is limited; \<open>pstate\<close> is what
  it expects or has just read. Elements and members are kept in reverse order.
\<close>

datatype frame = FArray "json list" | FObject "(string \<times> json) list" string

datatype pstate = WantValue | WantFirst | WantKey | WantFirstKey | WantColon | Have json

definition max_depth :: nat where
  "max_depth = 10000"

definition scalar :: "token \<Rightarrow> json option" where
  "scalar t =
     (case t of
        TNull \<Rightarrow> Some JNull
      | TTrue \<Rightarrow> Some (JBoolean True)
      | TFalse \<Rightarrow> Some (JBoolean False)
      | TNumber lit \<Rightarrow> Some (JNumber lit)
      | TString s \<Rightarrow> Some (JString s)
      | _ \<Rightarrow> None)"

definition begin_value :: "token \<Rightarrow> frame list \<Rightarrow> (pstate \<times> frame list) option" where
  "begin_value t stk =
     (case scalar t of
        Some j \<Rightarrow> Some (Have j, stk)
      | None \<Rightarrow>
          if max_depth \<le> length stk then None
          else if t = TBeginArray then Some (WantFirst, FArray [] # stk)
          else if t = TBeginObject then Some (WantFirstKey, FObject [] [] # stk)
          else None)"

fun read_key :: "token \<Rightarrow> frame list \<Rightarrow> (pstate \<times> frame list) option" where
  "read_key (TString k) (FObject kvs _ # stk) = Some (WantColon, FObject kvs k # stk)"
| "read_key _ _ = None"

fun after_value :: "json \<Rightarrow> token \<Rightarrow> frame list \<Rightarrow> (pstate \<times> frame list) option" where
  "after_value j TComma (FArray js # stk) = Some (WantValue, FArray (j # js) # stk)"
| "after_value j TEndArray (FArray js # stk) = Some (Have (JArray (rev (j # js))), stk)"
| "after_value j TComma (FObject kvs k # stk) = Some (WantKey, FObject ((k, j) # kvs) [] # stk)"
| "after_value j TEndObject (FObject kvs k # stk) = Some (Have (JObject (rev ((k, j) # kvs))), stk)"
| "after_value j _ _ = None"

fun parse_step :: "token \<Rightarrow> pstate \<Rightarrow> frame list \<Rightarrow> (pstate \<times> frame list) option" where
  "parse_step t WantValue stk = begin_value t stk"
| "parse_step t WantFirst stk =
     (if t = TEndArray then Some (Have (JArray []), tl stk) else begin_value t stk)"
| "parse_step t WantKey stk = read_key t stk"
| "parse_step t WantFirstKey stk =
     (if t = TEndObject then Some (Have (JObject []), tl stk) else read_key t stk)"
| "parse_step t WantColon stk = (if t = TColon then Some (WantValue, stk) else None)"
| "parse_step t (Have j) stk = after_value j t stk"

fun parse_tokens :: "token list \<Rightarrow> pstate \<Rightarrow> frame list \<Rightarrow> json res" where
  "parse_tokens [] st stk =
     (case (st, stk) of (Have j, []) \<Rightarrow> Inr j | _ \<Rightarrow> Inl syntax_error)"
| "parse_tokens (t # ts) st stk =
     (case parse_step t st stk of
        None \<Rightarrow> Inl syntax_error
      | Some (st, stk) \<Rightarrow> parse_tokens ts st stk)"

definition json_scan :: "string \<Rightarrow> json res" where
  "json_scan s = (case lex_json s of Inl err \<Rightarrow> Inl err | Inr ts \<Rightarrow> parse_tokens ts WantValue [])"

section \<open>Printing\<close>

fun commas :: "'a \<Rightarrow> 'a list list \<Rightarrow> 'a list" where
  "commas c [] = []"
| "commas c [x] = x"
| "commas c (x # y # xs) = x @ c # commas c (y # xs)"

primrec json_print :: "json \<Rightarrow> string" where
  "json_print JNull = ''null''"
| "json_print (JBoolean b) = (if b then ''true'' else ''false'')"
| "json_print (JNumber lit) = lit"
| "json_print (JString s) = print_string s"
| "json_print (JArray js) = ''['' @ commas (CHR '','') (map json_print js) @ '']''"
| "json_print (JObject kvs) =
     ''{'' @ commas (CHR '','') (map (\<lambda>(k, x). print_string k @ CHR '':'' # x) (map (map_prod id json_print) kvs)) @ ''}''"

text \<open>The same as tokens.\<close>

primrec tokens :: "json \<Rightarrow> token list" where
  "tokens JNull = [TNull]"
| "tokens (JBoolean b) = [if b then TTrue else TFalse]"
| "tokens (JNumber lit) = [TNumber lit]"
| "tokens (JString s) = [TString s]"
| "tokens (JArray js) = TBeginArray # commas TComma (map tokens js) @ [TEndArray]"
| "tokens (JObject kvs) =
     TBeginObject # commas TComma (map (\<lambda>(k, x). TString k # TColon # x) (map (map_prod id tokens) kvs)) @ [TEndObject]"

text \<open>Values whose numbers and strings have a text, and the nesting.\<close>

primrec textual :: "json \<Rightarrow> bool" where
  "textual JNull = True"
| "textual (JBoolean b) = True"
| "textual (JNumber lit) = (valid_number lit \<and> list_all number_char lit)"
| "textual (JString s) = valid_utf8 s"
| "textual (JArray js) = list_all id (map textual js)"
| "textual (JObject kvs) = list_all (\<lambda>(k, b). valid_utf8 k \<and> b) (map (map_prod id textual) kvs)"

text \<open>
  Values whose numbers have a text; their strings are read back as \<open>as_text\<close> has them, with U+FFFD for
  what is no UTF-8.
\<close>

primrec numeric :: "json \<Rightarrow> bool" where
  "numeric JNull = True"
| "numeric (JBoolean b) = True"
| "numeric (JNumber lit) = (valid_number lit \<and> list_all number_char lit)"
| "numeric (JString s) = True"
| "numeric (JArray js) = list_all id (map numeric js)"
| "numeric (JObject kvs) = list_all snd (map (map_prod id numeric) kvs)"

primrec as_text :: "json \<Rightarrow> json" where
  "as_text JNull = JNull"
| "as_text (JBoolean b) = JBoolean b"
| "as_text (JNumber lit) = JNumber lit"
| "as_text (JString s) = JString (to_valid s)"
| "as_text (JArray js) = JArray (map as_text js)"
| "as_text (JObject kvs) = JObject (map (map_prod to_valid as_text) kvs)"

primrec depth :: "json \<Rightarrow> nat" where
  "depth JNull = 0"
| "depth (JBoolean b) = 0"
| "depth (JNumber lit) = 0"
| "depth (JString s) = 0"
| "depth (JArray js) = Suc (foldr max (map depth js) 0)"
| "depth (JObject kvs) = Suc (foldr max (map snd (map (map_prod id depth) kvs)) 0)"

section \<open>Tokens are read back\<close>

lemma foldr_max_le: "foldr max xs (0 :: nat) \<le> n \<longleftrightarrow> (\<forall>x \<in> set xs. x \<le> n)"
  by (induction xs) auto

definition reads :: "json \<Rightarrow> bool" where
  "reads j \<longleftrightarrow>
     (\<forall>st stk ts. st = WantValue \<or> st = WantFirst \<longrightarrow> depth j + length stk \<le> max_depth \<longrightarrow>
        parse_tokens (tokens j @ ts) st stk = parse_tokens ts (Have j) stk)"

lemma readsD:
  "reads j \<Longrightarrow> depth j + length stk \<le> max_depth \<Longrightarrow>
     parse_tokens (tokens j @ ts) WantValue stk = parse_tokens ts (Have j) stk"
  "reads j \<Longrightarrow> depth j + length stk \<le> max_depth \<Longrightarrow>
     parse_tokens (tokens j @ ts) WantFirst stk = parse_tokens ts (Have j) stk"
  by (simp_all add: reads_def)

lemma reads_elems:
  assumes "\<And>j. j \<in> set (x # js) \<Longrightarrow> reads j \<and> depth j + Suc (length stk) \<le> max_depth"
    and "st = WantValue \<or> st = WantFirst"
  shows "parse_tokens (commas TComma (map tokens (x # js)) @ TEndArray # ts) st (FArray acc # stk) =
    parse_tokens ts (Have (JArray (rev acc @ x # js))) stk"
  using assms
proof (induction js arbitrary: x acc st)
  case Nil
  then show ?case using readsD [of x "FArray acc # stk"] by auto
next
  case (Cons y js)
  have "parse_tokens (tokens x @ TComma # commas TComma (map tokens (y # js)) @ TEndArray # ts) st (FArray acc # stk) =
      parse_tokens (commas TComma (map tokens (y # js)) @ TEndArray # ts) WantValue (FArray (x # acc) # stk)"
    using Cons.prems readsD [of x "FArray acc # stk"] by auto
  with Cons.IH [of y WantValue "x # acc"] Cons.prems(1) show ?case by auto
qed

abbreviation member_tokens :: "string \<times> json \<Rightarrow> token list" where
  "member_tokens kv \<equiv> TString (fst kv) # TColon # tokens (snd kv)"

lemma reads_members:
  assumes "\<And>kv. kv \<in> set (x # kvs) \<Longrightarrow> reads (snd kv) \<and> depth (snd kv) + Suc (length stk) \<le> max_depth"
    and "st = WantKey \<or> st = WantFirstKey"
  shows "parse_tokens (commas TComma (map member_tokens (x # kvs)) @ TEndObject # ts) st (FObject acc k0 # stk) =
    parse_tokens ts (Have (JObject (rev acc @ x # kvs))) stk"
  using assms
proof (induction kvs arbitrary: x acc st k0)
  case Nil
  then show ?case using readsD(1) [of "snd x" "FObject acc (fst x) # stk"] by auto
next
  case (Cons y kvs)
  have "parse_tokens (member_tokens x @ TComma # commas TComma (map member_tokens (y # kvs)) @ TEndObject # ts) st
        (FObject acc k0 # stk) =
      parse_tokens (commas TComma (map member_tokens (y # kvs)) @ TEndObject # ts) WantKey (FObject (x # acc) [] # stk)"
    using Cons.prems readsD(1) [of "snd x" "FObject acc (fst x) # stk"] by auto
  with Cons.IH [of y WantKey "x # acc"] Cons.prems(1) show ?case by auto
qed

lemma object_tokens:
  "tokens (JObject kvs) = TBeginObject # commas TComma (map member_tokens kvs) @ [TEndObject]"
  by (simp add: comp_def case_prod_beta)

lemma reads_all: "reads j"
proof (induction j)
  case (JArray js)
  show ?case
    unfolding reads_def
  proof (intro allI impI)
    fix st and stk :: "frame list" and ts
    assume a: "st = WantValue \<or> st = WantFirst" "depth (JArray js) + length stk \<le> max_depth"
    then have l: "\<not> max_depth \<le> length stk"
      and d: "\<And>j. j \<in> set js \<Longrightarrow> reads j \<and> depth j + Suc (length stk) \<le> max_depth"
      using JArray foldr_max_le [of "map depth js" "max_depth - Suc (length stk)"] by auto
    show "parse_tokens (tokens (JArray js) @ ts) st stk = parse_tokens ts (Have (JArray js)) stk"
    proof (cases js)
      case Nil
      with a l show ?thesis by (auto simp: begin_value_def scalar_def)
    next
      case (Cons x xs)
      with reads_elems [of x xs stk WantFirst ts "[]"] d a l show ?thesis
        by (auto simp: begin_value_def scalar_def simp del: commas.simps)
    qed
  qed
next
  case (JObject kvs)
  show ?case
    unfolding reads_def
  proof (intro allI impI)
    fix st and stk :: "frame list" and ts
    assume a: "st = WantValue \<or> st = WantFirst" "depth (JObject kvs) + length stk \<le> max_depth"
    then have l: "\<not> max_depth \<le> length stk"
      and d: "\<And>kv. kv \<in> set kvs \<Longrightarrow> reads (snd kv) \<and> depth (snd kv) + Suc (length stk) \<le> max_depth"
      using JObject foldr_max_le [of "map snd (map (map_prod id depth) kvs)" "max_depth - Suc (length stk)"]
      by (auto simp: snds.simps)
    show "parse_tokens (tokens (JObject kvs) @ ts) st stk = parse_tokens ts (Have (JObject kvs)) stk"
    proof (cases kvs)
      case Nil
      with a l show ?thesis by (auto simp: begin_value_def scalar_def)
    next
      case (Cons x xs)
      with reads_members [of x xs stk WantFirstKey ts "[]" "[]"] d a l show ?thesis
        unfolding object_tokens by (auto simp: begin_value_def scalar_def simp del: commas.simps)
    qed
  qed
qed (auto simp: reads_def begin_value_def scalar_def)

section \<open>Text is read back\<close>

definition emits :: "string \<Rightarrow> token list \<Rightarrow> bool" where
  "emits x ts \<longleftrightarrow>
     (\<forall>s. s = [] \<or> \<not> number_char (hd s) \<longrightarrow> lex_json (x @ s) = prepend ts (lex_json s))"

lemma emitsD: "emits x ts \<Longrightarrow> s = [] \<or> \<not> number_char (hd s) \<Longrightarrow> lex_json (x @ s) = prepend ts (lex_json s)"
  unfolding emits_def by blast

lemma prepend_simps [simp]:
  "prepend [] r = r" "prepend xs (Inr ys) = Inr (xs @ ys)" "prepend xs (prepend ys r) = prepend (xs @ ys) r"
  by (simp_all add: prepend_def split: sum.split)

lemma lex_punctuation:
  assumes "punctuation c = Some t"
  shows "lex_json (c # s) = prepend [t] (lex_json s)" "\<not> number_char c"
proof -
  have "\<not> is_space c \<and> \<not> number_char c"
    using assms by (auto simp: punctuation_def is_space_def number_char_def is_digit_def split: if_splits)
  with assms show "lex_json (c # s) = prepend [t] (lex_json s)" "\<not> number_char c"
    by (simp_all add: lex_json.simps(2) lex_token_def)
qed

lemma punctuations:
  "punctuation (CHR '','') = Some TComma" "punctuation (CHR '':'') = Some TColon"
  "punctuation (CHR ''['') = Some TBeginArray" "punctuation (CHR '']'') = Some TEndArray"
  "punctuation (CHR ''{'') = Some TBeginObject" "punctuation (CHR ''}'') = Some TEndObject"
  by (simp_all add: punctuation_def)

lemmas lex_punctuations [simp] = punctuations [THEN lex_punctuation(1)] punctuations [THEN lex_punctuation(2)]

lemma lex_string: "lex_json (print_string x @ s) = prepend [TString (to_valid x)] (lex_json s)"
proof -
  have "\<not> is_space quote_mark \<and> punctuation quote_mark = None"
    by (simp add: is_space_def punctuation_def quote_mark_def)
  then show ?thesis
    by (simp add: print_string_def lex_json.simps(2) lex_token_def scan_string_print)
qed

lemma emits_keywords: "emits ''null'' [TNull]" "emits ''true'' [TTrue]" "emits ''false'' [TFalse]"
  by (simp_all add: emits_def lex_json.simps(2) lex_token_def is_space_def punctuation_def quote_mark_def
      number_char_def is_digit_def keyword_def has_prefix_def)

lemma emits_number:
  assumes "valid_number lit" "list_all number_char lit"
  shows "emits lit [TNumber lit]"
proof -
  obtain c l where lit: "lit = c # l" using assms(1) by (cases lit) (auto simp: valid_number_def Let_def)
  have c: "number_char c" using assms(2) lit by simp
  then have n: "\<not> is_space c" "punctuation c = None" "c \<noteq> quote_mark"
    by (auto simp: is_space_def punctuation_def quote_mark_def number_char_def is_digit_def)
  have "takeWhile number_char (l @ s) = l" "dropWhile number_char (l @ s) = s"
    if "s = [] \<or> \<not> number_char (hd s)" for s
    using assms(2) that lit by (cases s; auto simp: list_all_iff)+
  with c n assms(1) lit show ?thesis
    by (auto simp: emits_def lex_json.simps(2) lex_token_def)
qed

lemma emits_commas:
  "(\<And>x. x \<in> set xs \<Longrightarrow> emits (f x) (g x)) \<Longrightarrow>
     emits (commas (CHR '','') (map f xs)) (commas TComma (map g xs))"
proof (induction xs rule: induct_list012)
  case 1
  show ?case by (simp add: emits_def)
next
  case (3 x y zs)
  have e: "emits (commas (CHR '','') (map f (y # zs))) (commas TComma (map g (y # zs)))"
    using 3 by simp
  show ?case
    unfolding emits_def
  proof (intro allI impI)
    fix s :: string
    assume s: "s = [] \<or> \<not> number_char (hd s)"
    have "emits (f x) (g x)" using 3(3) by simp
    from emitsD [OF this, of "CHR '','' # commas (CHR '','') (map f (y # zs)) @ s"] emitsD [OF e s]
    show "lex_json (commas (CHR '','') (map f (x # y # zs)) @ s) =
        prepend (commas TComma (map g (x # y # zs))) (lex_json s)"
      by simp
  qed
qed simp

lemma emits_enclosed:
  assumes "emits x ts" "punctuation a = Some ta" "punctuation b = Some tb"
  shows "emits ([a] @ x @ [b]) (ta # ts @ [tb])"
  unfolding emits_def
  using emitsD [OF assms(1), of "b # s" for s] assms(2,3) [THEN lex_punctuation(1)]
    assms(3) [THEN lex_punctuation(2)]
  by simp

lemma emits_member_out:
  "emits x ts \<Longrightarrow> emits (print_string k @ CHR '':'' # x) (TString (to_valid k) # TColon # ts)"
  unfolding emits_def by (simp add: lex_string)

lemma emits_out: "numeric j \<Longrightarrow> emits (json_print j) (tokens (as_text j))"
proof (induction j)
  case (JString s)
  then show ?case by (auto simp: emits_def lex_string)
next
  case (JArray js)
  then have "emits (commas (CHR '','') (map json_print js)) (commas TComma (map (tokens \<circ> as_text) js))"
    by (intro emits_commas) (auto simp: list_all_iff)
  from emits_enclosed [OF this punctuations(3,4)] show ?case by simp
next
  case (JObject kvs)
  have "emits (commas (CHR '','') (map (\<lambda>kv. print_string (fst kv) @ CHR '':'' # json_print (snd kv)) kvs))
      (commas TComma (map (\<lambda>kv. TString (to_valid (fst kv)) # TColon # tokens (as_text (snd kv))) kvs))"
  proof (rule emits_commas)
    fix kv assume kv: "kv \<in> set kvs"
    then have "numeric (snd kv)" using JObject.prems by (auto simp: list_all_iff)
    with JObject.IH [OF kv, of "snd kv"] show "emits (print_string (fst kv) @ CHR '':'' # json_print (snd kv))
        (TString (to_valid (fst kv)) # TColon # tokens (as_text (snd kv)))"
      by (intro emits_member_out) (simp_all add: snds.simps)
  qed
  from emits_enclosed [OF this punctuations(5,6)] show ?case
    by (simp add: comp_def case_prod_beta)
qed (simp_all add: emits_keywords emits_number)

lemma depth_as_text [simp]: "depth (as_text j) = depth j"
proof (induction j)
  case (JArray js)
  then have "map (depth \<circ> as_text) js = map depth js" by simp
  then show ?case by (simp del: map_eq_conv)
next
  case (JObject kvs)
  then have "map (depth \<circ> as_text \<circ> snd) kvs = map (depth \<circ> snd) kvs" by (auto simp: snds.simps)
  then show ?case by (simp add: comp_def del: map_eq_conv)
qed simp_all

lemma textual_numeric: "textual j \<Longrightarrow> numeric j \<and> as_text j = j"
proof (induction j)
  case (JArray js)
  then show ?case by (auto simp: list_all_iff intro: map_idI)
next
  case (JObject kvs)
  have "numeric (snd kv) \<and> map_prod to_valid as_text kv = kv" if "kv \<in> set kvs" for kv
    using JObject.IH [OF that, of "snd kv"] JObject.prems that
    by (cases kv) (auto simp: list_all_iff valid_utf8_def snds.simps)
  then show ?case by (auto simp: list_all_iff intro: map_idI)
qed (simp_all add: valid_utf8_def)

lemma emits_print: "textual j \<Longrightarrow> emits (json_print j) (tokens j)"
  using emits_out [of j] textual_numeric [of j] by simp

lemma emits_member:
  "emits x ts \<Longrightarrow> valid_utf8 k \<Longrightarrow> emits (print_string k @ CHR '':'' # x) (TString k # TColon # ts)"
  using emits_member_out [of x ts k] by (simp add: valid_utf8_def)

text \<open>
  What is printed is read back, with white space behind it, when the text exists and is not nested
  too deep.
\<close>

lemma json_scan_out:
  assumes "numeric j" "depth j \<le> max_depth" "list_all is_space ws"
  shows "json_scan (json_print j @ ws) = Inr (as_text j)"
proof -
  have ws: "lex_json ws = Inr []" using assms(3) by (induction ws) (simp_all add: lex_json.simps(2))
  have "ws = [] \<or> \<not> number_char (hd ws)"
    using assms(3) by (cases ws) (auto simp: is_space_def number_char_def is_digit_def)
  from emitsD [OF emits_out [OF assms(1)] this] have "lex_json (json_print j @ ws) = Inr (tokens (as_text j))"
    by (simp add: ws)
  moreover have "parse_tokens (tokens (as_text j) @ []) WantValue [] = parse_tokens [] (Have (as_text j)) []"
    using reads_all [of "as_text j"] assms(2) by (intro readsD) simp_all
  ultimately show ?thesis by (simp add: json_scan_def)
qed

lemma json_scan_print:
  assumes "textual j" "depth j \<le> max_depth" "list_all is_space ws"
  shows "json_scan (json_print j @ ws) = Inr j"
  using json_scan_out [OF _ assms(2,3)] textual_numeric [OF assms(1)] by simp

section \<open>The text of the engine's values\<close>

lemma number_char_digit: "is_digit c \<Longrightarrow> number_char c" "number_char CHR ''-''"
  by (simp_all add: number_char_def)

lemma number_char_graphic: "number_char c \<Longrightarrow> 0x20 \<le> byte_of c"
  by (auto simp: number_char_def is_digit_def byte_of_def)

lemma commas_set: "set (commas c xs) \<subseteq> insert c (\<Union> (set ` set xs))"
  by (induction xs rule: induct_list012) auto

lemma print_string_graphic: "c \<in> set (print_string s) \<Longrightarrow> 0x20 \<le> byte_of c"
  by (auto simp: print_string_def quote_mark_def byte_of_def dest: print_chars_graphic)

text \<open>Plain text is printed as it is.\<close>

definition plain_char :: "char \<Rightarrow> bool" where
  "plain_char c \<longleftrightarrow> 0x20 \<le> byte_of c \<and> byte_of c < 0x80 \<and> c \<notin> {quote_mark, backslash} \<union> set ''<>&''"

lemma print_plain: "list_all plain_char s \<Longrightarrow> print_string s = quote_mark # s @ [quote_mark]"
proof -
  assume "list_all plain_char s"
  then have "print_chars s = s"
  proof (induction s)
    case (Cons c s)
    then have c: "plain_char c" by simp
    then have "rune_len (c # s) = 1" by (simp add: plain_char_def Let_def)
    moreover have "escape_char c = [c]"
      using c by (simp add: plain_char_def escape_char_def byte_of_def)
        (auto simp: byte_of_def)
    ultimately show ?case
      using Cons by (simp add: print_chars.simps(2) print_rune_def next_rune_def del: rune_len.simps)
  qed simp
  then show ?thesis by (simp add: print_string_def)
qed

lemma valid_utf8_plain: "list_all plain_char s \<Longrightarrow> valid_utf8 s"
  by (rule valid_utf8_ascii) (simp add: list_all_iff plain_char_def)

text \<open>The text is one line.\<close>

lemma json_out_graphic: "numeric j \<Longrightarrow> c \<in> set (json_print j) \<Longrightarrow> 0x20 \<le> byte_of c"
proof (induction j)
  case (JNumber lit)
  then show ?case by (auto simp: list_all_iff intro: number_char_graphic)
next
  case (JArray js)
  have "0x20 \<le> byte_of c" if "j \<in> set js" "c \<in> set (json_print j)" for j
    using JArray that by (auto simp: list_all_iff)
  moreover have "c \<in> set ''[],'' \<or> (\<exists>j \<in> set js. c \<in> set (json_print j))"
    using JArray.prems(2) commas_set [of "CHR '',''" "map json_print js"] by auto
  ultimately show ?case by (auto simp: byte_of_def)
next
  case (JObject kvs)
  have "0x20 \<le> byte_of c" if "kv \<in> set kvs" "c \<in> set (json_print (snd kv))" for kv
    using JObject.IH [OF that(1), of "snd kv"] JObject.prems(1) that
    by (auto simp: list_all_iff case_prod_beta snds.simps)
  moreover have "c \<in> set ''{},:'' \<or>
      (\<exists>kv \<in> set kvs. c \<in> set (print_string (fst kv)) \<or> c \<in> set (json_print (snd kv)))"
    using JObject.prems(2)
      commas_set [of "CHR '',''" "map (\<lambda>(k, x). print_string k @ CHR '':'' # x) (map (map_prod id json_print) kvs)"]
    by (auto simp: case_prod_beta split: if_splits)
  ultimately show ?case using print_string_graphic by (fastforce simp: byte_of_def)
qed (use print_string_graphic in \<open>fastforce simp: byte_of_def split: if_splits\<close>)+

lemma json_print_graphic: "textual j \<Longrightarrow> c \<in> set (json_print j) \<Longrightarrow> 0x20 \<le> byte_of c"
  using json_out_graphic textual_numeric by blast

lemma valid_number_nat_str: "valid_number (nat_str n)" "valid_number (CHR ''-'' # nat_str n)"
proof -
  note d = nat_str_digits [of n]
  have t: "takeWhile is_digit (nat_str n) = nat_str n" "dropWhile is_digit (nat_str n) = []"
    using d by (auto simp: takeWhile_eq_all_conv dropWhile_eq_Nil_conv list_all_iff)
  have z: "hd (nat_str n) = CHR ''0'' \<Longrightarrow> length (nat_str n) = 1"
    using nat_str_lead [of n] by (cases "n = 0") (simp_all add: nat_str.simps [of 0])
  have "hd (nat_str n) \<noteq> CHR ''-''" using nat_str_hd [of n] by auto
  then show "valid_number (nat_str n)" "valid_number (CHR ''-'' # nat_str n)"
    using z d by (simp_all add: valid_number_def valid_fraction_def valid_exponent_def t list_all_iff)
qed

lemma textual_itoa [simp]: "valid_number (itoa i)" "list_all number_char (itoa i)"
proof -
  show "valid_number (itoa i)" by (simp add: itoa_def valid_number_nat_str)
  show "list_all number_char (itoa i)"
    using itoa_set [of _ i] number_char_digit by (auto simp: list_all_iff)
qed

lemma valid_float_parts:
  assumes "float_parts t dk"
  shows "valid_number t \<and> valid_number (CHR ''-'' # t) \<and> list_all number_char t"
proof -
  from assms obtain ip fp ex where t: "t = ip @ fraction fp @ ex"
    and ip: "list_all is_digit ip" "ip \<noteq> []" "hd ip = CHR ''0'' \<longrightarrow> length ip = 1"
    and fp: "list_all is_digit fp"
    and ex: "ex = [] \<or> (\<exists>c ds. ex = CHR ''e'' # c # ds \<and> c \<in> {CHR ''+'', CHR ''-''} \<and> ds \<noteq> [] \<and> list_all is_digit ds)"
    unfolding float_parts_def by blast
  have stop: "takeWhile is_digit (ds @ s) = ds \<and> dropWhile is_digit (ds @ s) = s"
    if "list_all is_digit ds" "s = [] \<or> \<not> is_digit (hd s)" for ds s
    using that by (cases s) (auto simp: list_all_iff takeWhile_append dropWhile_append takeWhile_eq_all_conv)
  have e: "ex = [] \<or> \<not> is_digit (hd ex)" using ex is_digit_exp by auto
  then have "fraction fp @ ex = [] \<or> \<not> is_digit (hd (fraction fp @ ex))" by (auto simp: fraction_def)
  note digits = stop [OF ip(1) this] stop [OF fp e]
  have "valid_exponent ex" using ex by (auto simp: valid_exponent_def)
  then have "valid_fraction (fraction fp @ ex)"
    using digits(2) ex by (auto simp: valid_fraction_def fraction_def)
  moreover have "hd t \<noteq> CHR ''-''" "t \<noteq> []" using ip by (cases ip; auto simp: t)+
  ultimately have "valid_number t" "valid_number (CHR ''-'' # t)"
    using digits(1) ip unfolding valid_number_def t by simp_all
  moreover have "list_all number_char t"
    using ip fp ex by (auto simp: t fraction_def list_all_iff number_char_def)
  ultimately show ?thesis by simp
qed

lemma float_text_valid:
  assumes "float64 x"
  shows "valid_number (float_text x) \<and> list_all number_char (float_text x)"
proof -
  have p: "float_parts (pos_text y) (shortest y)" if "round64 y = y" "0 < y" "y < float_limit" for y
    using that by (rule pos_text_parts)
  show ?thesis
  proof (cases x "0 :: rat" rule: linorder_cases)
    case equal
    then show ?thesis
      by (simp add: float_text_def valid_number_def valid_fraction_def valid_exponent_def number_char_def is_digit_def)
  next
    case less
    then have "float_parts (pos_text (- x)) (shortest (- x))" using assms by (intro p) (auto simp: float64_def)
    from valid_float_parts [OF this] less show ?thesis by (simp add: float_text_def number_char_def)
  next
    case greater
    then have "float_parts (pos_text x) (shortest x)" using assms by (intro p) (auto simp: float64_def)
    from valid_float_parts [OF this] greater show ?thesis by (simp add: float_text_def)
  qed
qed

lemma textual_enc [simp]:
  "textual (enc_int i)" "depth (enc_int i) = 0" "float64 r \<Longrightarrow> textual (enc_float r)" "depth (enc_float r) = 0"
  by (simp_all add: enc_int_def enc_float_def float_text_valid)

lemma textual_opt [simp]:
  "list_all P (opt_member b k v) \<longleftrightarrow> (b \<longrightarrow> P (k, v))"
  by (simp add: opt_member_def)

end
