(* ===== verification/Go_Json_Cut.thy ===== *)
theory Go_Json_Cut
  imports Go_Json_Text
begin

text \<open>
  JSON text that has been cut off: no beginning of the text of an object, short of the whole, is read
  as a value. What a reader with a size limit gets is all or an error.
\<close>

section \<open>Counting brackets\<close>

definition bracket :: "token \<Rightarrow> int" where
  "bracket t =
     (if t = TBeginArray \<or> t = TBeginObject then 1
      else if t = TEndArray \<or> t = TEndObject then - 1 else 0)"

definition balance :: "token list \<Rightarrow> int" where
  "balance ts = sum_list (map bracket ts)"

lemma balance_simps [simp]:
  "balance [] = 0" "balance (t # ts) = bracket t + balance ts" "balance (ts @ us) = balance ts + balance us"
  by (simp_all add: balance_def)

lemma bracket_simps [simp]:
  "bracket TBeginArray = 1" "bracket TBeginObject = 1" "bracket TEndArray = - 1"
  "bracket TEndObject = - 1" "bracket TComma = 0" "bracket TColon = 0" "bracket TNull = 0"
  "bracket TTrue = 0" "bracket TFalse = 0" "bracket (TNumber l) = 0" "bracket (TString x) = 0"
  by (simp_all add: bracket_def)

text \<open>The height of the stack follows the brackets.\<close>

fun opened :: "pstate \<Rightarrow> bool" where
  "opened WantFirst = True"
| "opened WantFirstKey = True"
| "opened _ = False"

lemma parse_step_height:
  assumes "parse_step t st stk = Some (st', stk')" "opened st \<Longrightarrow> stk \<noteq> []"
  shows "int (length stk') = int (length stk) + bracket t \<and> (opened st' \<longrightarrow> stk' \<noteq> [])"
proof -
  have b: "int (length stk') = int (length stk) + bracket t \<and> (opened st' \<longrightarrow> stk' \<noteq> [])"
    if "begin_value t stk = Some (st', stk')"
    using that by (cases t) (auto simp: begin_value_def scalar_def split: if_splits)
  have k: "int (length stk') = int (length stk) + bracket t \<and> (opened st' \<longrightarrow> stk' \<noteq> [])"
    if "read_key t stk = Some (st', stk')"
    using that by (cases "(t, stk)" rule: read_key.cases) auto
  have a: "int (length stk') = int (length stk) + bracket t \<and> (opened st' \<longrightarrow> stk' \<noteq> [])"
    if "after_value j t stk = Some (st', stk')" for j
    using that by (cases "(j, t, stk)" rule: after_value.cases) auto
  from assms show ?thesis
    using b k a by (cases st) (auto split: if_splits simp: of_nat_diff Suc_le_eq)
qed

lemma parse_balance:
  assumes "parse_tokens ts st stk = Inr j" "opened st \<Longrightarrow> stk \<noteq> []"
  shows "int (length stk) + balance ts = 0"
  using assms
proof (induction ts arbitrary: st stk)
  case Nil
  then show ?case by (auto split: pstate.splits list.splits)
next
  case (Cons t ts)
  then obtain st' stk' where s: "parse_step t st stk = Some (st', stk')" "parse_tokens ts st' stk' = Inr j"
    by (auto split: option.splits)
  from parse_step_height [OF s(1)] Cons.prems(2) have h: "int (length stk') = int (length stk) + bracket t"
    "opened st' \<Longrightarrow> stk' \<noteq> []" by auto
  from Cons.IH [OF s(2) h(2)] h(1) show ?case by simp
qed

lemma parse_nonempty: "parse_tokens ts WantValue [] = Inr j \<Longrightarrow> ts \<noteq> []"
  by auto

section \<open>Beginnings of a text\<close>

text \<open>However the text is cut, it does not close more than it opens.\<close>

definition upright :: "string \<Rightarrow> bool" where
  "upright x \<longleftrightarrow> (\<forall>p q ts. x = p @ q \<longrightarrow> lex_json p = Inr ts \<longrightarrow> 0 \<le> balance ts)"

lemma uprightD: "upright (p @ q) \<Longrightarrow> lex_json p = Inr ts \<Longrightarrow> 0 \<le> balance ts"
  by (auto simp: upright_def)

lemma upright_append:
  assumes "upright x" "emits x ts" "0 \<le> balance ts" "upright y" "y = [] \<or> \<not> number_char (hd y)"
  shows "upright (x @ y)"
  unfolding upright_def
proof (intro allI impI)
  fix p q us
  assume xy: "x @ y = p @ q" and l: "lex_json p = Inr us"
  from xy obtain z where "x = p @ z \<or> p = x @ z \<and> y = z @ q"
    by (auto simp: append_eq_append_conv2)
  then show "0 \<le> balance us"
  proof
    assume "x = p @ z"
    with assms(1) l show ?thesis by (auto intro: uprightD)
  next
    assume z: "p = x @ z \<and> y = z @ q"
    with assms(5) have "z = [] \<or> \<not> number_char (hd z)" by (cases z) auto
    with emitsD [OF assms(2) this] l z obtain vs where "lex_json z = Inr vs" "us = ts @ vs"
      by (auto simp: prepend_def split: sum.splits)
    with assms(3,4) z show ?thesis by (auto dest: uprightD)
  qed
qed

lemma upright_cons:
  assumes "punctuation c = Some t" "0 \<le> bracket t" "upright y"
  shows "upright (c # y)"
  unfolding upright_def
proof (intro allI impI)
  fix p q us
  assume "c # y = p @ q" and l: "lex_json p = Inr us"
  then consider "p = []" | z where "p = c # z" "y = z @ q" by (auto simp: Cons_eq_append_conv)
  then show "0 \<le> balance us"
  proof cases
    case 1
    with l show ?thesis by simp
  next
    case 2
    then obtain vs where "lex_json z = Inr vs" "us = t # vs"
      using l lex_punctuation(1) [OF assms(1)] by (auto simp: prepend_def split: sum.splits)
    with 2 assms(2,3) show ?thesis by (auto dest: uprightD)
  qed
qed

text \<open>A string without its closing quote is an error.\<close>

lemma scan_rune_subset:
  assumes "scan_rune (c # s) = Inr (x, r)"
  shows "set r \<subseteq> set (c # s)"
proof -
  have u: "set (snd (unescape u t)) \<subseteq> set t" for u t
    by (auto simp: unescape_def dest: in_set_dropD split: option.split)
  have n: "set (next_rune (c # s)) \<subseteq> set (c # s)"
    by (auto simp: next_rune_def dest: in_set_dropD)
  have d: "set (drop 4 t) \<subseteq> set t" for t :: string by (auto dest: in_set_dropD)
  show ?thesis
  proof (cases "c = backslash")
    case True
    then obtain e t where s: "s = e # t" using assms by (auto simp: scan_rune_def split: list.splits)
    show ?thesis
    proof (cases "e = CHR ''u''")
      case True
      with assms s \<open>c = backslash\<close> obtain k where "unescape k (drop 4 t) = (x, r)"
        by (auto simp: scan_rune_def split: option.splits)
      then have "r = snd (unescape k (drop 4 t))" by (metis snd_conv)
      with u [of k "drop 4 t"] d [of t] s show ?thesis by auto
    next
      case False
      with assms s \<open>c = backslash\<close> show ?thesis by (auto simp: scan_rune_def split: option.splits)
    qed
  next
    case False
    with assms n show ?thesis by (auto simp: scan_rune_def split: if_splits)
  qed
qed

lemma scan_unclosed: "quote_mark \<notin> set s \<Longrightarrow> scan_string s = Inr (x, r) \<Longrightarrow> False"
proof (induction s arbitrary: x r rule: scan_string.induct)
  case (2 c s)
  then have c: "c \<noteq> quote_mark" by auto
  with 2(3) obtain y r1 z where s: "scan_rune (c # s) = Inr (y, r1)" "scan_string r1 = Inr (z, r)"
    by (auto simp: scan_string.simps(2) map_sum_Inr split: sum.splits)
  have "quote_mark \<notin> set r1" using scan_rune_subset [OF s(1)] 2(2) by auto
  from 2(1) [OF c s(1) refl this s(2)] show False .
qed simp

lemma print_rune_unquoted:
  assumes "print_rune (c # s) = p @ q" "q \<noteq> []"
  shows "quote_mark \<notin> set p"
  using rune_len_cases [of c s]
proof (elim disjE conjE)
  assume "rune_len (c # s) = 0"
  then have "quote_mark \<notin> set (print_rune (c # s))"
    by (simp add: print_rune_def backslash_def quote_mark_def del: rune_len.simps)
  then show ?thesis by (simp add: assms(1))
next
  assume c: "byte_of c < 0x80" "rune_len (c # s) = 1"
  then have e: "escape_char c = p @ q" using assms(1) by (simp add: print_rune_def del: rune_len.simps)
  show ?thesis
  proof (cases c rule: escape_char_cases)
    case short
    then have "\<exists>d. escape_char c = [backslash, d]"
      unfolding short_escaped_def list.set insert_iff empty_iff
      by (elim disjE) (simp_all add: escape_char_def quote_mark_def backslash_def)
    then obtain d where "escape_char c = [backslash, d]" ..
    with e assms(2) have "set p \<subseteq> {backslash}" by (auto simp: Cons_eq_append_conv)
    then show ?thesis by (auto simp: backslash_def quote_mark_def)
  next
    case code
    have "hex_digit n \<noteq> quote_mark" if "n < 16" for n
    proof
      assume "hex_digit n = quote_mark"
      then have "hex_val quote_mark = Some n" using hex_val_digit [OF that] by simp
      then show False by (simp add: hex_val_def quote_mark_def byte_of_def)
    qed
    moreover have "byte_of c div 16 < 16" "byte_of c mod 16 < 16" using byte_of_less [of c] by simp_all
    ultimately have "quote_mark \<noteq> hex_digit (byte_of c div 16)" "quote_mark \<noteq> hex_digit (byte_of c mod 16)"
      by metis+
    then have "quote_mark \<notin> set (escape_char c)"
      unfolding code list.set insert_iff empty_iff
      by (simp add: backslash_def) (simp add: quote_mark_def)
    then show ?thesis by (simp add: e)
  next
    case plain
    with e assms(2) have "p = []" by (auto simp: Cons_eq_append_conv)
    then show ?thesis by simp
  qed
next
  assume n: "0x80 \<le> byte_of c" "2 \<le> rune_len (c # s)"
  then have "print_rune (c # s) \<in> {backslash # ''u2028'', backslash # ''u2029'', take (rune_len (c # s)) (c # s)}"
    by (simp add: print_rune_def del: rune_len.simps take_Suc_Cons)
  then have "quote_mark \<notin> set (print_rune (c # s))"
    using rune_bytes_high [OF n(2), of quote_mark]
    by (auto simp: backslash_def quote_mark_def byte_of_def simp del: rune_len.simps)
  then show ?thesis by (simp add: assms(1))
qed

lemma scan_cut: "print_chars s = p @ q \<Longrightarrow> scan_string p = Inr (x, r) \<Longrightarrow> False"
proof (induction s arbitrary: p x rule: print_chars.induct)
  case 1
  then show ?case by simp
next
  case (2 c s)
  have "print_rune (c # s) @ print_chars (next_rune (c # s)) = p @ q"
    using 2(2) by (simp add: print_chars.simps(2))
  then obtain z where "print_rune (c # s) = p @ z \<and> z \<noteq> [] \<or>
      p = print_rune (c # s) @ z \<and> print_chars (next_rune (c # s)) = z @ q"
    by (auto simp: append_eq_append_conv2) (metis append_Nil append_Nil2)
  then show False
  proof (elim disjE conjE)
    assume "print_rune (c # s) = p @ z" "z \<noteq> []"
    from scan_unclosed [OF print_rune_unquoted [OF this] 2(3)] show False .
  next
    assume z: "p = print_rune (c # s) @ z" "print_chars (next_rune (c # s)) = z @ q"
    obtain d t where d: "print_rune (c # s) = d # t" "d \<noteq> quote_mark"
      using scan_rune_print(2,3) [of c s] by (cases "print_rune (c # s)") auto
    have "scan_rune (d # t @ z) = Inr (first_rune (c # s), z)"
      using scan_rune_print(1) [of c s z] d by simp
    then obtain y where "scan_string z = Inr (y, r)"
      using 2(3) z(1) d by (auto simp: scan_string.simps(2) map_sum_Inr)
    with 2(1) z(2) show False by blast
  qed
qed

lemma upright_string: "upright (print_string x)"
  unfolding upright_def
proof (intro allI impI)
  fix p q ts
  assume p: "print_string x = p @ q" and l: "lex_json p = Inr ts"
  have quote: "\<not> is_space quote_mark" "punctuation quote_mark = None"
    by (simp_all add: is_space_def punctuation_def quote_mark_def)
  show "0 \<le> balance ts"
  proof (cases p)
    case Nil
    with l show ?thesis by simp
  next
    case (Cons c p')
    with p have c: "c = quote_mark" "print_chars x @ [quote_mark] = p' @ q"
      by (auto simp: print_string_def)
    then obtain z where "print_chars x = p' @ z \<or> p' = print_chars x @ [quote_mark]"
      by (auto simp: append_eq_append_conv2 Cons_eq_append_conv)
    then show ?thesis
    proof
      assume "print_chars x = p' @ z"
      from scan_cut [OF this] have "\<exists>err. scan_string p' = Inl err"
        by (cases "scan_string p'") auto
      with l Cons c quote show ?thesis by (auto simp: lex_json.simps(2) lex_token_def)
    next
      assume "p' = print_chars x @ [quote_mark]"
      then have "p = print_string x @ []" using Cons c by (simp add: print_string_def)
      with l show ?thesis using lex_string [of x "[]"] by auto
    qed
  qed
qed

lemma upright_number:
  assumes "list_all number_char lit"
  shows "upright lit"
  unfolding upright_def
proof (intro allI impI)
  fix p q ts
  assume p: "lit = p @ q" and l: "lex_json p = Inr ts"
  show "0 \<le> balance ts"
  proof (cases p)
    case Nil
    with l show ?thesis by simp
  next
    case (Cons c p')
    have n: "number_char c" "list_all number_char p'" using assms p Cons by auto
    then have "\<not> is_space c" "punctuation c = None" "c \<noteq> quote_mark"
      by (auto simp: is_space_def punctuation_def quote_mark_def number_char_def is_digit_def)
    moreover have d: "dropWhile number_char p' = []" using n by (simp add: list_all_iff)
    ultimately show ?thesis
      using l Cons n(1) by (auto simp: lex_json.simps(2) lex_token_def Let_def d split: if_splits)
  qed
qed

lemma upright_keyword: "upright ''null''" "upright ''true''" "upright ''false''"
  by (auto simp: upright_def Cons_eq_append_conv lex_json.simps(2) lex_token_def is_space_def punctuation_def
      quote_mark_def number_char_def is_digit_def keyword_def has_prefix_def)

lemma upright_commas:
  assumes "\<And>x. x \<in> set xs \<Longrightarrow> upright (f x) \<and> emits (f x) (g x) \<and> balance (g x) = 0"
  shows "upright (commas (CHR '','') (map f xs))"
  using assms
proof (induction xs rule: induct_list012)
  case 1
  show ?case by (simp add: upright_def)
next
  case (3 x y zs)
  have "upright (commas (CHR '','') (map f (y # zs)))" using 3 by simp
  from upright_cons [OF punctuations(1) _ this]
  have "upright (CHR '','' # commas (CHR '','') (map f (y # zs)))" by simp
  then show ?case
    using upright_append [of "f x" "g x" "CHR '','' # commas (CHR '','') (map f (y # zs))"] 3(3) [of x]
    by simp
qed simp

lemma balance_commas:
  "(\<And>x. x \<in> set xs \<Longrightarrow> balance (g x) = 0) \<Longrightarrow> balance (commas TComma (map g xs)) = 0"
  by (induction xs rule: induct_list012) simp_all

section \<open>Values\<close>

lemma balance_tokens: "balance (tokens j) = 0"
proof (induction j)
  case (JArray js)
  then show ?case using balance_commas [of js tokens] by simp
next
  case (JObject kvs)
  have "balance (commas TComma (map member_tokens kvs)) = 0"
    by (rule balance_commas) (use JObject in \<open>auto simp: snds.simps\<close>)
  then show ?case unfolding object_tokens by simp
qed simp_all

lemma upright_end:
  assumes "upright x" "emits x ts" "balance ts = 0" "punctuation c = Some t" "bracket t = - 1"
  shows "p @ q = x @ [c] \<Longrightarrow> q \<noteq> [] \<Longrightarrow> lex_json p = Inr us \<Longrightarrow> 0 \<le> balance us"
proof -
  assume a: "p @ q = x @ [c]" "q \<noteq> []" "lex_json p = Inr us"
  then obtain z where "x = p @ z"
    by (metis append_butlast_last_id append_assoc butlast_append butlast_snoc)
  with assms(1) a(3) show ?thesis by (auto dest: uprightD)
qed

text \<open>The text between brackets: in front of the last bracket one is open.\<close>

lemma upright_enclosed:
  assumes "upright x" "emits x ts" "balance ts = 0"
    and a: "punctuation a = Some ta" "bracket ta = 1" and b: "punctuation b = Some tb" "bracket tb = - 1"
  shows "upright ([a] @ x @ [b])"
    and "[a] @ x @ [b] = p @ q \<Longrightarrow> q \<noteq> [] \<Longrightarrow> lex_json p = Inr us \<Longrightarrow> us = [] \<or> 0 < balance us"
proof -
  show open_before: "us = [] \<or> 0 < balance us"
    if "[a] @ x @ [b] = p @ q" "q \<noteq> []" "lex_json p = Inr us" for p q us
  proof (cases p)
    case Nil
    with that show ?thesis by simp
  next
    case (Cons c z)
    with that obtain vs where "lex_json z = Inr vs" "us = ta # vs"
      using lex_punctuation(1) [OF a(1)] by (auto simp: prepend_def split: sum.splits)
    moreover have "z @ q = x @ [b]" using that Cons by simp
    ultimately show ?thesis
      using upright_end [OF assms(1-3) b] that(2) a(2) by fastforce
  qed
  have whole: "lex_json ([a] @ x @ [b]) = Inr (ta # ts @ [tb])"
    using emitsD [OF emits_enclosed [OF assms(2) a(1) b(1)], of "[]"] by simp
  show "upright ([a] @ x @ [b])"
    unfolding upright_def
  proof (intro allI impI)
    fix p q us
    assume p: "[a] @ x @ [b] = p @ q" and l: "lex_json p = Inr us"
    show "0 \<le> balance us"
    proof (cases "q = []")
      case True
      then have "us = ta # ts @ [tb]" using p l whole by auto
      with assms(3) a(2) b(2) show ?thesis by simp
    next
      case False
      from open_before [OF p this l] show ?thesis by auto
    qed
  qed
qed

lemma upright_members:
  assumes "\<And>kv. kv \<in> set kvs \<Longrightarrow>
      textual (snd kv) \<and> valid_utf8 (fst kv) \<and> upright (json_print (snd kv))"
  defines "txt \<equiv> commas (CHR '','') (map (\<lambda>kv. print_string (fst kv) @ CHR '':'' # json_print (snd kv)) kvs)"
  shows "upright txt" "emits txt (commas TComma (map member_tokens kvs))"
    "balance (commas TComma (map member_tokens kvs)) = 0"
proof -
  have e: "emits (print_string (fst kv) @ CHR '':'' # json_print (snd kv)) (member_tokens kv)"
    if "kv \<in> set kvs" for kv
    using emits_member [OF emits_print] assms(1) [OF that] by blast
  have u: "upright (print_string (fst kv) @ CHR '':'' # json_print (snd kv))" if "kv \<in> set kvs" for kv
  proof (rule upright_append)
    show "upright (CHR '':'' # json_print (snd kv))"
      by (rule upright_cons [OF punctuations(2)]) (use assms(1) [OF that] in simp_all)
    show "emits (print_string (fst kv)) [TString (fst kv)]"
      using assms(1) [OF that] by (simp add: emits_def lex_string valid_utf8_def)
  qed (simp_all add: upright_string)
  show "upright txt"
    unfolding txt_def by (rule upright_commas [where g = member_tokens]) (simp add: u e balance_tokens)
  show "emits txt (commas TComma (map member_tokens kvs))"
    unfolding txt_def by (rule emits_commas) (rule e)
  show "balance (commas TComma (map member_tokens kvs)) = 0"
    by (rule balance_commas) (simp add: balance_tokens)
qed

lemma object_text:
  "json_print (JObject kvs) =
     ''{'' @ commas (CHR '','') (map (\<lambda>kv. print_string (fst kv) @ CHR '':'' # json_print (snd kv)) kvs) @ ''}''"
  by (simp add: comp_def case_prod_beta)

lemma upright_print: "textual j \<Longrightarrow> upright (json_print j)"
proof (induction j)
  case (JArray js)
  have j: "upright (json_print j) \<and> emits (json_print j) (tokens j) \<and> balance (tokens j) = 0"
    if "j \<in> set js" for j
    using JArray that emits_print by (auto simp: list_all_iff balance_tokens)
  have c: "upright (commas (CHR '','') (map json_print js))"
    "emits (commas (CHR '','') (map json_print js)) (commas TComma (map tokens js))"
    "balance (commas TComma (map tokens js)) = 0"
    using upright_commas [of js json_print tokens] emits_commas [of js json_print tokens]
      balance_commas [of js tokens] j by blast+
  from upright_enclosed(1) [OF c punctuations(3) _ punctuations(4)] show ?case by simp
next
  case (JObject kvs)
  have kv: "textual (snd kv) \<and> valid_utf8 (fst kv) \<and> upright (json_print (snd kv))" if "kv \<in> set kvs" for kv
    using JObject that by (auto simp: list_all_iff case_prod_beta snds.simps)
  from upright_enclosed(1) [OF upright_members [OF kv] punctuations(5) _ punctuations(6)]
  show ?case unfolding object_text by simp
qed (simp_all add: upright_keyword upright_string upright_number)

text \<open>A cut-off object is no JSON.\<close>

lemma json_scan_cut:
  assumes "textual (JObject kvs)" "json_print (JObject kvs) = p @ q" "q \<noteq> []"
  shows "isl (json_scan p)"
proof -
  have kv: "textual (snd kv) \<and> valid_utf8 (fst kv) \<and> upright (json_print (snd kv))" if "kv \<in> set kvs" for kv
    using assms(1) that upright_print by (auto simp: list_all_iff case_prod_beta)
  have open_before: "ts = [] \<or> 0 < balance ts" if "lex_json p = Inr ts" for ts
    using upright_enclosed(2) [OF upright_members [OF kv] punctuations(5) _ punctuations(6) _
        assms(2) [unfolded object_text] assms(3) that]
    by simp
  show ?thesis
  proof (cases "lex_json p")
    case (Inl err)
    then show ?thesis by (simp add: json_scan_def)
  next
    case (Inr ts)
    have no: False if "parse_tokens ts WantValue [] = Inr j" for j
      using open_before [OF Inr] parse_balance [OF that] parse_nonempty [OF that] by auto
    show ?thesis
      by (cases "parse_tokens ts WantValue []") (use no in \<open>auto simp: json_scan_def Inr\<close>)
  qed
qed

end
