(* ===== verification/Manifest_Wire.thy ===== *)
theory Manifest_Wire
  imports Go_Json_Cut Start_Server
begin

text \<open>
  The manifest on the wire (\<open>core/engine/manifest.go\<close>): its JSON form, the handler that writes it
  and the reader of the other side.
\<close>

section \<open>JSON form\<close>

definition enc_item :: "share_item \<Rightarrow> json" where
  "enc_item it =
     JObject [(''name'', JString (siName it)), (''size'', enc_int (siSize it)),
              (''is_dir'', JBoolean (siIsDir it))]"

definition enc_files :: "manifest_files \<Rightarrow> json" where
  "enc_files f =
     JObject ([(''mode'', JString (mfMode f))] @
       opt_member (mfItems f \<noteq> []) ''items'' (JArray (map enc_item (mfItems f))) @
       opt_member (mfDir f \<noteq> []) ''dir'' (JString (mfDir f)))"

definition enc_manifest :: "manifest \<Rightarrow> json" where
  "enc_manifest m =
     JObject ([(''app'', JString (mApp m)), (''version'', JString (mVersion m)),
               (''name'', JString (mName m)), (''platform'', JString (mPlatform m))] @
       opt_member (mPorts m \<noteq> []) ''ports'' (JArray (map enc_int (mPorts m))) @
       opt_member (mAll m) ''all'' (JBoolean (mAll m)) @
       opt_member (mExitNode m) ''exit_node'' (JBoolean (mExitNode m)) @
       opt_member (mSSH m) ''ssh'' (JBoolean (mSSH m)) @
       (case mFiles m of None \<Rightarrow> [] | Some f \<Rightarrow> [(''files'', enc_files f)]))"

definition item_fields :: "share_item fields" where
  "item_fields =
     [(''name'', field dec_string siName (\<lambda>x. siName_update (\<lambda>_. x))),
      (''size'', field dec_int siSize (\<lambda>x. siSize_update (\<lambda>_. x))),
      (''is_dir'', field dec_bool siIsDir (\<lambda>x. siIsDir_update (\<lambda>_. x)))]"

definition zero_item :: share_item where
  "zero_item = \<lparr>siName = [], siSize = 0, siIsDir = False, siPath = []\<rparr>"

definition files_fields :: "manifest_files fields" where
  "files_fields =
     [(''mode'', field dec_string mfMode (\<lambda>x. mfMode_update (\<lambda>_. x))),
      (''items'', field (dec_slice (dec_struct item_fields) zero_item) mfItems
                    (\<lambda>x. mfItems_update (\<lambda>_. x))),
      (''dir'', field dec_string mfDir (\<lambda>x. mfDir_update (\<lambda>_. x)))]"

definition zero_files :: manifest_files where
  "zero_files = \<lparr>mfMode = [], mfItems = [], mfDir = []\<rparr>"

definition manifest_fields :: "manifest fields" where
  "manifest_fields =
     [(''app'', field dec_string mApp (\<lambda>x. mApp_update (\<lambda>_. x))),
      (''version'', field dec_string mVersion (\<lambda>x. mVersion_update (\<lambda>_. x))),
      (''name'', field dec_string mName (\<lambda>x. mName_update (\<lambda>_. x))),
      (''platform'', field dec_string mPlatform (\<lambda>x. mPlatform_update (\<lambda>_. x))),
      (''ports'', field (dec_slice dec_int 0) mPorts (\<lambda>x. mPorts_update (\<lambda>_. x))),
      (''all'', field dec_bool mAll (\<lambda>x. mAll_update (\<lambda>_. x))),
      (''exit_node'', field dec_bool mExitNode (\<lambda>x. mExitNode_update (\<lambda>_. x))),
      (''ssh'', field dec_bool mSSH (\<lambda>x. mSSH_update (\<lambda>_. x))),
      (''files'', field (dec_pointer (dec_struct files_fields) zero_files) mFiles
                    (\<lambda>x. mFiles_update (\<lambda>_. x)))]"

definition zero_manifest :: manifest where
  "zero_manifest =
     \<lparr>mApp = [], mVersion = [], mName = [], mPlatform = [], mPorts = [], mAll = False,
      mExitNode = False, mSSH = False, mFiles = None\<rparr>"

section \<open>Writing and reading\<close>

definition newline :: char where
  "newline = CHR 0x0A"

text \<open>The bytes that \<open>manifestHandler\<close> writes to each connection before closing it.\<close>

definition manifest_line :: "manifest \<Rightarrow> string" where
  "manifest_line m = json_print (enc_manifest m) @ [newline]"

text \<open>
  \<open>ReadBytes\<close> on a connection that delivers some bytes and then the given error, behind a reader
  that ends after \<open>limit\<close> bytes: the bytes up to and with the first newline, or all of them with
  the error.
\<close>

definition read_line :: "nat \<Rightarrow> string \<Rightarrow> gerror \<Rightarrow> string \<times> gerror option" where
  "read_line limit bytes err =
     (let seen = take limit bytes;
          line = takeWhile (\<lambda>c. c \<noteq> newline) seen
      in if newline \<in> set seen then (line @ [newline], None)
         else (seen, Some (if limit \<le> length bytes then ErrEOF else err)))"

definition manifest_limit :: nat where
  "manifest_limit = 2 ^ 20"

definition read_manifest :: "string \<Rightarrow> gerror \<Rightarrow> manifest res" where
  "read_manifest bytes err =
     (case read_line manifest_limit bytes err of
        (line, rerr) \<Rightarrow>
          if rerr \<noteq> None \<and> line = [] then Inl (the rerr)
          else case json_scan line of
                 Inl err \<Rightarrow> Inl err
               | Inr j \<Rightarrow> (case dec_struct manifest_fields j zero_manifest of
                   Inl err \<Rightarrow> Inl err
                 | Inr m \<Rightarrow>
                     if mApp m \<noteq> manifestApp
                     then Inl (err_code CodeInternal ''not a tailcat-gui manifest'' [])
                     else Inr m))"

section \<open>Round trip\<close>

text \<open>What the other side can see of a manifest: the local paths of the items stay behind.\<close>

definition public_item :: "share_item \<Rightarrow> share_item" where
  "public_item it = it\<lparr>siPath := []\<rparr>"

definition public_manifest :: "manifest \<Rightarrow> manifest" where
  "public_manifest m =
     m\<lparr>mFiles := map_option (\<lambda>f. f\<lparr>mfItems := map public_item (mfItems f)\<rparr>) (mFiles m)\<rparr>"

text \<open>Ports and sizes are Go integers of 64 bits.\<close>

definition int64_manifest :: "manifest \<Rightarrow> bool" where
  "int64_manifest m \<longleftrightarrow>
     list_all int64 (mPorts m) \<and>
     (case mFiles m of None \<Rightarrow> True | Some f \<Rightarrow> list_all (\<lambda>it. int64 (siSize it)) (mfItems f))"

lemma find_field_map_of: "map_of tab k = Some f \<Longrightarrow> find_field tab k = Some f"
  by (simp add: find_field_def)

lemma dec_item_enc:
  "int64 (siSize it) \<Longrightarrow> siPath old = [] \<Longrightarrow> dec_struct item_fields (enc_item it) old = Inr (public_item it)"
  by (simp add: enc_item_def item_fields_def find_field_def field_def public_item_def)

lemma dec_items_enc:
  "list_all (\<lambda>it. int64 (siSize it)) its \<Longrightarrow>
     dec_slice (dec_struct item_fields) zero_item (JArray (map enc_item its)) [] = Inr (map public_item its)"
  unfolding dec_slice_def json.case
  by (induction its) (simp_all add: dec_item_enc zero_item_def)

lemma dec_files_enc:
  "list_all (\<lambda>it. int64 (siSize it)) (mfItems f) \<Longrightarrow>
     dec_struct files_fields (enc_files f) zero_files = Inr (f\<lparr>mfItems := map public_item (mfItems f)\<rparr>)"
  by (cases f) (simp add: enc_files_def files_fields_def zero_files_def find_field_map_of field_def
      opt_member_def dec_items_enc)

lemma enc_files_not_null [simp]: "enc_files f \<noteq> JNull"
  by (simp add: enc_files_def)

lemma dec_manifest_enc:
  "int64_manifest m \<Longrightarrow>
     dec_struct manifest_fields (enc_manifest m) zero_manifest = Inr (public_manifest m)"
proof (cases m)
  case (fields mApp mVersion mName mPlatform mPorts mAll mExitNode mSSH mFiles)
  assume "int64_manifest m"
  with fields show ?thesis
    by (cases mFiles)
      (simp_all add: enc_manifest_def manifest_fields_def zero_manifest_def find_field_map_of field_def
        opt_member_def int64_manifest_def public_manifest_def dec_pointer_def dec_files_enc)
qed

text \<open>A line within the limit is read back whole, whatever follows it.\<close>

lemma read_line_short:
  assumes "newline \<notin> set l" "length l < limit"
  shows "read_line limit (l @ newline # rest) err = (l @ [newline], None)"
proof -
  have t: "take limit (l @ newline # rest) = l @ newline # take (limit - Suc (length l)) rest"
    using assms(2) by (simp add: take_Cons' Suc_diff_Suc)
  have "takeWhile (\<lambda>c. c \<noteq> newline) (l @ xs) = l @ takeWhile (\<lambda>c. c \<noteq> newline) xs" for xs
    using assms(1) by (intro takeWhile_append2) auto
  then show ?thesis unfolding read_line_def t Let_def by simp
qed

text \<open>The strings are UTF-8; what is not comes out with U+FFFD instead.\<close>

definition text_manifest :: "manifest \<Rightarrow> bool" where
  "text_manifest m \<longleftrightarrow>
     list_all valid_utf8 [mVersion m, mName m, mPlatform m] \<and>
     (case mFiles m of None \<Rightarrow> True
      | Some f \<Rightarrow> valid_utf8 (mfMode f) \<and> valid_utf8 (mfDir f) \<and>
          list_all (\<lambda>it. valid_utf8 (siName it)) (mfItems f))"

text \<open>All keys are plain.\<close>

lemma valid_keys [simp]:
  "valid_utf8 ''app''" "valid_utf8 ''version''" "valid_utf8 ''name''" "valid_utf8 ''platform''"
  "valid_utf8 ''ports''" "valid_utf8 ''all''" "valid_utf8 ''exit_node''" "valid_utf8 ''ssh''"
  "valid_utf8 ''files''" "valid_utf8 ''mode''" "valid_utf8 ''items''" "valid_utf8 ''dir''"
  "valid_utf8 ''size''" "valid_utf8 ''is_dir''" "valid_utf8 manifestApp"
  by (simp_all add: valid_utf8_def byte_of_def manifestApp_def)

lemma textual_item: "valid_utf8 (siName it) \<Longrightarrow> textual (enc_item it)" "depth (enc_item it) = 1"
  by (simp_all add: enc_item_def)

lemma depth_items: "foldr max (map (depth \<circ> enc_item) its) 0 \<le> 1"
  by (simp add: foldr_max_le textual_item)

lemma foldr_zero: "foldr max (map (\<lambda>x. 0) xs) (0 :: nat) = 0"
  by (induction xs) auto

lemma textual_files:
  assumes "valid_utf8 (mfMode f)" "valid_utf8 (mfDir f)" "list_all (\<lambda>it. valid_utf8 (siName it)) (mfItems f)"
  shows "textual (enc_files f)" "depth (enc_files f) \<le> 3"
  using assms textual_item depth_items [of "mfItems f"]
  by (auto simp: enc_files_def opt_member_def list_all_iff)

lemma textual_manifest:
  assumes "text_manifest m" "mApp m = manifestApp"
  shows "textual (enc_manifest m)" "depth (enc_manifest m) \<le> max_depth"
proof -
  have f: "textual (enc_files f) \<and> depth (enc_files f) \<le> 3" if "mFiles m = Some f" for f
    using assms(1) that textual_files [of f] by (simp add: text_manifest_def)
  show "textual (enc_manifest m)"
    using assms f by (auto simp: enc_manifest_def text_manifest_def opt_member_def list_all_iff split: option.split)
  show "depth (enc_manifest m) \<le> max_depth"
    using f by (auto simp: enc_manifest_def opt_member_def max_depth_def comp_def foldr_zero split: option.split)
qed

lemma read_manifest_roundtrip:
  assumes "int64_manifest m" "mApp m = manifestApp" "text_manifest m"
    and "length (manifest_line m) \<le> manifest_limit"
  shows "read_manifest (manifest_line m @ rest) err = Inr (public_manifest m)"
proof -
  have l: "newline \<notin> set (json_print (enc_manifest m))"
    using json_print_graphic [OF textual_manifest(1) [OF assms(3,2)], of newline]
    by (auto simp: newline_def byte_of_def)
  have "json_scan (manifest_line m) = Inr (enc_manifest m)"
    unfolding manifest_line_def
    by (rule json_scan_print [OF textual_manifest [OF assms(3,2)]]) (simp add: newline_def is_space_def)
  moreover have "length (json_print (enc_manifest m)) < manifest_limit"
    using assms(4) by (simp add: manifest_line_def)
  ultimately show ?thesis
    using assms(1,2) read_line_short [OF l, of manifest_limit rest err]
    by (simp add: read_manifest_def manifest_line_def dec_manifest_enc public_manifest_def)
qed

lemma enc_manifest_object: "\<exists>kvs. enc_manifest m = JObject kvs"
  by (simp add: enc_manifest_def)

lemma read_line_long:
  assumes "newline \<notin> set l" "limit \<le> length l"
  shows "read_line limit (l @ rest) err = (take limit l, Some ErrEOF)"
  using assms by (auto simp: read_line_def Let_def dest: in_set_takeD)

text \<open>At the limit the reader gets all of the object without the newline, beyond it a part.\<close>

lemma read_manifest_long:
  assumes "int64_manifest m" "mApp m = manifestApp" "text_manifest m"
    and "manifest_limit \<le> length (json_print (enc_manifest m))"
  shows "read_manifest (manifest_line m @ rest) err =
      (if length (json_print (enc_manifest m)) = manifest_limit then Inr (public_manifest m)
       else Inl (projl (json_scan (take manifest_limit (json_print (enc_manifest m))))))"
    "length (json_print (enc_manifest m)) \<noteq> manifest_limit \<Longrightarrow>
       isl (json_scan (take manifest_limit (json_print (enc_manifest m))))"
proof -
  let ?t = "json_print (enc_manifest m)"
  note tx = textual_manifest [OF assms(3,2)]
  have l: "newline \<notin> set ?t"
    using json_print_graphic [OF tx(1), of newline] by (auto simp: newline_def byte_of_def)
  have r: "read_line manifest_limit (manifest_line m @ rest) err = (take manifest_limit ?t, Some ErrEOF)"
    using read_line_long [OF l assms(4), of "newline # rest"] by (simp add: manifest_line_def)
  have ne: "take manifest_limit ?t \<noteq> []" using assms(4) by (auto simp: manifest_limit_def)
  obtain kvs where kvs: "enc_manifest m = JObject kvs" using enc_manifest_object by blast
  show cut: "isl (json_scan (take manifest_limit ?t))" if "length ?t \<noteq> manifest_limit"
  proof (rule json_scan_cut)
    show "textual (JObject kvs)" using tx(1) kvs by simp
    show "json_print (JObject kvs) = take manifest_limit ?t @ drop manifest_limit ?t"
      by (simp only: kvs [symmetric] append_take_drop_id)
    show "drop manifest_limit ?t \<noteq> []" using that assms(4) by simp
  qed
  show "read_manifest (manifest_line m @ rest) err =
      (if length ?t = manifest_limit then Inr (public_manifest m)
       else Inl (projl (json_scan (take manifest_limit ?t))))"
  proof (cases "length ?t = manifest_limit")
    case True
    then have "take manifest_limit ?t = ?t" by simp
    moreover have "json_scan ?t = Inr (enc_manifest m)"
      using json_scan_print [OF tx, of "[]"] by simp
    ultimately show ?thesis
      using True ne assms(1,2) by (simp add: read_manifest_def r dec_manifest_enc public_manifest_def)
  next
    case False
    with cut ne show ?thesis
      by (cases "json_scan (take manifest_limit ?t)") (simp_all add: read_manifest_def r)
  qed
qed

section \<open>Properties\<close>

text \<open>
  C13. The manifest arrives whole or not at all. Whatever follows it on the connection, the reader gets
  the manifest that was written, without the local paths of the shared items, exactly when its text
  fits the limit of 1 MiB; when it does not, and the reader sees only its beginning, that is an error
  and never another manifest.
\<close>

theorem manifest_whole_or_error:
  assumes "int64_manifest m" "mApp m = manifestApp" "text_manifest m"
  shows "if length (json_print (enc_manifest m)) \<le> manifest_limit
    then read_manifest (manifest_line m @ rest) err = Inr (public_manifest m)
    else isl (read_manifest (manifest_line m @ rest) err)"
proof (cases "length (json_print (enc_manifest m)) < manifest_limit")
  case True
  then have "length (manifest_line m) \<le> manifest_limit" by (simp add: manifest_line_def)
  with read_manifest_roundtrip [OF assms] True show ?thesis by simp
next
  case False
  with read_manifest_long(1) [OF assms] show ?thesis by simp
qed

definition demo_wire :: manifest where
  "demo_wire =
     \<lparr>mApp = manifestApp, mVersion = ''1'', mName = ''a&b'', mPlatform = ''linux'', mPorts = [80], mAll = False,
      mExitNode = False, mSSH = False,
      mFiles = Some \<lparr>mfMode = ''ro'', mfItems = [\<lparr>siName = ''x'', siSize = 3, siIsDir = False, siPath = ''/h/x''\<rparr>],
                      mfDir = []\<rparr>\<rparr>"

lemma demo_wire_text:
  "json_print (enc_manifest demo_wire) =
     ''{\"app\":\"tailcat-gui\",\"version\":\"1\",\"name\":\"a'' @ [CHR 0x5C] @ ''u0026b\",\"platform\":\"linux\",\"ports\":[80],'' @
     ''\"files\":{\"mode\":\"ro\",\"items\":[{\"name\":\"x\",\"size\":3,\"is_dir\":false}]}}''"
proof -
  have char: "char_of (50 :: nat) = CHR ''2''" "char_of (54 :: nat) = CHR ''6''" by code_simp+
  have n: "print_string ''a&b'' = quote_mark # ''a'' @ [CHR 0x5C] @ ''u0026b'' @ [quote_mark]"
    by (simp add: print_string_def print_chars.simps(2) print_rune_def next_rune_def escape_char_def
        hex_digit_def byte_of_def quote_mark_def backslash_def char)
  show ?thesis
    by (simp add: demo_wire_def enc_manifest_def enc_files_def enc_item_def opt_member_def n print_plain
        plain_char_def byte_of_def quote_mark_def backslash_def manifestApp_def enc_int_def itoa_def nat_str.simps)
qed

theorem manifest_whole_or_error_witness:
  "read_manifest (manifest_line demo_wire @ ''more'') ErrEOF =
     Inr (demo_wire\<lparr>mFiles := Some \<lparr>mfMode = ''ro'',
       mfItems = [\<lparr>siName = ''x'', siSize = 3, siIsDir = False, siPath = []\<rparr>], mfDir = []\<rparr>\<rparr>)"
proof -
  have "int64_manifest demo_wire" "mApp demo_wire = manifestApp" "text_manifest demo_wire"
    by (simp_all add: demo_wire_def int64_manifest_def int64_def min_int_def max_int_def text_manifest_def
        valid_utf8_def byte_of_def)
  from manifest_whole_or_error [OF this, of "''more''" ErrEOF] show ?thesis
    by (simp add: demo_wire_text manifest_limit_def) (simp add: demo_wire_def public_manifest_def public_item_def)
qed

end
