(* ===== verification/Probe.thy ===== *)
theory Probe
  imports Manifest_Wire Share_Handlers
begin

text \<open>
  \<open>probe\<close> (\<open>core/engine/probe.go\<close>): what the other side offers, read from its manifest or found out
  on port 22. The network and the SSH and SFTP clients are arguments.
\<close>

section \<open>Data\<close>

record token_args =
  taToken :: string
  taTimeout :: rat

record probe_result =
  prbReachable :: bool
  prbVia :: string
  prbDetail :: string
  prbLatencyMS :: rat
  prbManifest :: "manifest option"
  prbSFTP :: bool
  prbSFTPList :: bool
  prbSSHShell :: bool
  prbCLIFallback :: bool

definition zero_probe :: probe_result where
  "zero_probe =
     \<lparr>prbReachable = False, prbVia = [], prbDetail = [], prbLatencyMS = 0, prbManifest = None,
      prbSFTP = False, prbSFTPList = False, prbSSHShell = False, prbCLIFallback = False\<rparr>"

text \<open>
  What a connection turns out to deliver: its bytes and the error after them (the read deadline or
  the end of the stream), and, taken as SSH, the errors of the handshake, of opening SFTP, of
  reading the root, of opening a session and of asking for a shell.
\<close>

record remote_conn =
  rcBytes :: string
  rcEnd :: gerror
  rcHandshake :: "gerror option"
  rcSftp :: "gerror option"
  rcReadDir :: "gerror option"
  rcSession :: "gerror option"
  rcShell :: "gerror option"

text \<open>
  The network as \<open>probe\<close> meets it: the attempts of the handshake, the ping, and for each port the
  outcome of the dial with \<open>ctx.Err()\<close> after it.
\<close>

record probe_net =
  pnWarm :: "nat \<Rightarrow> attempt"
  pnDisco :: "ping_result res"
  pnDial :: "int \<Rightarrow> remote_conn res \<times> gerror option"

section \<open>The command\<close>

definition dial_short :: "'conn res \<times> gerror option \<Rightarrow> 'conn res" where
  "dial_short dialled =
     (case dialled of
        (Inr conn, _) \<Rightarrow> Inr conn
      | (Inl err, Some e) \<Rightarrow> Inl e
      | (Inl err, None) \<Rightarrow> Inl (ErrWrap ''%w'' [] err))"

definition probe_manifest :: "manifest \<Rightarrow> probe_result \<Rightarrow> probe_result" where
  "probe_manifest m res =
     res\<lparr>prbManifest := Some m,
         prbSFTP := mFiles m \<noteq> None \<or> mSSH m,
         prbSFTPList := (case mFiles m of None \<Rightarrow> False | Some f \<Rightarrow> mfMode f \<noteq> ''wo''),
         prbSSHShell := mSSH m\<rparr>"

definition probe_cli :: "remote_conn res \<Rightarrow> probe_result \<Rightarrow> probe_result" where
  "probe_cli dialled res =
     (let res = res\<lparr>prbCLIFallback := True\<rparr>
      in case dialled of
           Inl err \<Rightarrow> res
         | Inr c \<Rightarrow>
             if rcHandshake c \<noteq> None then res
             else let res = res\<lparr>prbSFTP := True\<rparr>;
                      res = (if rcSftp c = None \<and> rcReadDir c = None then res\<lparr>prbSFTPList := True\<rparr> else res)
                  in if rcSession c = None \<and> rcShell c = None then res\<lparr>prbSSHShell := True\<rparr> else res)"

text \<open>The answers of the network may depend on the time limit in nanoseconds.\<close>

definition probe ::
    "(rat \<Rightarrow> int) \<Rightarrow> (string \<Rightarrow> string res) \<Rightarrow> (int \<Rightarrow> probe_net) \<Rightarrow> token_args \<Rightarrow>
     probe_result res" where
  "probe wide tok net a =
     (let pn = net (timeout_ns wide (taTimeout a) 25)
      in case tok (taToken a) of
           Inl err \<Rightarrow> Inl err
         | Inr cb \<Rightarrow>
             (case fst (warm_client (pnWarm pn)) of
                Some err \<Rightarrow> Inl (err_code CodeInternal ''connect: %v'' [FErr err])
              | None \<Rightarrow>
                  (case pnDisco pn of
                     Inl err \<Rightarrow> Inl (err_code CodeInternal ''connect: %v'' [FErr err])
                   | Inr pr \<Rightarrow>
                       let res = zero_probe\<lparr>prbReachable := True, prbVia := fst (classify pr),
                             prbDetail := snd (classify pr), prbLatencyMS := latency_ms pr\<rparr>;
                           manifest = (case dial_short (pnDial pn manifestPort) of
                               Inl err \<Rightarrow> Inl err
                             | Inr conn \<Rightarrow> read_manifest (rcBytes conn) (rcEnd conn))
                       in case manifest of
                            Inr m \<Rightarrow> Inr (probe_manifest m res)
                          | Inl err \<Rightarrow> Inr (probe_cli (dial_short (pnDial pn sftpPort)) res))))"

section \<open>Properties\<close>

lemma via_values: "fst (classify pr) \<in> {''direct'', ''derp''}"
  by (simp add: classify_def classify_ping_def)

text \<open>What the two ways to fill in the result have in common.\<close>

definition consistent :: "probe_result \<Rightarrow> bool" where
  "consistent r \<longleftrightarrow>
     prbReachable r \<and> (prbManifest r = None) = prbCLIFallback r \<and>
     prbVia r \<in> {''direct'', ''derp''} \<and> \<not> ((prbSFTPList r \<or> prbSSHShell r) \<and> \<not> prbSFTP r)"

lemma fresh_result:
  defines "fresh via d l \<equiv> zero_probe\<lparr>prbReachable := True, prbVia := via, prbDetail := d, prbLatencyMS := l\<rparr>"
  assumes "via \<in> {''direct'', ''derp''}"
  shows "consistent (probe_manifest m (fresh via d l))" "consistent (probe_cli dialled (fresh via d l))"
  using assms(2)
  by (auto simp: consistent_def probe_manifest_def probe_cli_def fresh_def zero_probe_def Let_def
      split: option.split sum.split)

text \<open>
  What \<open>probe\<close> reports is consistent: it fails only before the server was reached, always with
  \<open>internal\<close> or the error of the token; a reached server has a manifest exactly when the fallback
  for the command line tool was not needed; and a listable share or a shell is never reported
  without the service on port 22 that provides it.
\<close>

lemma probe_consistent:
  "case probe wide tok net a of
     Inl err \<Rightarrow> tok (taToken a) = Inl err \<or> code_of err = CodeInternal
   | Inr r \<Rightarrow> prbReachable r \<and> (prbManifest r = None) = prbCLIFallback r \<and>
       prbVia r \<in> {''direct'', ''derp''} \<and> \<not> ((prbSFTPList r \<or> prbSSHShell r) \<and> \<not> prbSFTP r)"
  unfolding consistent_def [symmetric]
  by (simp add: probe_def Let_def fresh_result [OF via_values] split: sum.split option.split)

text \<open>
  The two ends together: whether the root directory can be listed over the SFTP service that routing
  hands port 22 to. A shell server without a directory serves everything that its user can see.
\<close>

definition listable :: "route option \<Rightarrow> bool" where
  "listable r =
     (case r of
        Some (ToPort22 (PathsShare ps)) \<Rightarrow> True
      | Some (ToPort22 (DirShare d m)) \<Rightarrow> can_read m
      | Some (ToPort22 (ShellServer None)) \<Rightarrow> True
      | Some (ToPort22 (ShellServer (Some (d, m)))) \<Rightarrow> m \<noteq> FileServeWO
      | _ \<Rightarrow> False)"


text \<open>A drop box, probed over a working connection.\<close>

definition demo_files :: "manifest_files option" where
  "demo_files = Some \<lparr>mfMode = ''wo'', mfItems = [], mfDir = path_base ''/srv''\<rparr>"

definition demo_drop_plan :: port22_plan where
  "demo_drop_plan =
     \<lparr>ppHandler = Some (DirShare ''/srv'' WriteOnly), ppFiles = demo_files, ppShare = True\<rparr>"

definition demo_shared :: manifest where
  "demo_shared = server_manifest demo_env demo_args demo_files"

lemma demo_shared_text:
  "text_manifest demo_shared" "length (manifest_line demo_shared) \<le> manifest_limit"
proof -
  have n: "device_name demo_env [] = ''box''" "path_base ''/srv'' = ''srv''" by code_simp+
  have s: "demo_shared =
      \<lparr>mApp = manifestApp, mVersion = ''dev'', mName = ''box'', mPlatform = ''linux'', mPorts = [8080, 22],
       mAll = False, mExitNode = False, mSSH = False,
       mFiles = Some \<lparr>mfMode = ''wo'', mfItems = [], mfDir = ''srv''\<rparr>\<rparr>"
    using n by (simp add: demo_shared_def server_manifest_def demo_files_def demo_args_def)
      (simp add: demo_env_def)
  show "text_manifest demo_shared"
    by (simp add: s text_manifest_def valid_utf8_def byte_of_def)
  have "length (manifest_line demo_shared) \<le> 200"
    by (simp add: s manifest_line_def enc_manifest_def enc_files_def opt_member_def print_plain plain_char_def
        byte_of_def quote_mark_def backslash_def manifestApp_def enc_int_def itoa_def nat_str.simps)
  then show "length (manifest_line demo_shared) \<le> manifest_limit"
    by (simp add: manifest_limit_def)
qed

definition demo_conn :: remote_conn where
  "demo_conn =
     \<lparr>rcBytes = manifest_line demo_shared, rcEnd = ErrEOF, rcHandshake = None,
      rcSftp = None, rcReadDir = None, rcSession = None, rcShell = None\<rparr>"

definition demo_net :: probe_net where
  "demo_net =
     \<lparr>pnWarm = (\<lambda>_. \<lparr>atBefore = None, atPing = None, atAfter = None\<rparr>),
      pnDisco = Inr \<lparr>prEndpoint = [], prRegionCode = ''nyc'', prRegionID = 1, prLatencySeconds = 1\<rparr>,
      pnDial = (\<lambda>port. (Inr demo_conn, None))\<rparr>"


text \<open>
  The exception: of a server with only \<open>ssh\<close>, whose SFTP service can be listed, the manifest makes
  \<open>probe\<close> report that it cannot; the fallback on the same server reports that it can.
\<close>

lemma probe_misses_shell_files:
  assumes "saSSH a" "saFiles a = None" "plan_port22 env a m = Inr pl"
  shows "listable (on_tcp a pl mf (word_of_int sftpPort)) \<and>
    \<not> prbSFTPList (probe_manifest (server_manifest env a (ppFiles pl)) res) \<and>
    prbSFTPList (probe_cli (Inr (demo_conn\<lparr>rcSftp := None, rcReadDir := None, rcHandshake := None\<rparr>)) res)"
  using assms by (auto simp: plan_port22_def ssh_shell_handler_def server_manifest_def probe_manifest_def
      probe_cli_def Let_def listable_def on_tcp_def manifestPort_def sftpPort_def split: if_splits)

end
