(* ===== verification/Commands.thy ===== *)
theory Commands
  imports Probe File_Jobs
begin

text \<open>
  The JSON commands (\<open>core/engine/commands.go\<close>): requests and their arguments, the dispatch to the
  operations of the engine, and the response.
\<close>

section \<open>Arguments\<close>

record session_args =
  ssSessionID :: string

definition zero_files_spec :: files_spec where
  "zero_files_spec = \<lparr>fsDir = [], fsMode = []\<rparr>"

definition files_spec_fields :: "(string \<times> (json \<Rightarrow> files_spec \<Rightarrow> files_spec res)) list" where
  "files_spec_fields =
     [(''dir'', field dec_string fsDir (\<lambda>x. fsDir_update (\<lambda>_. x))),
      (''mode'', field dec_string fsMode (\<lambda>x. fsMode_update (\<lambda>_. x)))]"

definition zero_server_args :: server_args where
  "zero_server_args =
     \<lparr>saPorts = [], saAll = False, saExitNode = False, saFiles = None, saSSH = False, saKey = [],
      saSharePaths = [], saName = []\<rparr>"

definition server_fields :: "(string \<times> (json \<Rightarrow> server_args \<Rightarrow> server_args res)) list" where
  "server_fields =
     [(''ports'', field (dec_slice dec_int 0) saPorts (\<lambda>x. saPorts_update (\<lambda>_. x))),
      (''all'', field dec_bool saAll (\<lambda>x. saAll_update (\<lambda>_. x))),
      (''exit_node'', field dec_bool saExitNode (\<lambda>x. saExitNode_update (\<lambda>_. x))),
      (''files'', field (dec_pointer (dec_struct files_spec_fields) zero_files_spec) saFiles
                    (\<lambda>x. saFiles_update (\<lambda>_. x))),
      (''ssh'', field dec_bool saSSH (\<lambda>x. saSSH_update (\<lambda>_. x))),
      (''key'', field dec_string saKey (\<lambda>x. saKey_update (\<lambda>_. x))),
      (''share_paths'', field (dec_slice dec_string []) saSharePaths (\<lambda>x. saSharePaths_update (\<lambda>_. x))),
      (''name'', field dec_string saName (\<lambda>x. saName_update (\<lambda>_. x)))]"

definition zero_forward_args :: forward_args where
  "zero_forward_args = \<lparr>faToken = [], faLocalPort = 0, faRemotePort = 0, faBindAll = False\<rparr>"

definition forward_fields :: "(string \<times> (json \<Rightarrow> forward_args \<Rightarrow> forward_args res)) list" where
  "forward_fields =
     [(''token'', field dec_string faToken (\<lambda>x. faToken_update (\<lambda>_. x))),
      (''local_port'', field dec_int faLocalPort (\<lambda>x. faLocalPort_update (\<lambda>_. x))),
      (''remote_port'', field dec_int faRemotePort (\<lambda>x. faRemotePort_update (\<lambda>_. x))),
      (''bind_all'', field dec_bool faBindAll (\<lambda>x. faBindAll_update (\<lambda>_. x)))]"

definition zero_socks_args :: socks_args where
  "zero_socks_args = \<lparr>xaToken = [], xaListen = []\<rparr>"

definition socks_fields :: "(string \<times> (json \<Rightarrow> socks_args \<Rightarrow> socks_args res)) list" where
  "socks_fields =
     [(''token'', field dec_string xaToken (\<lambda>x. xaToken_update (\<lambda>_. x))),
      (''listen'', field dec_string xaListen (\<lambda>x. xaListen_update (\<lambda>_. x)))]"

definition zero_send_args :: send_args where
  "zero_send_args = \<lparr>sdToken = [], sdPaths = [], sdRemoteDir = []\<rparr>"

definition send_fields :: "(string \<times> (json \<Rightarrow> send_args \<Rightarrow> send_args res)) list" where
  "send_fields =
     [(''token'', field dec_string sdToken (\<lambda>x. sdToken_update (\<lambda>_. x))),
      (''paths'', field (dec_slice dec_string []) sdPaths (\<lambda>x. sdPaths_update (\<lambda>_. x))),
      (''remote_dir'', field dec_string sdRemoteDir (\<lambda>x. sdRemoteDir_update (\<lambda>_. x)))]"

definition zero_list_args :: list_args where
  "zero_list_args = \<lparr>lsToken = [], lsDir = []\<rparr>"

definition list_fields :: "(string \<times> (json \<Rightarrow> list_args \<Rightarrow> list_args res)) list" where
  "list_fields =
     [(''token'', field dec_string lsToken (\<lambda>x. lsToken_update (\<lambda>_. x))),
      (''dir'', field dec_string lsDir (\<lambda>x. lsDir_update (\<lambda>_. x)))]"

definition zero_download_args :: download_args where
  "zero_download_args = \<lparr>dlToken = [], dlRemotePaths = [], dlLocalDir = []\<rparr>"

definition download_fields :: "(string \<times> (json \<Rightarrow> download_args \<Rightarrow> download_args res)) list" where
  "download_fields =
     [(''token'', field dec_string dlToken (\<lambda>x. dlToken_update (\<lambda>_. x))),
      (''remote_paths'', field (dec_slice dec_string []) dlRemotePaths (\<lambda>x. dlRemotePaths_update (\<lambda>_. x))),
      (''local_dir'', field dec_string dlLocalDir (\<lambda>x. dlLocalDir_update (\<lambda>_. x)))]"

definition zero_token_args :: token_args where
  "zero_token_args = \<lparr>taToken = [], taTimeout = 0\<rparr>"

definition token_fields :: "(string \<times> (json \<Rightarrow> token_args \<Rightarrow> token_args res)) list" where
  "token_fields =
     [(''token'', field dec_string taToken (\<lambda>x. taToken_update (\<lambda>_. x))),
      (''timeout_s'', field dec_float taTimeout (\<lambda>x. taTimeout_update (\<lambda>_. x)))]"

definition zero_session_args :: session_args where
  "zero_session_args = \<lparr>ssSessionID = []\<rparr>"

definition session_fields :: "(string \<times> (json \<Rightarrow> session_args \<Rightarrow> session_args res)) list" where
  "session_fields = [(''session_id'', field dec_string ssSessionID (\<lambda>x. ssSessionID_update (\<lambda>_. x)))]"

section \<open>Requests\<close>

text \<open>The arguments stay undecoded; \<open>None\<close> is an empty \<open>RawMessage\<close>.\<close>

record request =
  rqOp :: string
  rqArgs :: "json option"

definition zero_request :: request where
  "zero_request = \<lparr>rqOp = [], rqArgs = None\<rparr>"

definition request_fields :: "(string \<times> (json \<Rightarrow> request \<Rightarrow> request res)) list" where
  "request_fields =
     [(''op'', field dec_string rqOp (\<lambda>x. rqOp_update (\<lambda>_. x))),
      (''args'', field (\<lambda>j old. Inr (Some j)) rqArgs (\<lambda>x. rqArgs_update (\<lambda>_. x)))]"

datatype command =
    GetCaps
  | ListSessions
  | Stop session_args
  | ParseToken token_args
  | PingServer token_args
  | ProbeServer token_args
  | StartServer server_args
  | StartForward forward_args
  | StartSSHForward token_args
  | StartSocks socks_args
  | SendFiles send_args
  | ListRemote list_args
  | Download download_args

text \<open>\<open>decode\<close>, and what becomes of its result.\<close>

definition decode_args ::
    "(string \<times> (json \<Rightarrow> 'r \<Rightarrow> 'r res)) list \<Rightarrow> 'r \<Rightarrow> ('r \<Rightarrow> 'q) \<Rightarrow> json \<Rightarrow> 'q res" where
  "decode_args tab zero f raw =
     (case dec_struct tab raw zero of
        Inl err \<Rightarrow> Inl (err_code CodeBadRequest ''invalid args: %v'' [FErr err])
      | Inr a \<Rightarrow> Inr (f a))"

definition decode_command :: "request \<Rightarrow> command res" where
  "decode_command req =
     (let raw = (case rqArgs req of None \<Rightarrow> JObject [] | Some j \<Rightarrow> j); op = rqOp req
      in if op = ''get_caps'' then Inr GetCaps
         else if op = ''list_sessions'' then Inr ListSessions
         else if op = ''stop'' then decode_args session_fields zero_session_args Stop raw
         else if op = ''parse_token'' then decode_args token_fields zero_token_args ParseToken raw
         else if op = ''ping'' then decode_args token_fields zero_token_args PingServer raw
         else if op = ''probe'' then decode_args token_fields zero_token_args ProbeServer raw
         else if op = ''start_server'' then decode_args server_fields zero_server_args StartServer raw
         else if op = ''start_forward'' then decode_args forward_fields zero_forward_args StartForward raw
         else if op = ''start_ssh_forward'' then decode_args token_fields zero_token_args StartSSHForward raw
         else if op = ''start_socks'' then decode_args socks_fields zero_socks_args StartSocks raw
         else if op = ''send_files'' then decode_args send_fields zero_send_args SendFiles raw
         else if op = ''list_remote'' then decode_args list_fields zero_list_args ListRemote raw
         else if op = ''download'' then decode_args download_fields zero_download_args Download raw
         else Inl (err_code CodeBadRequest ''unknown op %q'' [FStr op]))"

section \<open>Running a command\<close>

text \<open>
  The surroundings of a command: the clock, the order in which the session map is visited, the
  resolver and tailcat's token parser, listeners, the outcomes of pings and probes for a time limit,
  and the other side's file service. \<open>ceRender\<close> is \<open>Error()\<close>.
\<close>

record call_env =
  ceRender :: "gerror \<Rightarrow> string"
  ceNow :: int
  ceOrder :: "string list"
  ceServer :: server_env
  ceArch :: string
  ceBuildInfo :: "(string \<times> string \<times> string option) list option"
  ceLookup :: resolver
  ceParse :: blob_parser
  ceListen :: "string \<Rightarrow> (int \<times> string) res"
  ceWide :: "rat \<Rightarrow> int"
  cePing :: "int \<Rightarrow> (nat \<Rightarrow> attempt) \<times> ping_result res \<times> rat"
  ceProbe :: "int \<Rightarrow> probe_net"
  ceShare :: share_net
  ceReadDir :: "string \<Rightarrow> finfo list res"

text \<open>The results that the handlers return; \<open>RNothing\<close> is the empty object for \<open>nil\<close>.\<close>

datatype result =
    RMap event
  | RSessions "event list"
  | REntries "entry list"
  | RProbe probe_result
  | RNothing

text \<open>The rest of a command goroutine works on its session, here undisturbed.\<close>

definition run_setup :: "int \<Rightarrow> string \<Rightarrow> string instr list \<Rightarrow> string engine \<Rightarrow> string engine" where
  "run_setup now sid prog =
     on_session sid (\<lambda>w. sys.truncate (alone now True prog (sys.extend w (gsys.fields [] [] [] []))))"

definition json_str :: "jval option \<Rightarrow> string" where
  "json_str v = (case v of Some (JStr s) \<Rightarrow> s | _ \<Rightarrow> [])"

definition settle ::
    "int \<Rightarrow> (event \<times> string instr list) res \<times> string engine \<Rightarrow> result res \<times> string engine" where
  "settle now r =
     (case r of
        (Inl err, e) \<Rightarrow> (Inl err, e)
      | (Inr (m, prog), e) \<Rightarrow> (Inr (RMap m), run_setup now (json_str (m ''session_id'')) prog e))"

fun run_command :: "call_env \<Rightarrow> command \<Rightarrow> string engine \<Rightarrow> result res \<times> string engine" where
  "run_command env GetCaps e =
     (Inr (RMap (caps (seGOOS (ceServer env)) (ceArch env) (seVersion (ceServer env))
        (tailcat_version (ceBuildInfo env)) (seSSHSupported (ceServer env)) (ceOrder env) e)), e)"
| "run_command env ListSessions e =
     (case list_sessions (ceOrder env) e of Inl err \<Rightarrow> (Inl err, e) | Inr ms \<Rightarrow> (Inr (RSessions ms), e))"
| "run_command env (Stop a) e =
     (case stop_session (ceNow env) (ssSessionID a) e of
        (Some err, e) \<Rightarrow> (Inl err, e) | (None, e) \<Rightarrow> (Inr RNothing, e))"
| "run_command env (ParseToken a) e =
     (case parse_token (ceLookup env) (ceParse env) (taToken a) of
        Inl err \<Rightarrow> (Inl err, e) | Inr m \<Rightarrow> (Inr (RMap m), e))"
| "run_command env (PingServer a) e =
     (case cePing env (timeout_ns (ceWide env) (taTimeout a) 15) of
        (obs, disco, elapsed) \<Rightarrow>
          (case ping (normalize_token (ceLookup env) (ceParse env) (taToken a))
              (fst (warm_client obs)) disco elapsed of
             Inl err \<Rightarrow> (Inl err, e) | Inr m \<Rightarrow> (Inr (RMap m), e)))"
| "run_command env (ProbeServer a) e =
     (case probe (ceWide env) (normalize_token (ceLookup env) (ceParse env)) (ceProbe env) a of
        Inl err \<Rightarrow> (Inl err, e) | Inr r \<Rightarrow> (Inr (RProbe r), e))"
| "run_command env (StartServer a) e =
     (case start_server (ceRender env) (ceServer env) (ceNow env) a e of
        (Inl err, e) \<Rightarrow> (Inl err, e)
      | (Inr (sid, pl), e) \<Rightarrow> settle (ceNow env) (Inr ([''session_id'' \<mapsto> JStr sid], spSetup pl), e))"
| "run_command env (StartForward a) e =
     settle (ceNow env) (start_forward (seGOOS (ceServer env)) (ceNow env)
       (normalize_token (ceLookup env) (ceParse env)) (ceListen env) a KindForward e)"
| "run_command env (StartSSHForward a) e =
     settle (ceNow env) (start_ssh_forward (seGOOS (ceServer env)) (ceNow env)
       (normalize_token (ceLookup env) (ceParse env)) (ceListen env) (taToken a) e)"
| "run_command env (StartSocks a) e =
     settle (ceNow env) (start_socks (ceNow env)
       (normalize_token (ceLookup env) (ceParse env)) (ceListen env) a e)"
| "run_command env (SendFiles a) e =
     settle (ceNow env) (send_files (ceNow env)
       (normalize_token (ceLookup env) (ceParse env)) (seStat (ceServer env)) a e)"
| "run_command env (ListRemote a) e =
     (case list_remote (ceRender env) (ceNow env) (normalize_token (ceLookup env) (ceParse env))
         (ceShare env) (ceReadDir env) a e of
        (Inl err, e) \<Rightarrow> (Inl err, e) | (Inr es, e) \<Rightarrow> (Inr (REntries es), e))"
| "run_command env (Download a) e =
     settle (ceNow env) (download_cmd (ceNow env)
       (normalize_token (ceLookup env) (ceParse env)) (seStat (ceServer env)) a e)"

text \<open>\<open>dispatch\<close> with the handlers as an argument.\<close>

definition dispatch :: "(command \<Rightarrow> 'e \<Rightarrow> result res \<times> 'e) \<Rightarrow> request \<Rightarrow> 'e \<Rightarrow> result res \<times> 'e" where
  "dispatch run req e =
     (case decode_command req of Inl err \<Rightarrow> (Inl err, e) | Inr c \<Rightarrow> run c e)"

section \<open>Responses\<close>

record response =
  rsOK :: bool
  rsResult :: "result option"
  rsError :: "(string \<times> string) option"

definition failure :: "string \<Rightarrow> string \<Rightarrow> response" where
  "failure code msg = \<lparr>rsOK = False, rsResult = None, rsError = Some (code, msg)\<rparr>"

text \<open>A panic of a handler is recovered; the engine is left as the handler had it.\<close>

definition respond :: "(gerror \<Rightarrow> string) \<Rightarrow> result res \<Rightarrow> response" where
  "respond render r =
     (case r of
        Inl (ErrPanic msg) \<Rightarrow> failure CodeInternal (''panic: '' @ msg)
      | Inl err \<Rightarrow> failure (code_of err) (render err)
      | Inr res \<Rightarrow> \<lparr>rsOK = True, rsResult = Some res, rsError = None\<rparr>)"

definition call ::
    "(gerror \<Rightarrow> string) \<Rightarrow> (command \<Rightarrow> 'e \<Rightarrow> result res \<times> 'e) \<Rightarrow> string \<Rightarrow> 'e \<Rightarrow>
     response \<times> 'e" where
  "call render run reqJSON e =
     (case (case json_scan reqJSON of Inl err \<Rightarrow> Inl err | Inr j \<Rightarrow> dec_struct request_fields j zero_request) of
        Inl err \<Rightarrow> (failure CodeBadRequest (''invalid JSON request: '' @ render err), e)
      | Inr req \<Rightarrow> (case dispatch run req e of (r, e) \<Rightarrow> (respond render r, e)))"

definition engine_call :: "call_env \<Rightarrow> string \<Rightarrow> string engine \<Rightarrow> response \<times> string engine" where
  "engine_call env = call (ceRender env) (run_command env)"

section \<open>Requests as a client writes them\<close>

text \<open>The JSON form of the argument structs, as their field tags say.\<close>

definition enc_server_args :: "server_args \<Rightarrow> json" where
  "enc_server_args a =
     JObject [(''ports'', JArray (map enc_int (saPorts a))), (''all'', JBoolean (saAll a)),
       (''exit_node'', JBoolean (saExitNode a)),
       (''files'', case saFiles a of None \<Rightarrow> JNull
          | Some f \<Rightarrow> JObject [(''dir'', JString (fsDir f)), (''mode'', JString (fsMode f))]),
       (''ssh'', JBoolean (saSSH a)), (''key'', JString (saKey a)),
       (''share_paths'', JArray (map JString (saSharePaths a))), (''name'', JString (saName a))]"

definition enc_forward_args :: "forward_args \<Rightarrow> json" where
  "enc_forward_args a =
     JObject [(''token'', JString (faToken a)), (''local_port'', enc_int (faLocalPort a)),
       (''remote_port'', enc_int (faRemotePort a)), (''bind_all'', JBoolean (faBindAll a))]"

definition enc_token_args :: "token_args \<Rightarrow> json" where
  "enc_token_args a = JObject [(''token'', JString (taToken a)), (''timeout_s'', enc_float (taTimeout a))]"

fun enc_command :: "command \<Rightarrow> string \<times> json" where
  "enc_command GetCaps = (''get_caps'', JObject [])"
| "enc_command ListSessions = (''list_sessions'', JObject [])"
| "enc_command (Stop a) = (''stop'', JObject [(''session_id'', JString (ssSessionID a))])"
| "enc_command (ParseToken a) = (''parse_token'', enc_token_args a)"
| "enc_command (PingServer a) = (''ping'', enc_token_args a)"
| "enc_command (ProbeServer a) = (''probe'', enc_token_args a)"
| "enc_command (StartServer a) = (''start_server'', enc_server_args a)"
| "enc_command (StartForward a) = (''start_forward'', enc_forward_args a)"
| "enc_command (StartSSHForward a) = (''start_ssh_forward'', enc_token_args a)"
| "enc_command (StartSocks a) =
     (''start_socks'', JObject [(''token'', JString (xaToken a)), (''listen'', JString (xaListen a))])"
| "enc_command (SendFiles a) =
     (''send_files'', JObject [(''token'', JString (sdToken a)),
        (''paths'', JArray (map JString (sdPaths a))), (''remote_dir'', JString (sdRemoteDir a))])"
| "enc_command (ListRemote a) =
     (''list_remote'', JObject [(''token'', JString (lsToken a)), (''dir'', JString (lsDir a))])"
| "enc_command (Download a) =
     (''download'', JObject [(''token'', JString (dlToken a)),
        (''remote_paths'', JArray (map JString (dlRemotePaths a))), (''local_dir'', JString (dlLocalDir a))])"

definition enc_request :: "command \<Rightarrow> json" where
  "enc_request c = JObject [(''op'', JString (fst (enc_command c))), (''args'', snd (enc_command c))]"

text \<open>Numbers that Go's types can hold.\<close>

fun representable :: "command \<Rightarrow> bool" where
  "representable (StartServer a) \<longleftrightarrow> list_all int64 (saPorts a)"
| "representable (StartForward a) \<longleftrightarrow> int64 (faLocalPort a) \<and> int64 (faRemotePort a)"
| "representable (ParseToken a) \<longleftrightarrow> float64 (taTimeout a)"
| "representable (PingServer a) \<longleftrightarrow> float64 (taTimeout a)"
| "representable (ProbeServer a) \<longleftrightarrow> float64 (taTimeout a)"
| "representable (StartSSHForward a) \<longleftrightarrow> float64 (taTimeout a)"
| "representable _ \<longleftrightarrow> True"

lemma dec_token_args:
  "float64 (taTimeout a) \<Longrightarrow> decode_args token_fields zero_token_args f (enc_token_args a) = Inr (f a)"
  by (cases a) (simp add: decode_args_def token_fields_def zero_token_args_def enc_token_args_def
      find_field_map_of field_def)

lemma files_spec_eta [simp]: "\<lparr>fsDir = fsDir x, fsMode = fsMode x\<rparr> = (x :: files_spec)"
  by (cases x) simp

lemma dec_server_args:
  "list_all int64 (saPorts a) \<Longrightarrow>
     decode_args server_fields zero_server_args f (enc_server_args a) = Inr (f a)"
proof (cases a)
  case (fields saPorts saAll saExitNode saFiles saSSH saKey saSharePaths saName)
  assume "list_all int64 (server_args.saPorts a)"
  with fields show ?thesis
    by (cases saFiles)
      (simp_all add: decode_args_def server_fields_def zero_server_args_def enc_server_args_def
        find_field_map_of field_def dec_pointer_def files_spec_fields_def zero_files_spec_def)
qed

lemma dec_forward_args:
  "int64 (faLocalPort a) \<Longrightarrow> int64 (faRemotePort a) \<Longrightarrow>
     decode_args forward_fields zero_forward_args f (enc_forward_args a) = Inr (f a)"
  by (cases a) (simp add: decode_args_def forward_fields_def zero_forward_args_def enc_forward_args_def
      find_field_map_of field_def)

lemma decode_enc_command:
  "representable c \<Longrightarrow>
     decode_command \<lparr>rqOp = fst (enc_command c), rqArgs = Some (snd (enc_command c))\<rparr> = Inr c"
proof (cases c)
  case (Stop a)
  then show ?thesis
    by (cases a) (simp add: decode_command_def decode_args_def session_fields_def zero_session_args_def
        find_field_map_of field_def)
next
  case (StartSocks a)
  then show ?thesis
    by (cases a) (simp add: decode_command_def decode_args_def socks_fields_def zero_socks_args_def
        find_field_map_of field_def)
next
  case (SendFiles a)
  then show ?thesis
    by (cases a) (simp add: decode_command_def decode_args_def send_fields_def zero_send_args_def
        find_field_map_of field_def)
next
  case (ListRemote a)
  then show ?thesis
    by (cases a) (simp add: decode_command_def decode_args_def list_fields_def zero_list_args_def
        find_field_map_of field_def)
next
  case (Download a)
  then show ?thesis
    by (cases a) (simp add: decode_command_def decode_args_def download_fields_def zero_download_args_def
        find_field_map_of field_def)
qed (simp_all add: decode_command_def dec_token_args dec_server_args dec_forward_args)

text \<open>The strings of a command, which must be UTF-8 to have a text.\<close>

fun command_strings :: "command \<Rightarrow> string list" where
  "command_strings (Stop a) = [ssSessionID a]"
| "command_strings (ParseToken a) = [taToken a]"
| "command_strings (PingServer a) = [taToken a]"
| "command_strings (ProbeServer a) = [taToken a]"
| "command_strings (StartServer a) =
     (case saFiles a of None \<Rightarrow> [] | Some f \<Rightarrow> [fsDir f, fsMode f]) @ [saKey a, saName a] @ saSharePaths a"
| "command_strings (StartForward a) = [faToken a]"
| "command_strings (StartSSHForward a) = [taToken a]"
| "command_strings (StartSocks a) = [xaToken a, xaListen a]"
| "command_strings (SendFiles a) = [sdToken a, sdRemoteDir a] @ sdPaths a"
| "command_strings (ListRemote a) = [lsToken a, lsDir a]"
| "command_strings (Download a) = [dlToken a, dlLocalDir a] @ dlRemotePaths a"
| "command_strings _ = []"

lemma valid_names [simp]:
  "valid_utf8 ''op''" "valid_utf8 ''args''" "valid_utf8 ''session_id''" "valid_utf8 ''token''"
  "valid_utf8 ''timeout_s''" "valid_utf8 ''key''" "valid_utf8 ''share_paths''" "valid_utf8 ''local_port''"
  "valid_utf8 ''remote_port''" "valid_utf8 ''bind_all''" "valid_utf8 ''listen''" "valid_utf8 ''paths''"
  "valid_utf8 ''remote_dir''" "valid_utf8 ''remote_paths''" "valid_utf8 ''local_dir''"
  "valid_utf8 (fst (enc_command c))"
  by (simp_all add: valid_utf8_def byte_of_def) (cases c; simp add: byte_of_def)

lemma depth_flat:
  "depth (JArray (map JString ss)) \<le> 1" "depth (JArray (map enc_int is)) \<le> 1"
  by (simp_all add: comp_def foldr_zero)

lemma textual_request:
  assumes "representable c" "list_all valid_utf8 (command_strings c)"
  shows "textual (enc_request c)" "depth (enc_request c) \<le> max_depth"
proof -
  have "textual (snd (enc_command c)) \<and> depth (snd (enc_command c)) \<le> 3"
    using assms
    by (cases c) (auto simp: enc_token_args_def enc_forward_args_def enc_server_args_def comp_def
        foldr_zero list_all_iff split: option.split)
  then show "textual (enc_request c)" "depth (enc_request c) \<le> max_depth"
    by (auto simp: enc_request_def max_depth_def)
qed

section \<open>Error codes\<close>

definition api_codes :: "string set" where
  "api_codes = {CodeBadRequest, CodeInvalidToken, CodeUnsupported, CodeNotFound, CodeInternal}"

named_theorems codes \<open>error codes of the operations\<close>

lemma codes_in [simp]:
  "CodeBadRequest \<in> api_codes" "CodeInvalidToken \<in> api_codes" "CodeUnsupported \<in> api_codes"
  "CodeNotFound \<in> api_codes" "CodeInternal \<in> api_codes"
  by (simp_all add: api_codes_def)

lemma decode_args_code: "decode_args tab zero f raw = Inl err \<Longrightarrow> code_of err = CodeBadRequest"
  by (auto simp: decode_args_def split: sum.splits)

lemma decode_command_code: "decode_command req = Inl err \<Longrightarrow> code_of err = CodeBadRequest"
  by (auto simp: decode_command_def Let_def dest: decode_args_code split: if_splits)

lemma normalize_token_code [codes]:
  "normalize_token lookup parse tok = Inl err \<Longrightarrow> code_of err \<in> api_codes"
  by (auto simp: normalize_token_def Let_def split: if_splits sum.splits option.splits)

lemma parse_token_code [codes]: "parse_token lookup parse tok = Inl err \<Longrightarrow> code_of err \<in> api_codes"
  by (auto simp: parse_token_def codes split: sum.splits)

lemma ping_code [codes]:
  "ping (normalize_token lookup parse tok) warm disco elapsed = Inl err \<Longrightarrow> code_of err \<in> api_codes"
  by (auto simp: ping_def Let_def codes split: sum.splits option.splits prod.splits)

lemma probe_code [codes]:
  "probe wide (normalize_token lookup parse) net a = Inl err \<Longrightarrow> code_of err \<in> api_codes"
  by (auto simp: probe_def Let_def codes split: sum.splits option.splits)

lemma add_session_code [codes]: "add_session now k e = (Inl err, e') \<Longrightarrow> code_of err \<in> api_codes"
  by (auto simp: add_session_def Let_def split: if_splits)

lemma sift_panics: "sift n out = Inl err \<Longrightarrow> err = ErrPanic ''interface conversion''"
  by (induction n out rule: sift.induct) (auto split: option.splits if_splits)

lemma list_sessions_panics:
  assumes "list_sessions order e = Inl err"
  shows "err = ErrPanic ''interface conversion''"
proof -
  have "fold (\<lambda>i r. case r of Inl err \<Rightarrow> Inl err | Inr out \<Rightarrow> sift i out) is r = Inl err \<Longrightarrow>
      (\<And>e. r = Inl e \<Longrightarrow> e = ErrPanic ''interface conversion'') \<Longrightarrow> err = ErrPanic ''interface conversion''"
    for "is" and r :: "event list res"
    by (induction "is" arbitrary: r) (force split: sum.splits dest: sift_panics)+
  from this [of _ "Inr (map snapshot (sessions_in order e))"] assms show ?thesis
    by (simp add: list_sessions_def sort_sessions_def)
qed

lemma check_server_args_code [codes]: "check_server_args env a = Inl err \<Longrightarrow> code_of err \<in> api_codes"
  using stat_all_code [of env "saSharePaths a"] check_ports_code [of "saPorts a"]
  by (auto simp: check_server_args_def split: if_splits option.splits sum.splits)

lemma plan_port22_code: "plan_port22 env a m = Inl (cause, err) \<Longrightarrow> code_of err \<in> api_codes"
  by (auto simp: plan_port22_def ssh_shell_handler_def Let_def split: if_splits option.splits sum.splits)

lemma start_server_code [codes]: "start_server render env now a e = (Inl err, e') \<Longrightarrow> code_of err \<in> api_codes"
  by (auto simp: start_server_def dest: codes plan_port22_code split: sum.splits prod.splits)

lemma listen_addr_code [codes]: "listen_addr s d = Inl err \<Longrightarrow> code_of err \<in> api_codes"
  by (auto simp: listen_addr_def Let_def split: if_splits option.splits sum.splits)

lemma start_forward_code [codes]:
  "start_forward goos now (normalize_token lookup parse) listen a k e = (Inl err, e') \<Longrightarrow>
     code_of err \<in> api_codes"
  by (auto simp: start_forward_def Let_def dest: codes split: if_splits sum.splits prod.splits)

lemma start_socks_code [codes]:
  "start_socks now (normalize_token lookup parse) listen a e = (Inl err, e') \<Longrightarrow> code_of err \<in> api_codes"
  by (auto simp: start_socks_def dest: codes split: sum.splits prod.splits)

lemma stat_each_code: "stat_each stat ps = Some err \<Longrightarrow> code_of err = CodeBadRequest"
  by (induction ps) (auto split: sum.splits)

lemma send_files_code [codes]:
  "send_files now (normalize_token lookup parse) stat a e = (Inl err, e') \<Longrightarrow> code_of err \<in> api_codes"
  by (auto simp: send_files_def dest: codes stat_each_code split: if_splits option.splits sum.splits prod.splits)

lemma download_code [codes]:
  "download_cmd now (normalize_token lookup parse) stat a e = (Inl err, e') \<Longrightarrow> code_of err \<in> api_codes"
  by (auto simp: download_cmd_def dest: codes split: if_splits sum.splits prod.splits)

lemma list_remote_code [codes]:
  "list_remote render now (normalize_token lookup parse) sn readDir a e = (Inl err, e') \<Longrightarrow>
     code_of err \<in> api_codes"
  by (auto simp: list_remote_def Let_def dest: codes split: option.splits sum.splits prod.splits)

lemma settle_code: "settle now r = (Inl err, e') \<longleftrightarrow> r = (Inl err, e')"
  by (auto simp: settle_def split: sum.splits prod.splits)

lemma run_command_code: "run_command env c e = (Inl err, e') \<Longrightarrow> code_of err \<in> api_codes"
proof (cases c)
  case (Stop a)
  assume "run_command env c e = (Inl err, e')"
  then show ?thesis
    by (auto simp: Stop stop_session_def find_session_def split: option.splits sum.splits)
qed (auto simp: settle_code start_ssh_forward_def dest: codes list_sessions_panics split: sum.splits prod.splits)

section \<open>Failed commands\<close>

text \<open>The sessions of an engine that are starting or running.\<close>

definition live :: "string engine \<Rightarrow> (string \<times> string session) set" where
  "live e = {(i, s). eSessions e i = Some s \<and> active s}"

lemma live_same: "eSessions e' = eSessions e \<Longrightarrow> live e' = live e"
  by (simp add: live_def)

lemma live_ended: "eSessions e' = (eSessions e)(i \<mapsto> s) \<Longrightarrow> \<not> active s \<Longrightarrow> live e' \<subseteq> live e"
  by (auto simp: live_def split: if_splits)

lemma set_state_ends: "terminal st \<Longrightarrow> terminal (sState (sesn (set_state now st d w)))"
  by (auto simp: set_state_def state_change_def emit_def Let_def)

lemma shutdown_state: "sState (sesn (shutdown w)) = sState (sesn w)"
  by (simp add: shutdown_def cancel_def Let_def fold_close)

lemma fail_not_active: "\<not> active (sesn (fail now msg w))"
proof -
  have "terminal (sState (sesn (fail now msg w)))"
    by (simp add: fail_def shutdown_state set_state_ends terminal_def [of StateFailed])
  then show ?thesis using active_not_terminal by blast
qed

lemma add_session_ok:
  "add_session now k e = (Inr i, e') \<Longrightarrow> eSessions e' = (eSessions e)(i \<mapsto> new_session now i k)"
  by (auto simp: add_session_def Let_def split: if_splits)

lemma start_server_failed:
  assumes "start_server render env now a e = (Inl err, e')"
  shows "live e' \<subseteq> live e"
proof (cases "check_server_args env a")
  case (Inr m)
  obtain r e1 where s: "add_session now KindServer e = (r, e1)" by (metis prod.collapse)
  show ?thesis
  proof (cases r)
    case (Inl err1)
    with assms \<open>check_server_args env a = Inr m\<close> s have "e' = e1" "e1 = e"
      by (auto simp: start_server_def add_session_def Let_def split: if_splits)
    then show ?thesis by simp
  next
    case (Inr sid)
    with assms \<open>check_server_args env a = Inr m\<close> s obtain cause where
      e': "e' = on_session sid (fail now (render cause)) e1"
      by (auto simp: start_server_def split: sum.splits)
    have "eSessions e1 = (eSessions e)(sid \<mapsto> new_session now sid KindServer)"
      using add_session_ok s Inr by blast
    then have "\<exists>s. eSessions e' = (eSessions e)(sid \<mapsto> s) \<and> \<not> active s"
      by (auto simp: e' on_session_def Let_def fail_not_active)
    then show ?thesis using live_ended by blast
  qed
qed (use assms in \<open>auto simp: start_server_def\<close>)

lemma list_remote_failed:
  "list_remote render now tok sn readDir a e = (Inl err, e') \<Longrightarrow> live e' \<subseteq> live e"
  using list_remote_effect [where render = render and now = now and tok = tok and sn = sn and
      readDir = readDir and a = a and e = e]
  by (auto simp: Let_def active_def intro: live_ended [THEN subsetD])

lemma settled_failed:
  "start_forward goos now tok listen a' k e = (Inl err, e') \<Longrightarrow> eSessions e' = eSessions e"
  "start_socks now tok listen b e = (Inl err, e') \<Longrightarrow> eSessions e' = eSessions e"
  "send_files now tok stat c e = (Inl err, e') \<Longrightarrow> eSessions e' = eSessions e"
  "download_cmd now tok stat d e = (Inl err, e') \<Longrightarrow> eSessions e' = eSessions e"
  by (auto simp: start_forward_def start_socks_def send_files_def download_cmd_def add_session_def Let_def
      split: if_splits option.splits sum.splits prod.splits)

lemma run_command_failed: "run_command env c e = (Inl err, e') \<Longrightarrow> live e' \<subseteq> live e"
proof (cases c)
  case (Stop a)
  assume "run_command env c e = (Inl err, e')"
  then show ?thesis
    by (auto simp: Stop stop_session_def find_session_def split: option.splits sum.splits)
next
  case (StartServer a)
  assume "run_command env c e = (Inl err, e')"
  then show ?thesis
    by (auto simp: StartServer settle_def split: sum.splits prod.splits dest!: start_server_failed)
next
  case (ListRemote a)
  assume "run_command env c e = (Inl err, e')"
  then show ?thesis
    by (auto simp: ListRemote split: sum.splits prod.splits dest!: list_remote_failed)
qed (auto simp: settle_code start_ssh_forward_def live_def dest!: settled_failed
    split: sum.splits prod.splits)

section \<open>The interface of the handlers\<close>

text \<open>
  What \<open>Call\<close> relies on: a handler that fails does so with an error whose code belongs to the API,
  and starts nothing.
\<close>

locale command_handlers =
  fixes run :: "command \<Rightarrow> 'e \<Rightarrow> result res \<times> 'e"
    and alive :: "'e \<Rightarrow> 'l set"
  assumes run_code: "run c e = (Inl err, e') \<Longrightarrow> code_of err \<in> api_codes"
    and run_failed: "run c e = (Inl err, e') \<Longrightarrow> alive e' \<subseteq> alive e"
begin

lemma dispatch_failed: "dispatch run req e = (Inl err, e') \<Longrightarrow> code_of err \<in> api_codes \<and> alive e' \<subseteq> alive e"
  by (auto simp: dispatch_def decode_command_code dest: run_code run_failed split: sum.splits)

lemma respond_cases:
  "respond render r =
     (case r of
        Inr res \<Rightarrow> \<lparr>rsOK = True, rsResult = Some res, rsError = None\<rparr>
      | Inl err \<Rightarrow> failure (code_of err)
          (case err of ErrPanic msg \<Rightarrow> ''panic: '' @ msg | _ \<Rightarrow> render err))"
  by (auto simp: respond_def split: sum.split gerror.split)

text \<open>A response is a success with a result or a failure with a code of the API.\<close>

lemma call_response:
  "case call render run reqJSON e of
     (rs, e') \<Rightarrow>
       (\<exists>res. rs = \<lparr>rsOK = True, rsResult = Some res, rsError = None\<rparr>) \<or>
       (\<exists>code msg. rs = failure code msg \<and> code \<in> api_codes \<and> alive e' \<subseteq> alive e)"
proof (cases "case json_scan reqJSON of Inl err \<Rightarrow> Inl err | Inr j \<Rightarrow> dec_struct request_fields j zero_request")
  case (Inl err)
  then show ?thesis by (auto simp: call_def)
next
  case (Inr req)
  obtain r e' where d: "dispatch run req e = (r, e')" by (metis prod.collapse)
  with dispatch_failed [of req e _ e'] Inr show ?thesis
    by (cases r) (auto simp: call_def respond_cases)
qed

end

interpretation engine: command_handlers "run_command env" live for env
  by unfold_locales (auto dest: run_command_code run_command_failed)

section \<open>Properties\<close>

text \<open>
  C26. The request format works for every command: written as JSON text with the field tags of the
  argument structs, the command arrives unchanged and is executed, and its outcome is what the
  response carries. The strings of the command must be UTF-8.
\<close>

theorem commands_round_trip:
  assumes "representable c" "list_all valid_utf8 (command_strings c)"
  shows "engine_call env (json_print (enc_request c)) e =
    (case run_command env c e of (r, e') \<Rightarrow> (respond (ceRender env) r, e'))"
proof -
  have "dec_struct request_fields (enc_request c) zero_request =
      Inr \<lparr>rqOp = fst (enc_command c), rqArgs = Some (snd (enc_command c))\<rparr>"
    by (simp add: enc_request_def request_fields_def zero_request_def find_field_map_of field_def)
  moreover have "json_scan (json_print (enc_request c)) = Inr (enc_request c)"
    using json_scan_print [OF textual_request [OF assms], of "[]"] by simp
  ultimately show ?thesis using decode_enc_command [OF assms(1)]
    by (simp add: engine_call_def call_def dispatch_def)
qed

text \<open>
  What is not a request does nothing: if the text is not JSON, the envelope has the wrong types,
  the operation is unknown or the arguments do not fit it, the answer is \<open>bad_request\<close> and the engine
  is unchanged.
\<close>

lemma bad_requests_do_nothing:
  "(\<exists>c. (case (case json_scan reqJSON of Inl err \<Rightarrow> Inl err | Inr j \<Rightarrow> dec_struct request_fields j zero_request) of
        Inl err \<Rightarrow> Inl err | Inr req \<Rightarrow> decode_command req) = Inr c) \<or>
   (\<exists>msg. engine_call env reqJSON e = (failure ''bad_request'' msg, e))"
proof -
  have "code_of err = ''bad_request''" if "decode_command req = Inl err" for req err
    using decode_command_code [OF that] by (simp add: CodeBadRequest_def)
  then show ?thesis
    by (auto simp: engine_call_def call_def dispatch_def engine.respond_cases CodeBadRequest_def
        split: sum.splits)
qed

text \<open>Stopping a session that does not exist.\<close>

definition demo_call_env :: call_env where
  "demo_call_env =
     \<lparr>ceRender = (\<lambda>_. ''error''), ceNow = 5, ceOrder = [], ceServer = demo_env, ceArch = ''arm64'',
      ceBuildInfo = None, ceLookup = demo_resolver, ceParse = demo_parser,
      ceListen = (\<lambda>addr. Inr (4000, addr)),
      ceWide = (\<lambda>_. min_int), cePing = (\<lambda>t. (demo_attempts, Inl ErrDeadline, 0)), ceProbe = (\<lambda>t. demo_net),
      ceShare = demo_share, ceReadDir = (\<lambda>_. Inl ErrEOF)\<rparr>"

definition demo_stop :: command where
  "demo_stop = Stop \<lparr>ssSessionID = ''server-1''\<rparr>"

lemma demo_stop_text:
  "json_print (enc_request demo_stop) = ''{\"op\":\"stop\",\"args\":{\"session_id\":\"server-1\"}}''"
  "list_all valid_utf8 (command_strings demo_stop)"
  by (simp_all add: demo_stop_def enc_request_def print_plain plain_char_def byte_of_def quote_mark_def
      backslash_def valid_utf8_def)

theorem commands_round_trip_witness:
  "engine_call demo_call_env ''{\"op\":\"stop\",\"args\":{\"session_id\":\"server-1\"}}'' (new_engine []) =
     (failure ''not_found'' ''error'', new_engine [])"
  using commands_round_trip [of demo_stop, OF _ demo_stop_text(2), of demo_call_env "new_engine []",
      unfolded demo_stop_text(1)]
  by (simp add: demo_stop_def demo_call_env_def stop_session_def find_session_def new_engine_def
      engine.respond_cases err_code_def CodeNotFound_def)

end
