(* ===== verification/Api_Text.thy ===== *)
theory Api_Text
  imports Commands
begin

text \<open>
  The text that \<open>Call\<close> and \<open>Poll\<close> return (\<open>core/engine/commands.go\<close>, \<open>core/engine/engine.go\<close>): the JSON of
  results, responses and events as \<open>encoding/json\<close> writes it, and what the application reads back.
  A nil slice is not told from an empty one: both are written \<open>null\<close> in the fields of a session.
\<close>

section \<open>Values\<close>

text \<open>The first error of a list of outcomes, or all values.\<close>

primrec all_ok :: "'a res list \<Rightarrow> 'a list res" where
  "all_ok [] = Inr []"
| "all_ok (r # rs) = (case r of Inl err \<Rightarrow> Inl err | Inr x \<Rightarrow> map_sum id (Cons x) (all_ok rs))"

text \<open>Go has no JSON for infinities.\<close>

definition enc_num :: "rat \<Rightarrow> json res" where
  "enc_num x =
     (let y = round64 x
      in if \<bar>y\<bar> < float_limit then Inr (enc_float y) else Inl (ErrText ''json: unsupported value: Inf''))"

definition enc_list :: "json list \<Rightarrow> json" where
  "enc_list js = (if js = [] then JNull else JArray js)"

text \<open>\<open>render\<close> is \<open>Error()\<close> of formatted errors, and so \<open>Sprintf\<close>.\<close>

fun enc_jval :: "(gerror \<Rightarrow> string) \<Rightarrow> jval \<Rightarrow> json res" where
  "enc_jval render (JStr s) = Inr (JString s)"
| "enc_jval render (JInt i) = Inr (enc_int i)"
| "enc_jval render (JBool b) = Inr (JBoolean b)"
| "enc_jval render (JNum x) = enc_num x"
| "enc_jval render (JInts is) = Inr (enc_list (map enc_int is))"
| "enc_jval render (JStrs ss) = Inr (enc_list (map JString ss))"
| "enc_jval render (JFmt fmt args) = Inr (JString (render (ErrFmt fmt args)))"

text \<open>Maps are written in the order of their keys.\<close>

definition sorted_keys :: "event \<Rightarrow> string list" where
  "sorted_keys m = sorted_list_of_set (dom m)"

definition enc_map :: "(gerror \<Rightarrow> string) \<Rightarrow> event \<Rightarrow> json res" where
  "enc_map render m =
     map_sum id JObject
       (all_ok (map (\<lambda>k. map_sum id (Pair k) (enc_jval render (the (m k)))) (sorted_keys m)))"

definition enc_maps :: "(gerror \<Rightarrow> string) \<Rightarrow> string \<Rightarrow> event list \<Rightarrow> json res" where
  "enc_maps render key ms =
     map_sum id (\<lambda>js. JObject [(key, JArray js)]) (all_ok (map (enc_map render) ms))"

definition enc_entry :: "entry \<Rightarrow> json" where
  "enc_entry en =
     JObject [(''name'', JString (enName en)), (''size'', enc_int (enSize en)),
       (''is_dir'', JBoolean (enIsDir en)), (''mtime_ms'', enc_int (enModMS en)),
       (''mode'', JString (enMode en)), (''is_link'', JBoolean (enIsLink en)),
       (''dir'', JString (enDirpath en))]"

definition enc_probe :: "probe_result \<Rightarrow> json res" where
  "enc_probe r =
     map_sum id (\<lambda>ms. JObject
       ([(''reachable'', JBoolean (prbReachable r)), (''via'', JString (prbVia r)),
         (''detail'', JString (prbDetail r)), (''latency_ms'', ms)] @
        (case prbManifest r of None \<Rightarrow> [] | Some m \<Rightarrow> [(''manifest'', enc_manifest m)]) @
        [(''sftp'', JBoolean (prbSFTP r)), (''sftp_list'', JBoolean (prbSFTPList r)),
         (''ssh_shell'', JBoolean (prbSSHShell r)), (''cli_fallback'', JBoolean (prbCLIFallback r))]))
       (enc_num (prbLatencyMS r))"

section \<open>Responses\<close>

fun enc_result :: "(gerror \<Rightarrow> string) \<Rightarrow> result \<Rightarrow> json res" where
  "enc_result render (RMap m) = enc_map render m"
| "enc_result render (RSessions ms) = enc_maps render ''sessions'' ms"
| "enc_result render (REntries es) = Inr (JObject [(''entries'', JArray (map enc_entry es))])"
| "enc_result render (RProbe r) = enc_probe r"
| "enc_result render RNothing = Inr (JObject [])"

definition enc_error :: "string \<times> string \<Rightarrow> json" where
  "enc_error e = JObject [(''code'', JString (fst e)), (''message'', JString (snd e))]"

definition enc_response :: "(gerror \<Rightarrow> string) \<Rightarrow> response \<Rightarrow> json res" where
  "enc_response render rs =
     (let enc = (\<lambda>result. JObject ([(''ok'', JBoolean (rsOK rs))] @ result @
          (case rsError rs of None \<Rightarrow> [] | Some e \<Rightarrow> [(''error'', enc_error e)])))
      in case rsResult rs of
           None \<Rightarrow> Inr (enc [])
         | Some r \<Rightarrow> map_sum id (\<lambda>j. enc [(''result'', j)]) (enc_result render r))"

definition marshal_failure :: string where
  "marshal_failure = ''{\"ok\":false,\"error\":{\"code\":\"internal\",\"message\":\"marshal failure\"}}''"

definition must_json :: "json res \<Rightarrow> string" where
  "must_json v = (case v of Inl err \<Rightarrow> marshal_failure | Inr j \<Rightarrow> json_print j)"

definition call_text :: "call_env \<Rightarrow> string \<Rightarrow> string engine \<Rightarrow> string \<times> string engine" where
  "call_text env reqJSON e =
     (case engine_call env reqJSON e of
        (rs, e) \<Rightarrow> (must_json (enc_response (ceRender env) rs), e))"

definition poll_text :: "(gerror \<Rightarrow> string) \<Rightarrow> int \<Rightarrow> 'c engine \<Rightarrow> string \<times> 'c engine" where
  "poll_text render now e =
     (case poll now e of (evs, e) \<Rightarrow> (must_json (enc_maps render ''events'' evs), e))"

section \<open>What is written is JSON\<close>

lemma all_ok_map:
  "all_ok (map f xs) = Inr ys \<longleftrightarrow> list_all2 (\<lambda>x y. f x = Inr y) xs ys"
  by (induction xs arbitrary: ys) (auto simp: map_sum_Inr list_all2_Cons1 split: sum.split)

lemma all_ok_good:
  "all_ok (map f xs) = Inr ys \<Longrightarrow> (\<And>x y. x \<in> set xs \<Longrightarrow> f x = Inr y \<Longrightarrow> P y) \<Longrightarrow> list_all P ys"
  unfolding all_ok_map list_all2_conv_all_nth list_all_length by (metis nth_mem)

lemma all_ok_fails: "all_ok (map f xs) = Inl err \<Longrightarrow> \<exists>x \<in> set xs. f x = Inl err"
  by (induction xs) (auto split: sum.splits simp: map_sum_def)

definition good :: "nat \<Rightarrow> json \<Rightarrow> bool" where
  "good n j \<longleftrightarrow> numeric j \<and> depth j \<le> n"

lemma good_simps [simp]:
  "good n JNull" "good n (JBoolean b)" "good n (JString s)" "good n (enc_int i)"
  "good n (JArray js) \<longleftrightarrow> 0 < n \<and> list_all (good (n - 1)) js"
  "good n (JObject kvs) \<longleftrightarrow> 0 < n \<and> list_all (\<lambda>kv. good (n - 1) (snd kv)) kvs"
  using textual_itoa(2) by (cases n; auto simp: good_def enc_int_def list_all_iff foldr_max_le)+

lemma good_mono: "good m j \<Longrightarrow> m \<le> n \<Longrightarrow> good n j"
  by (simp add: good_def)

lemma good_opt [simp]: "list_all P (opt_member b k v) \<longleftrightarrow> (b \<longrightarrow> P (k, v))"
  by (simp add: opt_member_def)

lemma enc_num_good: "enc_num x = Inr j \<Longrightarrow> good n j"
  by (auto simp: enc_num_def Let_def good_def enc_float_def float_text_valid float64_def split: if_splits)

lemma enc_jval_good: "enc_jval render v = Inr j \<Longrightarrow> good 1 j"
  by (cases v) (auto simp: enc_list_def list_all_iff enc_num_good)

lemma enc_map_good: "enc_map render m = Inr j \<Longrightarrow> good 2 j"
proof -
  assume "enc_map render m = Inr j"
  then obtain kvs where kvs: "j = JObject kvs"
    "all_ok (map (\<lambda>k. map_sum id (Pair k) (enc_jval render (the (m k)))) (sorted_keys m)) = Inr kvs"
    by (auto simp: enc_map_def map_sum_Inr)
  from kvs(2) have "list_all (\<lambda>kv. good 1 (snd kv)) kvs"
    by (rule all_ok_good) (auto simp: map_sum_Inr enc_jval_good simp del: One_nat_def)
  with kvs(1) show ?thesis by simp
qed

lemma enc_maps_good: "enc_maps render key ms = Inr j \<Longrightarrow> good 4 j"
  by (auto simp: enc_maps_def map_sum_Inr elim!: all_ok_good dest!: enc_map_good)

lemma enc_entry_good: "good 1 (enc_entry en)"
  by (simp add: enc_entry_def)

lemma enc_manifest_good: "good 4 (enc_manifest m)"
proof -
  have "list_all (good n) (map enc_int is)" "list_all (good (Suc n)) (map enc_item its)" for n "is" its
    by (simp_all add: list_all_iff enc_item_def)
  then show ?thesis by (cases "mFiles m") (simp_all add: enc_manifest_def enc_files_def)
qed

lemma enc_probe_good: "enc_probe r = Inr j \<Longrightarrow> good 5 j"
  using enc_manifest_good by (auto simp: enc_probe_def map_sum_Inr enc_num_good split: option.splits)

lemma enc_result_good: "enc_result render r = Inr j \<Longrightarrow> good 5 j"
proof (cases r)
  case (REntries es)
  assume "enc_result render r = Inr j"
  with REntries show ?thesis
    using enc_entry_good good_mono [of 1 _ 3] by (auto simp: list_all_iff)
qed (auto dest!: enc_map_good enc_maps_good elim: good_mono intro: enc_probe_good)

lemma enc_response_good: "enc_response render rs = Inr j \<Longrightarrow> good 6 j"
  by (auto simp: enc_response_def Let_def map_sum_Inr enc_error_def dest: enc_result_good split: option.splits)

lemma valid_answer_keys:
  "valid_utf8 ''ok''" "valid_utf8 ''result''" "valid_utf8 ''error''" "valid_utf8 ''code''"
  "valid_utf8 ''message''" "valid_utf8 ''events''"
  by (simp_all add: valid_utf8_def byte_of_def)

lemma must_json_reads: "good n j \<Longrightarrow> n \<le> 6 \<Longrightarrow> json_scan (must_json (Inr j)) = Inr (as_text j)"
  using json_scan_out [of j "[]"] by (simp add: must_json_def good_def max_depth_def)

text \<open>The answer when there is no JSON for the result.\<close>

lemma marshal_failure_text:
  "must_json (Inl err) = must_json (enc_response render (failure CodeInternal ''marshal failure''))"
  by (simp add: must_json_def marshal_failure_def enc_response_def failure_def enc_error_def CodeInternal_def
      print_plain plain_char_def byte_of_def quote_mark_def backslash_def)

lemma failure_reads:
  "json_scan (must_json (enc_response render (failure code msg))) =
     Inr (JObject [(''ok'', JBoolean False),
       (''error'', JObject [(''code'', JString (to_valid code)), (''message'', JString (to_valid msg))])])"
proof -
  obtain j where j: "enc_response render (failure code msg) = Inr j" by (simp add: enc_response_def failure_def)
  with must_json_reads [OF enc_response_good [OF j]] show ?thesis
    by (auto simp: enc_response_def failure_def enc_error_def valid_answer_keys [unfolded valid_utf8_def])
qed

lemma success_reads:
  assumes "enc_result render res = Inr j"
  shows "json_scan (must_json (enc_response render \<lparr>rsOK = True, rsResult = Some res, rsError = None\<rparr>)) =
     Inr (JObject [(''ok'', JBoolean True), (''result'', as_text j)])"
proof -
  let ?rs = "\<lparr>rsOK = True, rsResult = Some res, rsError = None\<rparr>"
  have r: "enc_response render ?rs = Inr (JObject [(''ok'', JBoolean True), (''result'', j)])"
    using assms by (simp add: enc_response_def)
  from must_json_reads [OF enc_response_good [OF r]] show ?thesis
    by (simp add: r valid_answer_keys [unfolded valid_utf8_def])
qed

section \<open>Results without a text\<close>

definition float_free :: "event \<Rightarrow> bool" where
  "float_free m \<longleftrightarrow> (\<forall>x. JNum x \<notin> ran m)"

lemma enc_jval_fails: "enc_jval render v = Inl err \<Longrightarrow> \<exists>x. v = JNum x"
  by (cases v) auto

lemma enc_map_fails: "enc_map render m = Inl err \<Longrightarrow> \<not> float_free m"
proof -
  assume "enc_map render m = Inl err"
  then obtain err' where "all_ok (map (\<lambda>k. map_sum id (Pair k) (enc_jval render (the (m k)))) (sorted_keys m)) = Inl err'"
    by (auto simp: enc_map_def map_sum_def split: sum.splits)
  from all_ok_fails [OF this] obtain k where
    k: "k \<in> set (sorted_keys m)" "map_sum id (Pair k) (enc_jval render (the (m k))) = Inl err'" by auto
  then obtain x where "the (m k) = JNum x"
    using enc_jval_fails [of render "the (m k)"] by (auto simp: map_sum_def split: sum.splits)
  moreover have "k \<in> dom m"
    using k(1) by (cases "finite (dom m)") (auto simp: sorted_keys_def)
  ultimately show ?thesis by (auto simp: float_free_def ran_def) blast
qed

lemma float_free_maps:
  "start_forward goos now tok listen a' k e = (Inr (m, prog), e') \<Longrightarrow> float_free m"
  "start_socks now tok listen b e = (Inr (m, prog), e') \<Longrightarrow> float_free m"
  "send_files now tok stat c e = (Inr (m, prog), e') \<Longrightarrow> float_free m"
  "download_cmd now tok stat d e = (Inr (m, prog), e') \<Longrightarrow> float_free m"
  "float_free [''session_id'' \<mapsto> JStr sid]"
  by (auto simp: start_forward_def start_socks_def send_files_def download_cmd_def Let_def float_free_def
      ran_def split: if_splits option.splits sum.splits prod.splits)

text \<open>
  A command that starts something has a result with a text; what has none is reported by a command
  that changes nothing.
\<close>

lemma run_command_unsent:
  assumes "run_command env c e = (Inr res, e')" "enc_result render res = Inl err"
  shows "live e' \<subseteq> live e"
proof -
  have "\<not> float_free m" if "res = RMap m" for m using assms(2) that enc_map_fails by simp
  then show ?thesis
    using assms
    by (cases c) (auto simp: settle_def start_ssh_forward_def float_free_maps(5)
        dest!: float_free_maps(1-4) split: sum.splits prod.splits option.splits)
qed

section \<open>Answers\<close>

text \<open>What the text of an answer relies on, besides the laws of the handlers.\<close>

locale text_handlers = command_handlers run alive
    for run :: "command \<Rightarrow> 'e \<Rightarrow> result res \<times> 'e" and alive :: "'e \<Rightarrow> 'l set" +
  fixes render :: "gerror \<Rightarrow> string"
  assumes run_unsent: "run c e = (Inr res, e') \<Longrightarrow> enc_result render res = Inl err \<Longrightarrow> alive e' \<subseteq> alive e"
begin

lemma call_unsent:
  assumes "call rnd run reqJSON e = (rs, e')" "rsResult rs = Some res" "enc_result render res = Inl err"
  shows "alive e' \<subseteq> alive e"
proof -
  from assms(1,2) obtain c where "run c e = (Inr res, e')"
    by (auto simp: call_def dispatch_def respond_cases failure_def split: sum.splits prod.splits)
  with run_unsent assms(3) show ?thesis by blast
qed

text \<open>The text is a success with a result or a failure with a code of the API that started nothing.\<close>

lemma call_answer:
  assumes c: "call rnd run reqJSON e = (rs, e')"
  shows "(\<exists>res. json_scan (must_json (enc_response render rs)) =
        Inr (JObject [(''ok'', JBoolean True), (''result'', res)])) \<or>
     (\<exists>code msg. json_scan (must_json (enc_response render rs)) =
        Inr (JObject [(''ok'', JBoolean False),
          (''error'', JObject [(''code'', JString (to_valid code)), (''message'', JString msg)])]) \<and>
        code \<in> api_codes \<and> alive e' \<subseteq> alive e)"
proof -
  consider (sent) res j where "rs = \<lparr>rsOK = True, rsResult = Some res, rsError = None\<rparr>" "enc_result render res = Inr j"
    | (unsent) res err where "rs = \<lparr>rsOK = True, rsResult = Some res, rsError = None\<rparr>" "enc_result render res = Inl err"
    | (failed) code msg where "rs = failure code msg" "code \<in> api_codes" "alive e' \<subseteq> alive e"
    using call_response [where render = rnd and reqJSON = reqJSON and e = e] c by (cases "enc_result render (the (rsResult rs))") auto
  then show ?thesis
  proof cases
    case sent
    with success_reads [OF sent(2)] show ?thesis by simp
  next
    case unsent
    then have "enc_response render rs = Inl err" by (simp add: enc_response_def)
    moreover have "alive e' \<subseteq> alive e" using call_unsent [OF c] unsent by simp
    ultimately show ?thesis
      by (intro disjI2 exI [of _ CodeInternal] exI [of _ "to_valid ''marshal failure''"])
        (simp add: failure_reads marshal_failure_text [of err render])
  next
    case failed
    then show ?thesis using failure_reads by blast
  qed
qed

end

interpretation answers: text_handlers "run_command env" live "ceRender env" for env
  by unfold_locales (rule run_command_unsent)

lemma valid_codes: "code \<in> api_codes \<Longrightarrow> to_valid code = code"
  by (auto simp: api_codes_def CodeBadRequest_def CodeInvalidToken_def CodeUnsupported_def CodeNotFound_def
      CodeInternal_def byte_of_def)

section \<open>Events\<close>

text \<open>The maps that have a text which keeps all of their members apart.\<close>

definition sendable :: "event \<Rightarrow> bool" where
  "sendable m \<longleftrightarrow>
     finite (dom m) \<and> (\<forall>k \<in> dom m. valid_utf8 k) \<and>
     (\<forall>x. JNum x \<in> ran m \<longrightarrow> \<bar>round64 x\<bar> < float_limit)"

text \<open>A value as the application reads it.\<close>

definition seen :: "(gerror \<Rightarrow> string) \<Rightarrow> jval \<Rightarrow> json" where
  "seen render v = as_text (projr (enc_jval render v))"

definition shows_map :: "(gerror \<Rightarrow> string) \<Rightarrow> event \<Rightarrow> json \<Rightarrow> bool" where
  "shows_map render m j \<longleftrightarrow>
     (\<exists>kvs. j = JObject kvs \<and> sorted (map fst kvs) \<and> distinct (map fst kvs) \<and>
        (\<forall>k. map_of kvs k = map_option (seen render) (m k)))"

lemma sendable_value:
  assumes "sendable m" "m k = Some v"
  shows "\<exists>j. enc_jval render v = Inr j"
proof (cases v)
  case (JNum x)
  then have "JNum x \<in> ran m" using assms(2) by (simp add: ranI)
  with assms(1) JNum show ?thesis by (simp add: sendable_def enc_num_def Let_def)
qed simp_all

lemma enc_map_shows:
  assumes "sendable m"
  shows "\<exists>j. enc_map render m = Inr j \<and> shows_map render m (as_text j)"
proof -
  let ?ks = "sorted_keys m" and ?enc = "\<lambda>k. projr (enc_jval render (the (m k)))"
  have ks: "set ?ks = dom m" "sorted ?ks" "distinct ?ks"
    using assms by (auto simp: sorted_keys_def sendable_def)
  have e: "enc_jval render (the (m k)) = Inr (?enc k)" if k: "k \<in> set ?ks" for k
  proof -
    obtain v where "m k = Some v" using k ks(1) by auto
    moreover from sendable_value [OF assms this, of render] obtain j where "enc_jval render v = Inr j" ..
    ultimately show ?thesis by simp
  qed
  have "all_ok (map (\<lambda>k. map_sum id (Pair k) (enc_jval render (the (m k)))) ?ks) = Inr (map (\<lambda>k. (k, ?enc k)) ?ks)"
  proof -
    have "map_sum id (Pair k) (enc_jval render (the (m k))) = Inr (k, ?enc k)" if "k \<in> set ?ks" for k
      by (subst e [OF that]) simp
    then show ?thesis unfolding all_ok_map list.rel_map list_all2_same by (rule ballI)
  qed
  then have "enc_map render m = Inr (JObject (map (\<lambda>k. (k, ?enc k)) ?ks))" by (simp add: enc_map_def)
  moreover have "shows_map render m (as_text (JObject (map (\<lambda>k. (k, ?enc k)) ?ks)))"
  proof -
    have v: "to_valid k = k" if "k \<in> set ?ks" for k
      using that ks(1) assms by (auto simp: sendable_def valid_utf8_def)
    then have a: "map (map_prod to_valid as_text) (map (\<lambda>k. (k, ?enc k)) ?ks) = map (\<lambda>k. (k, as_text (?enc k))) ?ks"
      by simp
    let ?kvs = "map (\<lambda>k. (k, as_text (?enc k))) ?ks"
    have "map_of ?kvs k = map_option (seen render) (m k)" for k
      using ks(1) by (cases "m k") (auto simp: map_of_map_restrict restrict_map_def seen_def dom_def)
    moreover have "map fst ?kvs = ?ks" by (simp add: comp_def)
    ultimately show ?thesis
      unfolding shows_map_def as_text.simps a using ks(2,3)
      by (intro exI [of _ ?kvs] conjI refl allI) (simp_all only:)
  qed
  ultimately show ?thesis by blast
qed

lemma enc_maps_shows:
  assumes "list_all sendable ms" "valid_utf8 key"
  shows "\<exists>j. enc_maps render key ms = Inr j \<and>
     (\<exists>js. as_text j = JObject [(key, JArray js)] \<and> list_all2 (shows_map render) ms js)"
proof -
  have "\<forall>m \<in> set ms. \<exists>j. enc_map render m = Inr j \<and> shows_map render m (as_text j)"
    using assms(1) enc_map_shows by (simp add: list_all_iff)
  then obtain f where f: "\<And>m. m \<in> set ms \<Longrightarrow> enc_map render m = Inr (f m) \<and> shows_map render m (as_text (f m))"
    by metis
  then have "all_ok (map (enc_map render) ms) = Inr (map f ms)"
    by (simp add: all_ok_map list_all2_conv_all_nth)
  moreover have "list_all2 (shows_map render) ms (map (as_text \<circ> f) ms)"
    using f by (simp add: list_all2_conv_all_nth)
  ultimately show ?thesis
    using assms(2) by (auto simp: enc_maps_def valid_utf8_def)
qed

text \<open>Every call is answered with the text of a result or of an error, and an error starts nothing.\<close>

lemma call_text_answers:
  "case call_text env reqJSON e of
     (out, e') \<Rightarrow>
       (\<exists>res. json_scan out = Inr (JObject [(''ok'', JBoolean True), (''result'', res)])) \<or>
       (\<exists>code msg. json_scan out = Inr (JObject [(''ok'', JBoolean False),
            (''error'', JObject [(''code'', JString code), (''message'', JString msg)])]) \<and>
          live e' \<subseteq> live e \<and>
          code \<in> {''bad_request'', ''invalid_token'', ''unsupported'', ''not_found'', ''internal''})"
proof -
  obtain rs e' where "engine_call env reqJSON e = (rs, e')" by (metis prod.collapse)
  moreover from this have "call (ceRender env) (run_command env) reqJSON e = (rs, e')"
    by (simp add: engine_call_def)
  from answers.call_answer [OF this] valid_codes
  have "(\<exists>res. json_scan (must_json (enc_response (ceRender env) rs)) =
        Inr (JObject [(''ok'', JBoolean True), (''result'', res)])) \<or>
     (\<exists>code msg. json_scan (must_json (enc_response (ceRender env) rs)) =
        Inr (JObject [(''ok'', JBoolean False),
          (''error'', JObject [(''code'', JString code), (''message'', JString msg)])]) \<and>
        code \<in> api_codes \<and> live e' \<subseteq> live e)" by metis
  moreover have "api_codes = {''bad_request'', ''invalid_token'', ''unsupported'', ''not_found'', ''internal''}"
    by (simp add: api_codes_def CodeBadRequest_def CodeInvalidToken_def CodeUnsupported_def CodeNotFound_def
        CodeInternal_def)
  ultimately show ?thesis by (auto simp: call_text_def)
qed

text \<open>All of the text is graphic, so nothing in it ends a C string.\<close>

lemma must_json_graphic:
  assumes "\<And>j. r = Inr j \<Longrightarrow> good n j" "c \<in> set (must_json r)"
  shows "0x20 \<le> byte_of c"
proof (cases r)
  case (Inl err)
  have "\<forall>c \<in> set marshal_failure. 0x20 \<le> byte_of c" by (simp add: marshal_failure_def byte_of_def)
  with Inl assms(2) show ?thesis by (simp add: must_json_def)
next
  case (Inr j)
  with assms json_out_graphic [of j c] show ?thesis by (simp add: must_json_def good_def)
qed

lemma call_text_graphic: "c \<in> set (fst (call_text env reqJSON e)) \<Longrightarrow> 0x20 \<le> byte_of c"
  by (cases "engine_call env reqJSON e") (auto simp: call_text_def intro: must_json_graphic enc_response_good)

lemma poll_text_graphic: "c \<in> set (fst (poll_text render now e)) \<Longrightarrow> 0x20 \<le> byte_of c"
  by (cases "poll now e") (auto simp: poll_text_def intro: must_json_graphic enc_maps_good)

section \<open>The events of the program have a text\<close>

lemma sendable_upd:
  "sendable m \<Longrightarrow> valid_utf8 k \<Longrightarrow> (\<And>x. v = JNum x \<Longrightarrow> \<bar>round64 x\<bar> < float_limit) \<Longrightarrow> sendable (m(k \<mapsto> v))"
  by (auto simp: sendable_def ran_def split: if_splits)

lemma sendable_add: "sendable m \<Longrightarrow> sendable n \<Longrightarrow> sendable (m ++ n)"
  by (auto simp: sendable_def ran_def map_add_Some_iff)

lemma sendable_empty: "sendable Map.empty"
  by (simp add: sendable_def)

lemma valid_event_keys:
  "valid_utf8 ''type''" "valid_utf8 ''ts''" "valid_utf8 ''kind''" "valid_utf8 ''state''" "valid_utf8 ''detail''"
  "valid_utf8 ''level''" "valid_utf8 ''msg''" "valid_utf8 ''file''" "valid_utf8 ''bytes''" "valid_utf8 ''total''"
  "valid_utf8 ''direction''" "valid_utf8 ''done''" "valid_utf8 ''rate_bps''" "valid_utf8 ''via''"
  "valid_utf8 ''latency_ms''" "valid_utf8 ''peers''"
  by (simp_all add: valid_utf8_def byte_of_def)

lemmas sendable_intros = sendable_upd sendable_empty sendable_add

lemma events_sendable:
  "sendable (log_event sid level fmt args)" "sendable (token_event sid tok)" "sendable (error_event sid code msg)"
  "sendable (sInfo s) \<Longrightarrow> sendable (state_event s)"
  "\<bar>round64 (latency_ms pr)\<bar> < float_limit \<Longrightarrow> sendable (path_event sid pr)"
  by (auto simp: log_event_def token_event_def error_event_def state_event_def path_event_def valid_event_keys
      valid_answer_keys intro!: sendable_intros split: prod.split)

text \<open>Rates are finite: a clock moves on by nanoseconds and a file has less than 2^63 bytes.\<close>

lemma rate_finite:
  assumes "\<bar>b\<bar> < 2 ^ 63" "d \<le> 0 \<or> 1 / 10 ^ 9 \<le> d"
  shows "\<bar>round64 (byte_rate b d)\<bar> < float_limit"
proof (cases "d \<le> 0")
  case True
  then show ?thesis using float_limit_sizes(1) by (simp add: byte_rate_def)
next
  case False
  let ?r = "round64 (of_int b)"
  have "\<bar>of_int b\<bar> \<le> (2 :: rat) powi 63" using assms(1) by simp
  then have r: "\<bar>?r\<bar> \<le> 2 powi 63" by (rule round64_le_power) simp
  have "\<bar>?r / d\<bar> \<le> 2 powi 63 / (1 / 10 ^ 9)"
    unfolding abs_divide using r False assms(2) by (intro frac_le) auto
  also have "\<dots> \<le> 2 powi 100" by simp
  finally have "\<bar>round64 (?r / d)\<bar> \<le> 2 powi 100" by (rule round64_le_power) simp
  moreover have "(2 :: rat) powi 100 < float_limit" by (simp add: float_limit_def)
  ultimately show ?thesis using False by (simp add: byte_rate_def)
qed

lemma progress_sendable:
  assumes "\<bar>b\<bar> < 2 ^ 63" "d \<le> 0 \<or> 1 / 10 ^ 9 \<le> d" "pgRate p = byte_rate b d"
  shows "sendable (progress_event sid p)"
  using rate_finite [OF assms(1,2)]
  by (auto simp: progress_event_def valid_event_keys assms(3) intro!: sendable_intros)

lemma push_sendable:
  "list_all sendable (qEvents q) \<Longrightarrow> sendable ev \<Longrightarrow> list_all sendable (qEvents (push now ev q))"
  by (auto simp: push_def stamp_def Let_def list_all_iff valid_event_keys intro!: sendable_upd dest: in_set_dropD)

section \<open>Properties\<close>

text \<open>
  C9. A poll hands over the whole queue: its text is a JSON object with all queued events, oldest
  first (after the notice of an overflow, if there was one), each with all of its members, once
  each, in the order of the keys; and the queue is empty afterwards.
\<close>

theorem poll_delivers_events:
  assumes "list_all sendable (qEvents (eQueue e))"
  shows "case poll_text render now e of
    (out, e') \<Rightarrow>
      (\<exists>js. json_scan out = Inr (JObject [(''events'', JArray js)]) \<and>
         list_all2 (shows_map render)
           ((if 0 < qDropped (eQueue e) \<and> qEvents (eQueue e) \<noteq> [] then [overflow_notice now] else []) @
            qEvents (eQueue e)) js) \<and>
      qEvents (eQueue e') = []"
proof -
  let ?evs = "(if 0 < qDropped (eQueue e) \<and> qEvents (eQueue e) \<noteq> [] then [overflow_notice now] else []) @
    qEvents (eQueue e)"
  have "fst (poll now e) = ?evs \<and> qEvents (eQueue (snd (poll now e))) = []"
    by (simp add: poll_def poll_events_def drain_def Let_def)
  then obtain e' where p: "poll now e = (?evs, e')" "qEvents (eQueue e') = []"
    by (cases "poll now e") auto
  have n: "sendable (overflow_notice now)"
    by (auto simp: sendable_def overflow_notice_def ran_def valid_utf8_def byte_of_def split: if_splits)
  with assms have "list_all sendable ?evs" by simp
  then obtain j js where j: "enc_maps render ''events'' ?evs = Inr j"
    "as_text j = JObject [(''events'', JArray js)]" "list_all2 (shows_map render) ?evs js"
    using enc_maps_shows [of ?evs "''events''" render] valid_answer_keys by blast
  from must_json_reads [OF enc_maps_good [OF j(1)]] j p show ?thesis
    by (auto simp: poll_text_def)
qed

text \<open>A progress event, at one and a half bytes a second.\<close>

definition demo_progress :: event where
  "demo_progress = [''type'' \<mapsto> JStr ''progress'', ''rate_bps'' \<mapsto> JNum (3 / 2)]"

definition demo_polled :: "string engine" where
  "demo_polled = (new_engine [])\<lparr>eQueue := push 7 demo_progress empty_queue\<rparr>"

theorem poll_delivers_events_witness:
  "\<exists>kvs. json_scan (fst (poll_text (\<lambda>_. ''error'') 9 demo_polled)) =
      Inr (JObject [(''events'', JArray [JObject kvs])]) \<and>
     map_of kvs ''rate_bps'' = Some (JNumber ''1.5'') \<and> map_of kvs ''ts'' = Some (JNumber ''7'') \<and>
     map_of kvs ''token'' = None"
proof -
  have q: "eQueue demo_polled = \<lparr>qEvents = [demo_progress(''ts'' \<mapsto> JInt 7)], qDropped = 0\<rparr>"
    by (simp add: demo_polled_def push_def stamp_def demo_progress_def empty_queue_def maxQueuedEvents_def Let_def)
  have r: "round64 (3 / 2) = 3 / 2" "float_text (3 / 2) = ''1.5''" by code_simp+
  have l: "(3 / 2 :: rat) < float_limit" using float_limit_sizes(1) by (simp add: float_limit_def)
  have "\<forall>x. JNum x \<in> ran (demo_progress(''ts'' \<mapsto> JInt 7)) \<longrightarrow> x = 3 / 2"
    by (auto simp: demo_progress_def ran_def split: if_splits)
  then have "\<forall>x. JNum x \<in> ran (demo_progress(''ts'' \<mapsto> JInt 7)) \<longrightarrow> \<bar>round64 x\<bar> < float_limit"
    using l r(1) by fastforce
  then have "sendable (demo_progress(''ts'' \<mapsto> JInt 7))"
    by (simp add: sendable_def) (simp add: demo_progress_def valid_utf8_def byte_of_def)
  then have "list_all sendable (qEvents (eQueue demo_polled))" by (simp add: q)
  from poll_delivers_events [OF this, of "\<lambda>_. ''error''" 9] obtain js where
    j: "json_scan (fst (poll_text (\<lambda>_. ''error'') 9 demo_polled)) = Inr (JObject [(''events'', JArray js)])"
    and a: "list_all2 (shows_map (\<lambda>_. ''error'')) [demo_progress(''ts'' \<mapsto> JInt 7)] js"
    by (auto simp: q case_prod_beta)
  from a obtain kvs where js: "js = [JObject kvs]"
    and m: "\<And>k. map_of kvs k = map_option (seen (\<lambda>_. ''error'')) ((demo_progress(''ts'' \<mapsto> JInt 7)) k)"
    by (auto simp: list_all2_Cons1 shows_map_def)
  show ?thesis
    using j l unfolding js
    by (intro exI [of _ kvs]) (simp add: m demo_progress_def seen_def enc_num_def enc_float_def enc_int_def r itoa_def nat_str.simps)
qed

end
