(* ===== verification/Bridge.thy ===== *)
theory Bridge
  imports Api_Text
begin

text \<open>
  The C interface of the library (\<open>core/bridge/main.go\<close>): one engine behind a mutex, made on
  demand, with \<open>tc_init\<close>, \<open>tc_call\<close>, \<open>tc_poll\<close>, \<open>tc_version\<close> and \<open>tc_shutdown\<close>. Memory
  management across the boundary (\<open>tc_free\<close>, C strings) is left out; a null pointer is \<open>None\<close>.
\<close>

section \<open>State\<close>

text \<open>Ghost data: the engines that \<open>tc_shutdown\<close> closed and dropped.\<close>

record bridge =
  brEng :: "string engine option"
  brClosed :: "string engine list"

definition empty_bridge :: bridge where
  "empty_bridge = \<lparr>brEng = None, brClosed = []\<rparr>"

record init_config =
  icDataDir :: string
  icDERPMapURL :: string

definition zero_config :: init_config where
  "zero_config = \<lparr>icDataDir = [], icDERPMapURL = []\<rparr>"

definition config_fields :: "(string \<times> (json \<Rightarrow> init_config \<Rightarrow> init_config res)) list" where
  "config_fields =
     [(''data_dir'', field dec_string icDataDir (\<lambda>x. icDataDir_update (\<lambda>_. x))),
      (''derpmap_url'', field dec_string icDERPMapURL (\<lambda>x. icDERPMapURL_update (\<lambda>_. x)))]"

section \<open>Operations\<close>

definition current_engine :: "bridge \<Rightarrow> string engine \<times> bridge" where
  "current_engine b =
     (case brEng b of
        Some e \<Rightarrow> (e, b)
      | None \<Rightarrow> let e = new_engine [] in (e, b\<lparr>brEng := Some e\<rparr>))"

definition parse_config :: "string option \<Rightarrow> init_config res" where
  "parse_config configJSON =
     (case configJSON of
        None \<Rightarrow> Inr zero_config
      | Some s \<Rightarrow>
          if s = [] then Inr zero_config
          else case json_scan s of Inl err \<Rightarrow> Inl err | Inr j \<Rightarrow> dec_struct config_fields j zero_config)"

text \<open>The result is the C return code; the outcome of making the data directory is ignored.\<close>

definition tc_init :: "string option \<Rightarrow> bridge \<Rightarrow> int \<times> bridge" where
  "tc_init configJSON b =
     (case parse_config configJSON of
        Inl err \<Rightarrow> (1, b)
      | Inr cfg \<Rightarrow>
          if brEng b \<noteq> None then (0, b)
          else (0, b\<lparr>brEng := Some (new_engine (icDERPMapURL cfg))\<rparr>))"

text \<open>\<open>C.CString\<close>: what C, and with it Dart, sees of a Go string ends at a NUL byte.\<close>

definition c_string :: "string \<Rightarrow> string" where
  "c_string s = takeWhile (\<lambda>c. c \<noteq> CHR 0x00) s"

definition tc_call :: "call_env \<Rightarrow> string option \<Rightarrow> bridge \<Rightarrow> string \<times> bridge" where
  "tc_call env requestJSON b =
     (let req = (case requestJSON of None \<Rightarrow> [] | Some s \<Rightarrow> s)
      in case current_engine b of
           (e, b) \<Rightarrow> (case call_text env req e of (out, e) \<Rightarrow> (c_string out, b\<lparr>brEng := Some e\<rparr>)))"

definition tc_poll :: "(gerror \<Rightarrow> string) \<Rightarrow> int \<Rightarrow> bridge \<Rightarrow> string \<times> bridge" where
  "tc_poll render now b =
     (case current_engine b of
        (e, b) \<Rightarrow> (case poll_text render now e of (out, e) \<Rightarrow> (c_string out, b\<lparr>brEng := Some e\<rparr>)))"

definition tc_version :: "string \<Rightarrow> string" where
  "tc_version version = c_string (''core/'' @ version)"

text \<open>\<open>order\<close> is the order in which \<open>Close\<close> happens to visit the session map.\<close>

definition tc_shutdown :: "int \<Rightarrow> string list \<Rightarrow> bridge \<Rightarrow> bridge" where
  "tc_shutdown now order b =
     (case brEng b of
        None \<Rightarrow> b
      | Some e \<Rightarrow> b\<lparr>brEng := None, brClosed := brClosed b @ [close_engine now order e]\<rparr>)"

section \<open>Histories\<close>

text \<open>
  One call from the application. Go visits a map in some order, each key once: that is all that is
  known of \<open>order\<close>. Jobs of the current engine work on their sessions at any time.
\<close>

inductive bridge_step :: "bridge \<Rightarrow> bridge \<Rightarrow> bool" where
  init: "tc_init cfg b = (rc, b') \<Longrightarrow> bridge_step b b'"
| call: "tc_call env req b = (out, b') \<Longrightarrow> bridge_step b b'"
| poll: "tc_poll render now b = (out, b') \<Longrightarrow> bridge_step b b'"
| shutdown: "brEng b = Some e \<Longrightarrow> distinct order \<Longrightarrow> set order = dom (eSessions e) \<Longrightarrow>
    bridge_step b (tc_shutdown now order b)"
| work: "brEng b = Some e \<Longrightarrow> bridge_step b (b\<lparr>brEng := Some (on_session i (session_do x) e)\<rparr>)"

inductive_cases bridge_stepE: "bridge_step b b'"

inductive bridge_reach :: "bridge \<Rightarrow> bool" where
  start: "bridge_reach empty_bridge"
| more: "bridge_reach b \<Longrightarrow> bridge_step b b' \<Longrightarrow> bridge_reach b'"

text \<open>An engine with nothing left: it takes no sessions and all of its own are over and freed.\<close>

definition dead :: "string engine \<Rightarrow> bool" where
  "dead e \<longleftrightarrow>
     eClosed e \<and> eCancelled e \<and> live e = {} \<and>
     (\<forall>s \<in> ran (eSessions e). sClosed s \<and> sCancelled s \<and> sClosers s = [])"

section \<open>What the commands keep\<close>

definition tidy_session :: "string session \<Rightarrow> bool" where
  "tidy_session s \<longleftrightarrow> (sClosed s \<longrightarrow> sClosers s = [])"

definition tidy :: "string engine \<Rightarrow> bool" where
  "tidy e \<longleftrightarrow> Ball (ran (eSessions e)) tidy_session"

text \<open>
  From one state of an engine to a later one: neither closed nor reconfigured, no session forgotten,
  and closed sessions own nothing.
\<close>

definition evolves :: "string engine \<Rightarrow> string engine \<Rightarrow> bool" where
  "evolves e e' \<longleftrightarrow>
     eClosed e' = eClosed e \<and> eCancelled e' = eCancelled e \<and> eDERPMapURL e' = eDERPMapURL e \<and>
     dom (eSessions e) \<subseteq> dom (eSessions e') \<and>
     (tidy e \<longrightarrow> tidy e')"

lemma evolves_refl [simp]: "evolves e e"
  by (simp add: evolves_def)

lemma evolves_trans: "evolves d e \<Longrightarrow> evolves c d \<Longrightarrow> evolves c e"
  unfolding evolves_def using subset_trans [of "dom (eSessions c)" "dom (eSessions d)"] by simp

lemma evolves_log: "evolves e (e\<lparr>eLog := cs\<rparr>)"
  by (simp add: evolves_def tidy_def)

lemma ran_upd: "ran (m(k \<mapsto> x)) \<subseteq> insert x (ran m)"
  by (auto simp: ran_def)

lemma evolves_add: "add_session now k e = (r, e') \<Longrightarrow> evolves e e'"
  using ran_upd [of "eSessions e"]
  by (auto simp: add_session_def Let_def evolves_def tidy_def tidy_session_def new_session_def
      split: if_splits; fastforce)

lemma evolves_on:
  assumes "\<And>w. tidy_session (sesn w) \<Longrightarrow> tidy_session (sesn (f w))"
  shows "evolves e (on_session i f e)"
proof (cases "eSessions e i")
  case (Some s)
  have "s \<in> ran (eSessions e)" using Some by (rule ranI)
  then have "tidy e \<Longrightarrow> tidy_session (sesn (f (session_sys e s)))"
    using assms by (simp add: session_sys_def tidy_def)
  then show ?thesis
    using Some ran_upd [of "eSessions e" i "sesn (f (session_sys e s))"]
    by (auto simp: on_session_def evolves_def Let_def tidy_def)
qed (simp add: on_session_def)

lemma tidy_shutdown: "tidy_session (sesn (shutdown w))" if "tidy_session (sesn w)" for w :: "string sys"
  using that by (simp add: shutdown_def cancel_def Let_def fold_close tidy_session_def)

lemma tidy_set_state: "tidy_session (sesn (set_state now st d w)) = tidy_session (sesn w)" for w :: "string sys"
  by (simp add: set_state_def emit_def Let_def tidy_session_def)

lemma tidy_emit: "sesn (emit now ev w) = sesn w" for w :: "string sys"
  by (simp add: emit_def)

lemma tidy_fail: "tidy_session (sesn w) \<Longrightarrow> tidy_session (sesn (fail now msg w))" for w :: "string sys"
  by (simp add: fail_def tidy_shutdown tidy_set_state tidy_emit)

lemma tidy_session_do: "tidy_session (sesn w) \<Longrightarrow> tidy_session (sesn (session_do x w))"
proof (cases x)
  case (Fail now msg)
  then show "tidy_session (sesn w) \<Longrightarrow> ?thesis" by (simp add: tidy_fail)
qed (auto simp: set_state_def emit_def set_info_def set_token_def mark_ready_def add_closer_def
    close_one_def session_logf_def tidy_session_def Let_def)

lemma tidy_exec: "exec now x b w = (front, w') \<Longrightarrow> tidy_session (sesn w) \<Longrightarrow> tidy_session (sesn w')"
  by (cases x) (auto simp: tidy_session_def Let_def split: if_splits)

lemma tidy_alone: "tidy_session (sesn w) \<Longrightarrow> tidy_session (sesn (alone now b prog w))"
proof (induction now b prog w rule: alone.induct)
  case (2 now b x p w)
  obtain front w' where e: "exec now x b w = (front, w')" by (metis prod.collapse)
  with 2 tidy_exec [OF e] show ?case by simp
qed simp

lemma evolves_setup: "evolves e (run_setup now sid prog e)"
  unfolding run_setup_def
  by (rule evolves_on) (simp add: sys.defs gsys.defs tidy_alone)

lemma evolves_stop: "evolves e (snd (stop_session now i e))"
  by (auto simp: stop_session_def stop_def tidy_shutdown tidy_set_state intro: evolves_on split: sum.split)

lemma evolves_command_parts:
  "(case start_forward goos now tok listen a' k e of (r, e') \<Rightarrow> evolves e e')"
  "(case start_socks now tok listen b e of (r, e') \<Rightarrow> evolves e e')"
  "(case send_files now tok stat c e of (r, e') \<Rightarrow> evolves e e')"
  "(case download_cmd now tok stat d e of (r, e') \<Rightarrow> evolves e e')"
  by (auto simp: start_forward_def start_socks_def send_files_def download_cmd_def Let_def
      split: sum.split option.split prod.split intro: evolves_add evolves_trans [OF evolves_log])

lemma evolves_add_on:
  "add_session now k e = (r, e1) \<Longrightarrow> (\<And>w. tidy_session (sesn w) \<Longrightarrow> tidy_session (sesn (f w))) \<Longrightarrow>
     (\<And>w. tidy_session (sesn w) \<Longrightarrow> tidy_session (sesn (g w))) \<Longrightarrow>
     evolves e (on_session i g (on_session i f e1))"
  by (meson evolves_add evolves_on evolves_trans)

lemma close_one_session [simp]: "sesn (close_one c w) = sesn w" "sesn (fold close_one cs w) = sesn w"
  by (simp_all add: close_one_def fold_close)

lemma evolves_list_remote: "evolves e (snd (list_remote render now tok sn readDir a e))"
  by (auto simp: list_remote_def Let_def tidy_shutdown tidy_set_state fold_emit
      split: sum.split option.split prod.split intro: evolves_add intro!: evolves_add_on)

lemma evolves_start_server: "evolves e (snd (start_server render env now a e))"
  by (auto simp: start_server_def split: sum.split prod.split
      intro: evolves_add evolves_trans [OF evolves_on [OF tidy_fail]])

lemma evolves_settle: "evolves e e1 \<Longrightarrow> evolves e (snd (settle now (r, e1)))"
  by (auto simp: settle_def split: sum.split intro: evolves_trans [OF evolves_setup])

lemma evolves_settled: "(case r of (x, e') \<Rightarrow> evolves e e') \<Longrightarrow> evolves e (snd (settle now r))"
  by (cases r) (simp add: evolves_settle)

lemma evolves_command: "evolves e (snd (run_command env c e))"
proof (cases c)
  case (Stop a)
  then show ?thesis using evolves_stop [of e "ceNow env" "ssSessionID a"]
    by (auto split: prod.split option.split)
next
  case (StartServer a)
  then show ?thesis
    using evolves_start_server [of e "ceRender env" "ceServer env" "ceNow env" a]
    by (auto split: prod.split sum.split intro: evolves_settle)
next
  case (ListRemote a)
  then show ?thesis
    using evolves_list_remote [of e "ceRender env" "ceNow env"
        "normalize_token (ceLookup env) (ceParse env)" "ceShare env" "ceReadDir env" a]
    by (auto split: prod.split sum.split)
qed (auto simp: start_ssh_forward_def intro: evolves_settled [OF evolves_command_parts(1)]
    evolves_settled [OF evolves_command_parts(2)] evolves_settled [OF evolves_command_parts(3)]
    evolves_settled [OF evolves_command_parts(4)] split: sum.split prod.split)

lemma evolves_call: "evolves e (snd (engine_call env req e))"
  using evolves_command
  by (auto simp: engine_call_def call_def dispatch_def split: sum.split prod.split) (metis snd_conv)+

section \<open>The state of the bridge\<close>

definition bridge_ok :: "bridge \<Rightarrow> bool" where
  "bridge_ok b \<longleftrightarrow>
     list_all dead (brClosed b) \<and>
     (case brEng b of None \<Rightarrow> True | Some e \<Rightarrow> \<not> eClosed e \<and> tidy e)"

lemma new_engine_ok: "\<not> eClosed (new_engine url)" "tidy (new_engine url)"
  by (simp_all add: new_engine_def tidy_def)

lemma evolves_ok: "evolves e e' \<Longrightarrow> \<not> eClosed e \<Longrightarrow> tidy e \<Longrightarrow> \<not> eClosed e' \<and> tidy e'"
  by (simp add: evolves_def)

text \<open>Closing an engine, whatever the order, leaves it dead.\<close>

lemma close_dead:
  assumes "tidy e" "distinct order" "set order = dom (eSessions e)"
  shows "dead (close_engine now order e)"
proof -
  let ?e = "close_engine now order e"
  have sub: "set order \<subseteq> dom (eSessions (e\<lparr>eClosed := True\<rparr>))" using assms(3) by simp
  have e: "eSessions ?e i =
      map_option (\<lambda>s. s\<lparr>sCancelled := True\<rparr>) (map_option stopped_session (eSessions e i))" for i
    using stop_all_sessions [OF assms(2) sub, of now] assms(3)
    by (auto simp: close_engine_def Let_def dom_def)
  have "sClosers (stopped_session s) = []" if "s \<in> ran (eSessions e)" for s
    using that assms(1) by (auto simp: stopped_session_def tidy_def tidy_session_def)
  then have "\<not> active s \<and> sClosed s \<and> sCancelled s \<and> sClosers s = []" if "eSessions ?e i = Some s" for i s
    using that ranI [of "eSessions e" i] unfolding e by auto
  moreover have "eClosed ?e" "eCancelled ?e" by (simp_all add: close_engine_def Let_def)
  ultimately show ?thesis by (auto simp: dead_def live_def ran_def)
qed

lemma current_ok:
  "bridge_ok b \<Longrightarrow> current_engine b = (e, b') \<Longrightarrow>
     \<not> eClosed e \<and> tidy e \<and> brClosed b' = brClosed b \<and> list_all dead (brClosed b)"
  by (auto simp: bridge_ok_def current_engine_def new_engine_ok Let_def split: option.splits)

lemma evolves_poll: "evolves e (snd (poll now e))"
  by (simp add: evolves_def tidy_def poll_def poll_events_def split: prod.split option.split)

lemma evolves_call_text: "evolves e (snd (call_text env req e))"
  using evolves_call [of e env req] by (simp add: call_text_def case_prod_beta)

lemma evolves_poll_text: "evolves e (snd (poll_text render now e))"
  using evolves_poll [of e now] by (simp add: poll_text_def case_prod_beta)

lemma step_bridge_ok: "bridge_step b b' \<Longrightarrow> bridge_ok b \<Longrightarrow> bridge_ok b'"
proof (induction rule: bridge_step.induct)
  case (init cfg b rc b')
  then show ?case
    by (auto simp: tc_init_def bridge_ok_def new_engine_ok split: sum.splits if_splits)
next
  case (call env req b out b')
  obtain e b1 where c: "current_engine b = (e, b1)" by (metis prod.collapse)
  with call current_ok [OF call(2) c] evolves_ok [OF evolves_call_text] show ?case
    by (auto simp: tc_call_def bridge_ok_def Let_def split: prod.splits) (metis snd_conv)+
next
  case (poll render now b out b')
  obtain e b1 where c: "current_engine b = (e, b1)" by (metis prod.collapse)
  with poll current_ok [OF poll(2) c] evolves_ok [OF evolves_poll_text] show ?case
    by (auto simp: tc_poll_def bridge_ok_def split: prod.splits) (metis snd_conv)+
next
  case (shutdown b e order now)
  then show ?case
    using close_dead [of e order now] by (simp add: bridge_ok_def tc_shutdown_def)
next
  case (work b e i x)
  then show ?case
    using evolves_ok [OF evolves_on [OF tidy_session_do]] by (simp add: bridge_ok_def)
qed

lemma reach_bridge_ok: "bridge_reach b \<Longrightarrow> bridge_ok b"
proof (induction rule: bridge_reach.induct)
  case start
  show ?case by (simp add: bridge_ok_def empty_bridge_def)
qed (rule step_bridge_ok)

section \<open>C strings\<close>

lemma c_string_id: "(\<And>c. c \<in> set s \<Longrightarrow> 0x20 \<le> byte_of c) \<Longrightarrow> c_string s = s"
proof -
  assume g: "\<And>c. c \<in> set s \<Longrightarrow> 0x20 \<le> byte_of c"
  have "\<not> 0x20 \<le> byte_of CHR 0x00" by (simp add: byte_of_def)
  with g show ?thesis by (auto simp: c_string_def takeWhile_eq_all_conv)
qed

text \<open>What the application polls is all of the text that the engine made.\<close>

lemma tc_poll_whole:
  "brEng b = Some e \<Longrightarrow> fst (tc_poll render now b) = fst (poll_text render now e)"
  using c_string_id [OF poll_text_graphic [of _ render now e]]
  by (simp add: tc_poll_def current_engine_def case_prod_beta)

definition live_in :: "bridge \<Rightarrow> (string \<times> string session) set" where
  "live_in b = (case brEng b of None \<Rightarrow> {} | Some e \<Rightarrow> live e)"

section \<open>Properties\<close>

text \<open>
  C8. Every call of the application is answered, whatever the request, and also when the engine is not
  there yet: the C string that comes back is JSON text, an object with a result and no error, or with
  an error of one of the five documented codes and no result. A call that is answered with an error
  has not left anything running: the sessions that are starting or running afterwards were so before.
\<close>

theorem calls_are_answered:
  "case tc_call env requestJSON b of
     (out, b') \<Rightarrow>
       (\<exists>res. json_scan out = Inr (JObject [(''ok'', JBoolean True), (''result'', res)])) \<or>
       (\<exists>code msg. json_scan out = Inr (JObject [(''ok'', JBoolean False),
            (''error'', JObject [(''code'', JString code), (''message'', JString msg)])]) \<and>
          live_in b' \<subseteq> live_in b \<and>
          code \<in> {''bad_request'', ''invalid_token'', ''unsupported'', ''not_found'', ''internal''})"
proof -
  obtain e b1 where c: "current_engine b = (e, b1)" by (metis prod.collapse)
  let ?req = "case requestJSON of None \<Rightarrow> [] | Some s \<Rightarrow> s"
  obtain out e' where t: "call_text env ?req e = (out, e')" by (metis prod.collapse)
  have "c_string out = out"
    using call_text_graphic [of _ env ?req e] t by (intro c_string_id) auto
  then have r: "tc_call env requestJSON b = (out, b1\<lparr>brEng := Some e'\<rparr>)"
    by (simp add: tc_call_def Let_def c t)
  have "live e = live_in b"
    using c by (auto simp: current_engine_def live_in_def live_def new_engine_def Let_def split: option.splits)
  then show ?thesis
    using call_text_answers [where env = env and reqJSON = ?req and e = e] unfolding r t by (simp add: live_in_def)
qed

text \<open>
  C17. A shutdown is complete. In any history of initialisations, calls, polls, shutdowns and work of
  background jobs, every engine that was dropped by \<open>tc_shutdown\<close> is closed, takes no new sessions,
  and all of its sessions are over, cancelled and have given up what they owned; and the engine in
  use, if there is one, has not been closed.
\<close>

theorem shutdowns_are_complete:
  assumes "bridge_reach b"
  shows "list_all dead (brClosed b) \<and>
    (case brEng b of None \<Rightarrow> True
     | Some e \<Rightarrow> \<not> eClosed e \<and> (\<forall>i s. eSessions e i = Some s \<and> sClosed s \<longrightarrow> sClosers s = []))"
  using reach_bridge_ok [OF assms]
  by (cases "brEng b") (auto simp: bridge_ok_def tidy_def tidy_session_def dest: ranI)

theorem shutdowns_are_complete_witness:
  "length (brClosed (tc_shutdown 5 [] (snd (tc_poll (\<lambda>_. []) 3 empty_bridge)))) = 1 \<and>
   list_all dead (brClosed (tc_shutdown 5 [] (snd (tc_poll (\<lambda>_. []) 3 empty_bridge))))"
proof -
  let ?b = "snd (tc_poll (\<lambda>_. []) 3 empty_bridge)"
  obtain evs where p: "tc_poll (\<lambda>_. []) 3 empty_bridge = (evs, ?b)" by (metis prod.collapse)
  have r: "bridge_reach ?b" by (rule bridge_reach.more [OF bridge_reach.start bridge_step.poll [OF p]])
  have b: "brEng ?b = Some (the (brEng ?b))" "eSessions (the (brEng ?b)) = Map.empty" "brClosed ?b = []"
    by (simp_all add: tc_poll_def poll_text_def current_engine_def empty_bridge_def Let_def poll_def poll_events_def
        new_engine_def split: prod.split option.split)
  have "bridge_step ?b (tc_shutdown 5 [] ?b)"
    by (rule bridge_step.shutdown [OF b(1)]) (simp_all add: b(2))
  from shutdowns_are_complete [OF bridge_reach.more [OF r this]]
  have "list_all dead (brClosed (tc_shutdown 5 [] ?b))" ..
  moreover have "length (brClosed (tc_shutdown 5 [] ?b)) = 1"
    unfolding tc_shutdown_def by (subst b(1)) (simp add: b(3))
  ultimately show ?thesis by blast
qed

text \<open>
  \<open>tc_init\<close> is idempotent, and from then on, until a shutdown, every call and poll works on an engine
  with its relay map.
\<close>

lemma init_configures:
  assumes "parse_config cfg = Inr c" "brEng b = None" "tc_init cfg b = (rc, b')"
  shows "rc = 0 \<and> tc_init cfg b' = (0, b') \<and>
    eDERPMapURL (the (brEng b')) = icDERPMapURL c \<and>
    eDERPMapURL (the (brEng (snd (tc_call env req b')))) = icDERPMapURL c \<and>
    eDERPMapURL (the (brEng (snd (tc_poll render now b')))) = icDERPMapURL c"
proof -
  have b': "rc = 0" "b' = b\<lparr>brEng := Some (new_engine (icDERPMapURL c))\<rparr>"
    using assms by (simp_all add: tc_init_def)
  let ?e = "new_engine (icDERPMapURL c) :: string engine"
  have url: "eDERPMapURL ?e = icDERPMapURL c" by (simp add: new_engine_def)
  have "eDERPMapURL (snd (call_text env (case req of None \<Rightarrow> [] | Some s \<Rightarrow> s) ?e)) = icDERPMapURL c"
    "eDERPMapURL (snd (poll_text render now ?e)) = icDERPMapURL c"
    using evolves_call_text [of ?e env] evolves_poll_text [of ?e render now] url unfolding evolves_def by metis+
  with assms(1) url show ?thesis
    by (auto simp: b' tc_init_def tc_call_def tc_poll_def current_engine_def split: prod.split)
qed

text \<open>
  After a shutdown, a poll that comes before the next \<open>tc_init\<close> makes an engine without
  configuration, and \<open>tc_init\<close> then reports success but does not apply its configuration.
\<close>

lemma poll_after_shutdown_drops_config:
  assumes "brEng b = Some e" "parse_config cfg = Inr c"
    and "tc_init cfg (snd (tc_poll render now (tc_shutdown t order b))) = (rc, b')"
  shows "rc = 0 \<and> map_option eDERPMapURL (brEng b') = Some []"
  using assms by (auto simp: tc_init_def tc_poll_def poll_text_def tc_shutdown_def current_engine_def new_engine_def
      Let_def poll_def poll_events_def split: prod.splits option.splits)

end
