(* ===== verification/Ssh_Probe.thy ===== *)
theory Ssh_Probe
  imports Share_Front
begin

text \<open>
  The command \<open>sshprobe\<close> (\<open>core/cmd/sshprobe/main.go\<close>): a share of a fresh temporary directory behind
  a local listener. Making the directory, listening and accepting are arguments.
\<close>

section \<open>The command\<close>

text \<open>\<open>log.Fatal\<close> ends the program; otherwise it logs the port and serves until accepting fails.\<close>

datatype ('s, 'c) probe_end = Fatal gerror | Served int 's "'c list"

text \<open>The accept loop: each connection gets a goroutine of its own.\<close>

fun accepted :: "(gerror + 'c) list \<Rightarrow> 'c list" where
  "accepted [] = []"
| "accepted (Inl err # rs) = []"
| "accepted (Inr c # rs) = c # accepted rs"

definition sshprobe_main ::
  "('o, 'h, 'r) os \<Rightarrow> gerror option \<Rightarrow> gerror option \<Rightarrow> string res \<Rightarrow> (string \<Rightarrow> int res) \<Rightarrow> string \<Rightarrow>
     (gerror + 'c) list \<Rightarrow> ('o, 'h, 'r) world \<Rightarrow>
     ((('o, 'h, 'r) world, 'h) front, 'c) probe_end \<times> ('o, 'h, 'r) world"
where
  "sshprobe_main os key signer mkdir listen addr accepts w =
     (case mkdir of
        Inl err \<Rightarrow> (Fatal err, w)
      | Inr dir \<Rightarrow>
          (case new_dir_server os key signer dir ReadWrite w of
             (Inl err, w) \<Rightarrow> (Fatal err, w)
           | (Inr srv, w) \<Rightarrow>
               (case listen addr of
                  Inl err \<Rightarrow> (Fatal err, w)
                | Inr port \<Rightarrow> (Served port srv (accepted accepts), w))))"

text \<open>
  Whatever is served is the read-write share of the fresh directory, opened once and for the probe
  alone.
\<close>

lemma sshprobe_serves_its_directory:
  assumes "sshprobe_main os key signer mkdir listen addr accepts w = (Served port srv cs, w')"
  shows "\<exists>dir r o'. mkdir = Inr dir \<and> os_open_root os dir (fst w) = (Inr r, o') \<and>
    srv = (dir_backend os r, ReadWrite) \<and> listen addr = Inr port"
  using assms
  by (auto simp: sshprobe_main_def new_dir_server_def new_server_def traced_def
      split: sum.splits option.splits prod.splits)

end
